(* ===== verification/Prelude.thy ===== *)
theory Prelude
  imports Main "HOL-Library.Word" "HOL-Library.Char_ord" "HOL-Library.List_Lexorder"
begin

text \<open>
  Shared vocabulary of the KaiRPC development: the machine integers the C++ code uses, the
  result type of computations that can leave the defined behaviour of C++, the one raw memory
  operation of the sources (\<open>memcpy\<close>), and the list facts the component theories rely on.

  A C++ \<open>int\<close> is an \<^typ>\<open>int\<close> that is kept inside \<open>INT_MIN..INT_MAX\<close> by \<open>checked_int\<close>:
  an overflowing signed operation is the fault \<open>Overflow\<close>, not a wrapped value. Integers whose
  bit pattern is observed (the wire format, epoll masks) are words.
\<close>

named_theorems cpp_simps \<open>equations that run the fault monad\<close>
named_theorems buffer_simps \<open>index arithmetic of byte buffers\<close>

type_synonym byte = char
type_synonym int32 = "32 word"

section \<open>Faults\<close>

text \<open>
  What a C++ statement does when it has no defined result: a signed overflow, an access
  outside an object, a container asked for a negative (hence enormous) size, a null pointer
  followed, or an object changed while another thread may be using it.
\<close>

datatype fault = Overflow | OutOfRange | LengthError | NullPointer | DataRace

type_synonym 'a cpp = "fault + 'a"

definition bind_cpp :: "'a cpp \<Rightarrow> ('a \<Rightarrow> 'b cpp) \<Rightarrow> 'b cpp" where
  "bind_cpp m f = (case m of Inl e \<Rightarrow> Inl e | Inr x \<Rightarrow> f x)"

lemma bind_cpp_Inr [simp, cpp_simps]: "bind_cpp (Inr x) f = f x"
  by (simp add: bind_cpp_def)

lemma bind_cpp_Inl [simp, cpp_simps]: "bind_cpp (Inl e) f = Inl e"
  by (simp add: bind_cpp_def)

lemma bind_cpp_eq_Inr:
  "bind_cpp m f = Inr y \<longleftrightarrow> (\<exists>x. m = Inr x \<and> f x = Inr y)"
  by (cases m) auto

lemma bind_cpp_InrE:
  assumes "bind_cpp m f = Inr y"
  obtains x where "m = Inr x" and "f x = Inr y"
  using assms by (auto simp: bind_cpp_eq_Inr)

lemma bind_cpp_assoc: "bind_cpp (bind_cpp m f) g = bind_cpp m (\<lambda>x. bind_cpp (f x) g)"
  by (cases m) auto

lemma bind_cpp_cong [fundef_cong]:
  assumes "m = m'" and "\<And>x. m' = Inr x \<Longrightarrow> f x = g x"
  shows "bind_cpp m f = bind_cpp m' g"
  using assms by (cases m') auto

text \<open>A \<open>for\<close> loop whose body can fault.\<close>

primrec fold_cpp :: "('a \<Rightarrow> 'b \<Rightarrow> 'b cpp) \<Rightarrow> 'a list \<Rightarrow> 'b \<Rightarrow> 'b cpp" where
  "fold_cpp f [] s = Inr s"
| "fold_cpp f (x # xs) s = bind_cpp (f x s) (fold_cpp f xs)"

definition map_cpp :: "('a \<Rightarrow> 'b) \<Rightarrow> 'a cpp \<Rightarrow> 'b cpp" where
  "map_cpp f m = bind_cpp m (\<lambda>x. Inr (f x))"

lemma map_cpp_simps [simp]: "map_cpp f (Inr x) = Inr (f x)" "map_cpp f (Inl e) = Inl e"
  by (simp_all add: map_cpp_def)

lemma map_cpp_eq_Inr: "map_cpp f m = Inr y \<longleftrightarrow> (\<exists>x. m = Inr x \<and> y = f x)"
  by (cases m) auto

lemma map_cpp_bind: "map_cpp f (bind_cpp m g) = bind_cpp m (\<lambda>x. map_cpp f (g x))"
  by (cases m) simp_all

lemma bind_map_cpp: "bind_cpp (map_cpp f m) g = bind_cpp m (\<lambda>x. g (f x))"
  by (cases m) simp_all

lemma fold_cpp_append: "fold_cpp f (xs @ ys) s = bind_cpp (fold_cpp f xs s) (fold_cpp f ys)"
proof (induction xs arbitrary: s)
  case (Cons x xs)
  then have "fold_cpp f (xs @ ys) = (\<lambda>s. bind_cpp (fold_cpp f xs s) (fold_cpp f ys))"
    by (rule ext)
  then show ?case by (simp add: bind_cpp_assoc)
qed simp

text \<open>A step that commutes with a change of the state commutes with it along a loop.\<close>

lemma fold_cpp_frame:
  assumes "\<And>x s. f x (g s) = map_cpp g (f x s)"
  shows "fold_cpp f xs (g s) = map_cpp g (fold_cpp f xs s)"
proof (induction xs arbitrary: s)
  case (Cons x xs)
  show ?case
    by (simp add: assms bind_map_cpp map_cpp_bind Cons.IH)
qed simp

section \<open>Signed machine integers\<close>

definition INT_MAX :: int where
  "INT_MAX = 2147483647"

definition INT_MIN :: int where
  "INT_MIN = - 2147483648"

definition checked_int :: "int \<Rightarrow> int cpp" where
  "checked_int x = (if INT_MIN \<le> x \<and> x \<le> INT_MAX then Inr x else Inl Overflow)"

lemma checked_int_ok [simp, cpp_simps]:
  "INT_MIN \<le> x \<Longrightarrow> x \<le> INT_MAX \<Longrightarrow> checked_int x = Inr x"
  by (simp add: checked_int_def)

lemma checked_int_eq_Inr [simp]:
  "checked_int x = Inr y \<longleftrightarrow> y = x \<and> INT_MIN \<le> x \<and> x \<le> INT_MAX"
  by (auto simp: checked_int_def)

lemma INT_bounds [simp]: "INT_MIN \<le> 0" "0 \<le> INT_MAX" "INT_MIN < 0" "0 < INT_MAX"
  by (simp_all add: INT_MIN_def INT_MAX_def)

lemma INT_MIN_le_nonneg: "0 \<le> x \<Longrightarrow> INT_MIN \<le> x"
  by (simp add: INT_MIN_def)

section \<open>memcpy\<close>

text \<open>
  \<open>memcpy dst d src s n\<close> copies \<open>n\<close> bytes of \<open>src\<close> from offset \<open>s\<close> over \<open>dst\<close> at
  offset \<open>d\<close> and returns the new \<open>dst\<close>. A negative \<open>n\<close> (converted to an enormous
  \<open>size_t\<close>) or a range that leaves one of the two objects is the fault \<open>OutOfRange\<close>.
\<close>

definition memcpy :: "byte list \<Rightarrow> int \<Rightarrow> byte list \<Rightarrow> int \<Rightarrow> int \<Rightarrow> byte list cpp" where
  "memcpy dst d src s n =
     (if 0 \<le> n \<and> 0 \<le> d \<and> 0 \<le> s \<and> d + n \<le> int (length dst) \<and> s + n \<le> int (length src)
      then Inr (take (nat d) dst @ take (nat n) (drop (nat s) src) @ drop (nat (d + n)) dst)
      else Inl OutOfRange)"

lemma memcpy_ok [cpp_simps]:
  assumes "0 \<le> n" "0 \<le> d" "0 \<le> s" "d + n \<le> int (length dst)" "s + n \<le> int (length src)"
  shows "memcpy dst d src s n =
     Inr (take (nat d) dst @ take (nat n) (drop (nat s) src) @ drop (nat (d + n)) dst)"
  using assms by (simp add: memcpy_def)

lemma memcpy_length: "memcpy dst d src s n = Inr dst' \<Longrightarrow> length dst' = length dst"
  by (auto simp: memcpy_def split: if_splits)

section \<open>Lists\<close>

lemma drop_take_window: "k \<le> n \<Longrightarrow> drop k (take n xs) = take (n - k) (drop k xs)"
  by (simp add: drop_take)

lemma take_append_exact [simp]: "length xs = n \<Longrightarrow> take n (xs @ ys) = xs"
  by simp

lemma drop_append_exact [simp]: "length xs = n \<Longrightarrow> drop n (xs @ ys) = ys"
  by simp

lemma dropWhile_append_stop:
  "x \<in> set xs \<Longrightarrow> \<not> P x \<Longrightarrow> dropWhile P (xs @ ys) = dropWhile P xs @ ys"
  by (rule dropWhile_append1)

end
