(* ===== verification/TcpBuffer.thy ===== *)
theory TcpBuffer
  imports Prelude
begin

text \<open>
  The growable byte buffer of a connection (\<open>net/tcp/tcp_buffer.h\<close>, \<open>net/tcp/tcp_buffer.cc\<close>).
  A buffer is a \<open>std::vector<char>\<close> with a read and a write index; the bytes between them are
  the readable contents. The theory models every member function, states the index invariant
  \<open>buffer_ok\<close> that the repository documents, and shows that under it the buffer is a queue of
  bytes: no operation faults, writes append, reads and index moves consume a prefix, and the
  internal compaction and reallocation never change the readable bytes.
\<close>

section \<open>State and operations\<close>

record tcp_buffer =
  m_read_index :: int
  m_write_index :: int
  m_size :: int
  m_buffer :: "byte list"

text \<open>\<open>std::vector<char>(n)\<close>: \<open>n\<close> zero bytes; a negative \<open>n\<close> throws \<open>length_error\<close>.\<close>

definition new_vector :: "int \<Rightarrow> byte list cpp" where
  "new_vector n = (if n < 0 then Inl LengthError else Inr (replicate (nat n) (CHR 0x00)))"

definition newTcpBuffer :: "int \<Rightarrow> tcp_buffer cpp" where
  "newTcpBuffer sz =
     bind_cpp (new_vector sz) (\<lambda>v.
       Inr \<lparr>m_read_index = 0, m_write_index = 0, m_size = sz, m_buffer = v\<rparr>)"

definition readAble :: "tcp_buffer \<Rightarrow> int" where
  "readAble b = m_write_index b - m_read_index b"

definition writeAble :: "tcp_buffer \<Rightarrow> int" where
  "writeAble b = int (length (m_buffer b)) - m_write_index b"

definition readIndex :: "tcp_buffer \<Rightarrow> int" where
  "readIndex b = m_read_index b"

definition writeIndex :: "tcp_buffer \<Rightarrow> int" where
  "writeIndex b = m_write_index b"

definition resizeBuffer :: "int \<Rightarrow> tcp_buffer \<Rightarrow> tcp_buffer cpp" where
  "resizeBuffer new_size b =
     bind_cpp (new_vector new_size) (\<lambda>tmp.
       let count = min new_size (readAble b) in
       bind_cpp (memcpy tmp 0 (m_buffer b) (m_read_index b) count) (\<lambda>tmp'.
         Inr (b\<lparr>m_buffer := tmp', m_read_index := 0, m_write_index := count\<rparr>)))"

text \<open>\<open>int(m_buffer.size() / 3)\<close> is an unsigned division of a size that fits an \<open>int\<close>.\<close>

definition adjustBuffer :: "tcp_buffer \<Rightarrow> tcp_buffer cpp" where
  "adjustBuffer b =
     (if m_read_index b < int (length (m_buffer b)) div 3 then Inr b
      else
        bind_cpp (new_vector (int (length (m_buffer b)))) (\<lambda>buffer.
          let count = readAble b in
          bind_cpp (if 0 < count then memcpy buffer 0 (m_buffer b) (m_read_index b) count
                    else Inr buffer) (\<lambda>buffer'.
            Inr (b\<lparr>m_buffer := buffer', m_read_index := 0, m_write_index := count\<rparr>))))"

text \<open>\<open>(int)(1.5 * s)\<close>: the product is exact in a \<open>double\<close>, the cast truncates towards zero.\<close>

definition grow_size :: "int \<Rightarrow> int" where
  "grow_size s = (if 0 \<le> s then (3 * s) div 2 else - ((3 * (- s)) div 2))"

definition writeToBuffer :: "byte list \<Rightarrow> int \<Rightarrow> tcp_buffer \<Rightarrow> tcp_buffer cpp" where
  "writeToBuffer buf sz b =
     bind_cpp
       (if writeAble b < sz
        then bind_cpp (checked_int (m_write_index b + sz)) (\<lambda>s.
               bind_cpp (checked_int (grow_size s)) (\<lambda>new_size. resizeBuffer new_size b))
        else Inr b) (\<lambda>b1.
     bind_cpp (memcpy (m_buffer b1) (m_write_index b1) buf 0 sz) (\<lambda>v.
     bind_cpp (checked_int (m_write_index b1 + sz)) (\<lambda>w.
       Inr (b1\<lparr>m_buffer := v, m_write_index := w\<rparr>))))"

text \<open>\<open>readFromBuffer(re, size)\<close> returns the new value of the vector \<open>re\<close> and the buffer.\<close>

definition readFromBuffer :: "byte list \<Rightarrow> int \<Rightarrow> tcp_buffer \<Rightarrow> (byte list \<times> tcp_buffer) cpp" where
  "readFromBuffer re sz b =
     (if readAble b = 0 then Inr (re, b)
      else
        let read_size = (if sz < readAble b then sz else readAble b) in
        bind_cpp (new_vector read_size) (\<lambda>tmp.
        bind_cpp (memcpy tmp 0 (m_buffer b) (m_read_index b) read_size) (\<lambda>tmp'.
        bind_cpp (checked_int (m_read_index b + read_size)) (\<lambda>r.
        bind_cpp (adjustBuffer (b\<lparr>m_read_index := r\<rparr>)) (\<lambda>b'.
          Inr (tmp', b'))))))"

definition moveReadIndex :: "int \<Rightarrow> tcp_buffer \<Rightarrow> tcp_buffer cpp" where
  "moveReadIndex sz b =
     bind_cpp (checked_int (m_read_index b + sz)) (\<lambda>j.
       if sz < 0 \<or> m_write_index b < j then Inr b
       else adjustBuffer (b\<lparr>m_read_index := j\<rparr>))"

definition moveWriteIndex :: "int \<Rightarrow> tcp_buffer \<Rightarrow> tcp_buffer cpp" where
  "moveWriteIndex sz b =
     (if sz < 0 \<or> writeAble b < sz then Inr b
      else bind_cpp (checked_int (m_write_index b + sz)) (\<lambda>w.
             adjustBuffer (b\<lparr>m_write_index := w\<rparr>)))"

section \<open>Invariant and abstraction\<close>

text \<open>\<open>0 <= read_index <= write_index <= capacity\<close>, and the capacity fits an \<open>int\<close>.\<close>

definition buffer_ok :: "tcp_buffer \<Rightarrow> bool" where
  "buffer_ok b \<longleftrightarrow> 0 \<le> m_read_index b \<and> m_read_index b \<le> m_write_index b \<and>
     m_write_index b \<le> int (length (m_buffer b)) \<and> int (length (m_buffer b)) \<le> INT_MAX"

text \<open>The readable bytes.\<close>

definition contents :: "tcp_buffer \<Rightarrow> byte list" where
  "contents b = take (nat (readAble b)) (drop (nat (m_read_index b)) (m_buffer b))"


section \<open>Index arithmetic\<close>

lemmas buffer_defs = buffer_ok_def contents_def readAble_def writeAble_def

lemma readAble_nonneg: "buffer_ok b \<Longrightarrow> 0 \<le> readAble b"
  by (simp add: buffer_defs)

lemma writeAble_nonneg: "buffer_ok b \<Longrightarrow> 0 \<le> writeAble b"
  by (simp add: buffer_defs)

lemma length_contents [simp]: "buffer_ok b \<Longrightarrow> length (contents b) = nat (readAble b)"
  by (auto simp: buffer_defs)

lemma readAble_contents: "buffer_ok b \<Longrightarrow> readAble b = int (length (contents b))"
  by (simp add: readAble_nonneg)

lemma contents_empty: "buffer_ok b \<Longrightarrow> contents b = [] \<longleftrightarrow> readAble b = 0"
  by (metis length_0_conv of_nat_0_eq_iff readAble_contents)

lemma contents_nth:
  assumes "buffer_ok b" and "0 \<le> i" and "i < readAble b"
  shows "m_buffer b ! nat (m_read_index b + i) = contents b ! nat i"
proof -
  have "nat (m_read_index b + i) = nat (m_read_index b) + nat i"
    using assms by (simp add: buffer_defs nat_add_distrib)
  moreover have "nat (m_read_index b) + nat i \<le> length (m_buffer b)"
    using assms by (auto simp: buffer_defs)
  ultimately show ?thesis
    using assms by (simp add: buffer_defs add.commute)
qed

lemma contents_slice:
  assumes "buffer_ok b" and "0 \<le> i" and "0 \<le> n" and "i + n \<le> readAble b"
  shows "take (nat n) (drop (nat (m_read_index b + i)) (m_buffer b)) =
         take (nat n) (drop (nat i) (contents b))"
proof -
  have "nat (m_read_index b + i) = nat i + nat (m_read_index b)"
    and "nat n \<le> nat (readAble b) - nat i"
    using assms by (auto simp: buffer_defs nat_add_distrib)
  then show ?thesis
    by (simp add: contents_def drop_take min_absorb1)
qed

lemma new_vector_ok [simp, cpp_simps]:
  "0 \<le> n \<Longrightarrow> new_vector n = Inr (replicate (nat n) (CHR 0x00))"
  by (simp add: new_vector_def)

text \<open>Copying the readable bytes to the front of a fresh vector.\<close>

lemma memcpy_front:
  assumes "buffer_ok b" and "0 \<le> n" and "n \<le> readAble b" and "n \<le> int k"
  shows "memcpy (replicate k z) 0 (m_buffer b) (m_read_index b) n =
         Inr (take (nat n) (contents b) @ replicate (k - nat n) z)"
  using assms contents_slice [of b 0 n] by (auto simp: memcpy_def buffer_defs)

text \<open>Both reallocations leave a vector that starts with the readable bytes.\<close>

lemma compacted_buffer:
  assumes "int (length xs + length pad) \<le> INT_MAX"
  shows "buffer_ok (b\<lparr>m_buffer := xs @ pad, m_read_index := 0, m_write_index := int (length xs)\<rparr>)"
    and "contents (b\<lparr>m_buffer := xs @ pad, m_read_index := 0, m_write_index := int (length xs)\<rparr>) = xs"
  using assms by (simp_all add: buffer_defs)

section \<open>The operations under the invariant\<close>

lemma newTcpBuffer_ok:
  assumes "0 \<le> n" and "n \<le> INT_MAX"
  shows "\<exists>b. newTcpBuffer n = Inr b \<and> buffer_ok b \<and> contents b = [] \<and> writeAble b = n"
  using assms by (simp add: newTcpBuffer_def buffer_defs)

lemma resizeBuffer_ok:
  assumes "buffer_ok b" and "0 \<le> n" and "n \<le> INT_MAX"
  shows "\<exists>b'. resizeBuffer n b = Inr b' \<and> buffer_ok b' \<and>
           contents b' = take (nat n) (contents b) \<and> length (m_buffer b') = nat n \<and>
           m_read_index b' = 0"
proof -
  define c xs where "c = min n (readAble b)" and "xs = take (nat n) (contents b)"
  have c: "0 \<le> c" "c \<le> readAble b" "c \<le> int (nat n)"
    using assms readAble_nonneg [of b] by (auto simp: c_def)
  have len: "c = int (length xs)" and xs: "take (nat c) (contents b) = xs"
    using assms readAble_nonneg [of b] by (auto simp: c_def xs_def min_def)
  have le: "length xs \<le> nat n" and xs': "take (length xs) (contents b) = xs"
    using xs by (simp_all add: xs_def len)
  have "resizeBuffer n b = Inr (b\<lparr>m_buffer := xs @ replicate (nat n - length xs) (CHR 0x00),
      m_read_index := 0, m_write_index := int (length xs)\<rparr>)"
    using assms(2) memcpy_front [OF assms(1) c]
    by (simp add: resizeBuffer_def c_def [symmetric] len xs')
  then show ?thesis
    using assms(2,3) le compacted_buffer [of xs "replicate (nat n - length xs) (CHR 0x00)"]
    by (simp add: xs_def [symmetric])
qed

lemma adjustBuffer_ok:
  assumes "buffer_ok b"
  shows "\<exists>b'. adjustBuffer b = Inr b' \<and> buffer_ok b' \<and> contents b' = contents b \<and>
           length (m_buffer b') = length (m_buffer b) \<and> m_read_index b' \<le> m_read_index b"
proof (cases "m_read_index b < int (length (m_buffer b)) div 3")
  case True
  then show ?thesis using assms by (simp add: adjustBuffer_def)
next
  case False
  define k where "k = length (m_buffer b)"
  have len: "readAble b = int (length (contents b))"
    using assms by (rule readAble_contents)
  have le: "length (contents b) \<le> k" "int k \<le> INT_MAX" "0 \<le> m_read_index b"
    using assms by (auto simp: k_def buffer_defs)
  have "adjustBuffer b = Inr (b\<lparr>m_buffer := contents b @ replicate (k - length (contents b)) (CHR 0x00),
      m_read_index := 0, m_write_index := int (length (contents b))\<rparr>)"
    using False memcpy_front [OF assms, of "readAble b" k] le
    by (cases "contents b") (auto simp: adjustBuffer_def len k_def [symmetric] Let_def nat_add_distrib)
  then show ?thesis
    using le compacted_buffer [of "contents b" "replicate (k - length (contents b)) (CHR 0x00)" b]
    by (simp add: k_def [symmetric])
qed

lemma moveReadIndex_ok:
  assumes "buffer_ok b" and "0 \<le> n" and "n \<le> readAble b"
  shows "\<exists>b'. moveReadIndex n b = Inr b' \<and> buffer_ok b' \<and> contents b' = drop (nat n) (contents b) \<and>
           length (m_buffer b') = length (m_buffer b)"
proof -
  define b1 where "b1 = b\<lparr>m_read_index := m_read_index b + n\<rparr>"
  have b1: "buffer_ok b1" "length (m_buffer b1) = length (m_buffer b)"
    using assms by (auto simp: b1_def buffer_defs)
  have "nat (m_read_index b + n) = nat n + nat (m_read_index b)"
    and "nat (m_write_index b - (m_read_index b + n)) = nat (m_write_index b - m_read_index b) - nat n"
    using assms by (auto simp: buffer_defs)
  then have "contents b1 = drop (nat n) (contents b)"
    by (simp add: b1_def contents_def readAble_def drop_take)
  moreover have "moveReadIndex n b = adjustBuffer b1"
    using assms by (auto simp: moveReadIndex_def b1_def buffer_defs INT_MIN_le_nonneg)
  ultimately show ?thesis
    using adjustBuffer_ok [OF b1(1)] b1(2) by auto
qed

lemma moveReadIndex_reject:
  assumes "buffer_ok b" and "n < 0 \<or> readAble b < n" and "m_read_index b + n \<le> INT_MAX" "INT_MIN \<le> n"
  shows "moveReadIndex n b = Inr b"
proof -
  have "INT_MIN \<le> m_read_index b + n"
    using assms by (simp add: buffer_defs)
  then show ?thesis
    using assms by (auto simp: moveReadIndex_def buffer_defs)
qed

text \<open>
  \<open>moveWriteIndex\<close> publishes bytes that were stored behind the write index (by \<open>read(2)\<close>).
\<close>

definition spare :: "tcp_buffer \<Rightarrow> byte list" where
  "spare b = drop (nat (m_write_index b)) (m_buffer b)"

lemma length_spare [simp]: "buffer_ok b \<Longrightarrow> length (spare b) = nat (writeAble b)"
  by (simp add: spare_def buffer_defs nat_diff_distrib)

lemma moveWriteIndex_ok:
  assumes "buffer_ok b" and "0 \<le> n" and "n \<le> writeAble b"
  shows "\<exists>b'. moveWriteIndex n b = Inr b' \<and> buffer_ok b' \<and>
           contents b' = contents b @ take (nat n) (spare b) \<and>
           length (m_buffer b') = length (m_buffer b)"
proof -
  define b1 where "b1 = b\<lparr>m_write_index := m_write_index b + n\<rparr>"
  have b1: "buffer_ok b1" "length (m_buffer b1) = length (m_buffer b)"
    using assms by (auto simp: b1_def buffer_defs)
  have "nat (m_write_index b + n - m_read_index b) = nat (readAble b) + nat n"
    and "nat (m_write_index b) = nat (readAble b) + nat (m_read_index b)"
    using assms by (auto simp: buffer_defs nat_add_distrib nat_diff_distrib)
  then have "contents b1 = contents b @ take (nat n) (spare b)"
    using assms by (simp add: b1_def contents_def readAble_def spare_def take_add)
  moreover have "moveWriteIndex n b = adjustBuffer b1"
    using assms by (auto simp: moveWriteIndex_def b1_def buffer_defs INT_MIN_le_nonneg)
  ultimately show ?thesis
    using adjustBuffer_ok [OF b1(1)] b1(2) by auto
qed

text \<open>Writing: in place when the bytes fit, after a reallocation to \<open>1.5\<close> times otherwise.\<close>

lemma writeToBuffer_fits:
  assumes "buffer_ok b" and "n = int (length buf)" and "n \<le> writeAble b"
  shows "\<exists>b'. writeToBuffer buf n b = Inr b' \<and> buffer_ok b' \<and> contents b' = contents b @ buf \<and>
           m_write_index b' = m_write_index b + n \<and> length (m_buffer b') = length (m_buffer b)"
proof -
  define w where "w = nat (m_write_index b)"
  define v where "v = take w (m_buffer b) @ buf @ drop (w + length buf) (m_buffer b)"
  have w: "m_write_index b = int w" "w + length buf \<le> length (m_buffer b)" "nat (m_read_index b) \<le> w"
    using assms by (auto simp: w_def buffer_defs)
  have "memcpy (m_buffer b) (m_write_index b) buf 0 n = Inr v"
    using assms w by (simp add: memcpy_def v_def nat_add_distrib)
  moreover have "m_write_index b + n \<le> INT_MAX" "INT_MIN \<le> m_write_index b + n"
    using assms w by (auto simp: buffer_defs intro: INT_MIN_le_nonneg)
  ultimately have "writeToBuffer buf n b = Inr (b\<lparr>m_buffer := v, m_write_index := m_write_index b + n\<rparr>)"
    using assms by (simp add: writeToBuffer_def)
  moreover have "contents (b\<lparr>m_buffer := v, m_write_index := m_write_index b + n\<rparr>) = contents b @ buf"
  proof -
    have "nat (m_write_index b + n - m_read_index b) = (w - nat (m_read_index b)) + length buf"
      and "nat (m_write_index b - m_read_index b) = w - nat (m_read_index b)"
      and "min (length (m_buffer b) - nat (m_read_index b)) (w - nat (m_read_index b)) = w - nat (m_read_index b)"
      and "min (w + length buf - nat (m_read_index b)) (w - nat (m_read_index b)) = w - nat (m_read_index b)"
      using assms w by (auto simp: buffer_defs)
    then show ?thesis
      using w by (simp add: contents_def readAble_def v_def drop_take)
  qed
  moreover have "buffer_ok (b\<lparr>m_buffer := v, m_write_index := m_write_index b + n\<rparr>)" "length v = length (m_buffer b)"
    using assms w by (auto simp: buffer_defs v_def)
  ultimately show ?thesis by simp
qed

definition room :: "tcp_buffer \<Rightarrow> nat \<Rightarrow> bool" where
  "room b k \<longleftrightarrow> (3 * (m_write_index b + int k)) div 2 \<le> INT_MAX"

lemma room_mono: "room b k \<Longrightarrow> j \<le> k \<Longrightarrow> room b j"
  by (auto simp: room_def intro: order_trans [OF zdiv_mono1])

lemma writeToBuffer_ok:
  assumes "buffer_ok b" and "n = int (length buf)" and "room b (length buf)"
  shows "\<exists>b'. writeToBuffer buf n b = Inr b' \<and> buffer_ok b' \<and> contents b' = contents b @ buf \<and>
           m_write_index b' \<le> m_write_index b + n"
proof (cases "n \<le> writeAble b")
  case True
  then show ?thesis
    using writeToBuffer_fits [OF assms(1,2) True] by auto
next
  case False
  define s where "s = m_write_index b + n"
  have s: "0 \<le> s" "s \<le> (3 * s) div 2" "(3 * s) div 2 \<le> INT_MAX"
    using assms by (auto simp: s_def room_def buffer_defs)
  obtain b1 where b1: "resizeBuffer (grow_size s) b = Inr b1" "buffer_ok b1"
      "contents b1 = take (nat (grow_size s)) (contents b)" "length (m_buffer b1) = nat (grow_size s)"
      "m_read_index b1 = 0"
    using resizeBuffer_ok [OF assms(1), of "grow_size s"] s by (auto simp: grow_size_def)
  have le: "readAble b \<le> m_write_index b" "m_write_index b \<le> s" "0 \<le> readAble b"
    using assms by (auto simp: s_def buffer_defs)
  have c: "contents b1 = contents b"
    using b1(3) s le assms(1) by (simp add: grow_size_def)
  have w1: "m_write_index b1 = readAble b"
    using c b1(2,5) readAble_contents [OF b1(2)] readAble_contents [OF assms(1)]
    by (simp add: readAble_def)
  have "n \<le> writeAble b1"
    using w1 b1(4) s le by (simp add: writeAble_def grow_size_def s_def)
  then obtain b2 where b2: "writeToBuffer buf n b1 = Inr b2" "buffer_ok b2"
      "contents b2 = contents b1 @ buf" "m_write_index b2 = m_write_index b1 + n"
    using writeToBuffer_fits [OF b1(2) assms(2)] by auto
  have "writeToBuffer buf n b = writeToBuffer buf n b1"
    using False \<open>n \<le> writeAble b1\<close> b1(1) s
    by (simp add: writeToBuffer_def s_def [symmetric] INT_MIN_le_nonneg grow_size_def)
  with b2 c w1 le show ?thesis by auto
qed

lemma readFromBuffer_ok:
  assumes "buffer_ok b" and "0 \<le> n"
  shows "\<exists>b'. readFromBuffer re n b =
           Inr (if contents b = [] then re else take (nat n) (contents b), b') \<and>
           buffer_ok b' \<and> contents b' = drop (nat n) (contents b)"
proof (cases "readAble b = 0")
  case True
  then have "contents b = []" by (simp add: contents_def)
  with True assms show ?thesis by (simp add: readFromBuffer_def)
next
  case False
  define k where "k = min n (readAble b)"
  have k: "0 \<le> k" "k \<le> readAble b" "k \<le> int (nat k)" "k = (if n < readAble b then n else readAble b)"
    using assms readAble_nonneg [OF assms(1)] by (auto simp: k_def min_def)
  have "length (contents b) \<noteq> 0"
    using False assms readAble_nonneg [OF assms(1)] by simp
  then have ne: "contents b \<noteq> []" by blast
  have tk: "take (nat k) (contents b) = take (nat n) (contents b)"
    and dk: "drop (nat k) (contents b) = drop (nat n) (contents b)"
    using assms readAble_nonneg [OF assms(1)] by (auto simp: k_def min_def)
  obtain b' where b': "moveReadIndex k b = Inr b'" "buffer_ok b'" "contents b' = drop (nat k) (contents b)"
    using moveReadIndex_ok [OF assms(1) k(1,2)] by auto
  have r: "m_read_index b + k \<le> m_write_index b" "INT_MIN \<le> m_read_index b + k" "m_read_index b + k \<le> INT_MAX"
    using assms k by (auto simp: buffer_defs intro: INT_MIN_le_nonneg)
  have "adjustBuffer (b\<lparr>m_read_index := m_read_index b + k\<rparr>) = Inr b'"
    using b'(1) r k(1) by (auto simp: moveReadIndex_def split: if_splits)
  then have "readFromBuffer re n b = Inr (take (nat k) (contents b), b')"
    using False k(1) r memcpy_front [OF assms(1) k(1-3)]
    by (simp add: readFromBuffer_def k(4) [symmetric])
  then show ?thesis
    using b' ne tk dk by simp
qed

section \<open>The byte-queue interface\<close>

text \<open>
  What the coders and the connection rely on: a buffer under its invariant is a queue of bytes
  with a push at the back, limited by the room that an \<open>int\<close> capacity leaves, and a pop at the
  front. The consequences for sequences of pushes and pops are proved once here.
\<close>

locale byte_queue =
  fixes inv :: "'b \<Rightarrow> bool"
    and bytes :: "'b \<Rightarrow> byte list"
    and has_room :: "'b \<Rightarrow> nat \<Rightarrow> bool"
    and push :: "byte list \<Rightarrow> 'b \<Rightarrow> 'b cpp"
    and pop :: "nat \<Rightarrow> 'b \<Rightarrow> 'b cpp"
  assumes push_ok: "inv b \<Longrightarrow> has_room b (length xs + k) \<Longrightarrow>
      \<exists>b'. push xs b = Inr b' \<and> inv b' \<and> bytes b' = bytes b @ xs \<and> has_room b' k"
    and pop_ok: "inv b \<Longrightarrow> n \<le> length (bytes b) \<Longrightarrow>
      \<exists>b'. pop n b = Inr b' \<and> inv b' \<and> bytes b' = drop n (bytes b)"
begin

lemma push_all_room:
  "inv b \<Longrightarrow> has_room b (length (concat xss) + k) \<Longrightarrow>
     \<exists>b'. fold_cpp push xss b = Inr b' \<and> inv b' \<and> bytes b' = bytes b @ concat xss \<and> has_room b' k"
proof (induction xss arbitrary: b)
  case Nil
  then show ?case by simp
next
  case (Cons xs xss)
  obtain b1 where "push xs b = Inr b1" "inv b1" "bytes b1 = bytes b @ xs"
      "has_room b1 (length (concat xss) + k)"
    using push_ok [of b xs "length (concat xss) + k"] Cons.prems by (auto simp: add.assoc)
  with Cons.IH [of b1] show ?case by auto
qed

lemma push_all:
  "inv b \<Longrightarrow> has_room b (length (concat xss)) \<Longrightarrow>
     \<exists>b'. fold_cpp push xss b = Inr b' \<and> inv b' \<and> bytes b' = bytes b @ concat xss"
  using push_all_room [of b xss 0] by auto

lemma pop_all:
  "inv b \<Longrightarrow> sum_list ns \<le> length (bytes b) \<Longrightarrow>
     \<exists>b'. fold_cpp pop ns b = Inr b' \<and> inv b' \<and> bytes b' = drop (sum_list ns) (bytes b)"
proof (induction ns arbitrary: b)
  case Nil
  then show ?case by simp
next
  case (Cons n ns)
  obtain b1 where "pop n b = Inr b1" "inv b1" "bytes b1 = drop n (bytes b)"
    using pop_ok [of b n] Cons.prems by auto
  with Cons.IH [of b1] Cons.prems show ?case by (auto simp: add.commute)
qed

lemma push_then_pop:
  assumes "inv b" and "has_room b (length xs)"
  shows "\<exists>b1 b2. push xs b = Inr b1 \<and> pop (length (bytes b)) b1 = Inr b2 \<and> inv b2 \<and> bytes b2 = xs"
proof -
  obtain b1 where b1: "push xs b = Inr b1" "inv b1" "bytes b1 = bytes b @ xs"
    using push_ok [of b xs 0] assms by auto
  then show ?thesis
    using pop_ok [of b1 "length (bytes b)"] by auto
qed

end

interpretation tcpbuf: byte_queue buffer_ok contents room
  "\<lambda>xs. writeToBuffer xs (int (length xs))" "\<lambda>n. moveReadIndex (int n)"
proof unfold_locales
  fix b and xs :: "byte list" and k
  assume b: "buffer_ok b" and r: "room b (length xs + k)"
  obtain b' where "writeToBuffer xs (int (length xs)) b = Inr b'" "buffer_ok b'"
      "contents b' = contents b @ xs" "m_write_index b' \<le> m_write_index b + int (length xs)"
    using writeToBuffer_ok [OF b refl room_mono [OF r, of "length xs"]] by auto
  moreover from this r have "room b' k"
    by (auto simp: room_def intro: order_trans [OF zdiv_mono1])
  ultimately show "\<exists>b'. writeToBuffer xs (int (length xs)) b = Inr b' \<and> buffer_ok b' \<and>
      contents b' = contents b @ xs \<and> room b' k"
    by blast
next
  fix b n
  assume "buffer_ok b" and "n \<le> length (contents b)"
  then show "\<exists>b'. moveReadIndex (int n) b = Inr b' \<and> buffer_ok b' \<and> contents b' = drop n (contents b)"
    using moveReadIndex_ok [of b "int n"] readAble_nonneg [of b] by (auto simp: le_nat_iff)
qed

section \<open>Properties\<close>

text \<open>
  A buffer is a FIFO of bytes: after any sequence of writes that the \<open>int\<close> capacity leaves
  room for, none of them faults, the index invariant holds, and the readable bytes are the old
  ones followed by everything written, whatever reallocations happened on the way.
\<close>

theorem writes_append:
  assumes "buffer_ok b" and "room b (length (concat xss))"
  shows "\<exists>b'. fold_cpp (\<lambda>xs. writeToBuffer xs (int (length xs))) xss b = Inr b' \<and> buffer_ok b' \<and>
           contents b' = contents b @ concat xss"
  using assms by (rule tcpbuf.push_all)

theorem writes_append_witness:
  "\<exists>b b'. newTcpBuffer 2 = Inr b \<and>
     fold_cpp (\<lambda>xs. writeToBuffer xs (int (length xs))) [''ab'', ''cde''] b = Inr b' \<and>
     buffer_ok b' \<and> contents b' = ''abcde''"
proof -
  obtain b where b: "newTcpBuffer 2 = Inr b" "buffer_ok b" "contents b = []" "m_write_index b = 0"
    by (simp add: newTcpBuffer_def buffer_defs INT_MAX_def)
  then have "room b (length (concat [''ab'', ''cde'']))"
    by (simp add: room_def INT_MAX_def)
  with b show ?thesis
    using writes_append [of b "[''ab'', ''cde'']"] by fastforce
qed

text \<open>
  Reading: \<open>readFromBuffer\<close> with a non-negative size never faults, keeps the invariant,
  hands out the longest readable prefix of that size (leaving the target vector untouched when
  nothing is readable) and removes exactly that prefix.
\<close>

theorem read_takes_prefix:
  assumes "buffer_ok b" and "0 \<le> n"
  shows "\<exists>b'. readFromBuffer re n b =
           Inr (if contents b = [] then re else take (nat n) (contents b), b') \<and>
           buffer_ok b' \<and> contents b' = drop (nat n) (contents b)"
  using assms by (rule readFromBuffer_ok)

theorem read_takes_prefix_witness:
  "\<exists>b'. readFromBuffer [] 2 \<lparr>m_read_index = 1, m_write_index = 4, m_size = 4, m_buffer = ''xabc''\<rparr> =
     Inr (''ab'', b') \<and> buffer_ok b' \<and> contents b' = ''c''"
  using read_takes_prefix [of "\<lparr>m_read_index = 1, m_write_index = 4, m_size = 4, m_buffer = ''xabc''\<rparr>" 2 "[]"]
  by (simp add: buffer_defs INT_MAX_def)

text \<open>
  Index moves: \<open>moveReadIndex\<close> by at most the readable count drops exactly that many bytes
  and \<open>moveWriteIndex\<close> by at most the free count (equality included) publishes exactly that many
  bytes stored behind the write index; a negative or too large move leaves the buffer as it was.
\<close>

theorem index_moves:
  assumes "buffer_ok b" and "INT_MIN \<le> n" and "m_read_index b + n \<le> INT_MAX"
  shows "(if 0 \<le> n \<and> n \<le> readAble b
          then \<exists>b'. moveReadIndex n b = Inr b' \<and> buffer_ok b' \<and> contents b' = drop (nat n) (contents b)
          else moveReadIndex n b = Inr b) \<and>
         (if 0 \<le> n \<and> n \<le> writeAble b
          then \<exists>b'. moveWriteIndex n b = Inr b' \<and> buffer_ok b' \<and>
                 contents b' = contents b @ take (nat n) (spare b)
          else moveWriteIndex n b = Inr b)"
proof -
  have "\<not> (0 \<le> n \<and> n \<le> readAble b) \<Longrightarrow> moveReadIndex n b = Inr b"
    using assms moveReadIndex_reject [of b n] by auto
  moreover have "\<not> (0 \<le> n \<and> n \<le> writeAble b) \<Longrightarrow> moveWriteIndex n b = Inr b"
    by (auto simp: moveWriteIndex_def)
  ultimately show ?thesis
    using moveReadIndex_ok [OF assms(1), of n] moveWriteIndex_ok [OF assms(1), of n] by auto
qed

theorem index_moves_witness:
  "\<exists>b'. moveWriteIndex 3 \<lparr>m_read_index = 0, m_write_index = 1, m_size = 4, m_buffer = ''abcd''\<rparr> = Inr b' \<and>
     contents b' = ''abcd''"
  using index_moves [of "\<lparr>m_read_index = 0, m_write_index = 1, m_size = 4, m_buffer = ''abcd''\<rparr>" 3]
  by (auto simp: buffer_defs spare_def INT_MAX_def INT_MIN_def)

section \<open>Any sequence of calls\<close>

text \<open>A call of a public member function with whatever arguments of type \<open>int\<close>.\<close>

datatype buffer_op =
    Write "byte list" int
  | Read "byte list" int
  | Resize int
  | Adjust
  | Move_read int
  | Move_write int

fun op_size :: "buffer_op \<Rightarrow> int" where
  "op_size (Write buf n) = n"
| "op_size (Read re n) = n"
| "op_size (Resize n) = n"
| "op_size Adjust = 0"
| "op_size (Move_read n) = n"
| "op_size (Move_write n) = n"

fun buffer_step :: "buffer_op \<Rightarrow> tcp_buffer \<Rightarrow> tcp_buffer cpp" where
  "buffer_step (Write buf n) b = writeToBuffer buf n b"
| "buffer_step (Read re n) b = map_cpp snd (readFromBuffer re n b)"
| "buffer_step (Resize n) b = resizeBuffer n b"
| "buffer_step Adjust b = adjustBuffer b"
| "buffer_step (Move_read n) b = moveReadIndex n b"
| "buffer_step (Move_write n) b = moveWriteIndex n b"

lemma resizeBuffer_keeps: "resizeBuffer n b = Inr b' \<Longrightarrow> buffer_ok b \<Longrightarrow> n \<le> INT_MAX \<Longrightarrow> buffer_ok b'"
  using resizeBuffer_ok [of b n] by (cases "n < 0") (auto simp: resizeBuffer_def new_vector_def)

lemma adjustBuffer_keeps: "adjustBuffer b = Inr b' \<Longrightarrow> buffer_ok b \<Longrightarrow> buffer_ok b'"
  using adjustBuffer_ok [of b] by auto

lemma memcpy_in_bounds: "memcpy dst d src s n = Inr dst' \<Longrightarrow> 0 \<le> n \<and> d + n \<le> int (length dst)"
  by (auto simp: memcpy_def split: if_splits)

lemma writeToBuffer_keeps:
  assumes "writeToBuffer buf n b = Inr b'" and "buffer_ok b"
  shows "buffer_ok b'"
proof -
  obtain b1 v where b1: "(if writeAble b < n
        then bind_cpp (checked_int (m_write_index b + n)) (\<lambda>s.
               bind_cpp (checked_int (grow_size s)) (\<lambda>new_size. resizeBuffer new_size b))
        else Inr b) = Inr b1"
    and v: "memcpy (m_buffer b1) (m_write_index b1) buf 0 n = Inr v"
    and b': "b' = b1\<lparr>m_buffer := v, m_write_index := m_write_index b1 + n\<rparr>"
    using assms(1) unfolding writeToBuffer_def by (auto simp: bind_cpp_eq_Inr)
  have "buffer_ok b1"
    using b1 assms(2) by (auto simp: bind_cpp_eq_Inr split: if_splits intro: resizeBuffer_keeps)
  then show ?thesis
    using memcpy_in_bounds [OF v] memcpy_length [OF v] by (simp add: b' buffer_ok_def)
qed

lemma readFromBuffer_keeps:
  assumes "readFromBuffer re n b = Inr (re', b')" and "buffer_ok b"
  shows "buffer_ok b'"
proof (cases "0 \<le> n \<or> readAble b = 0")
  case True
  then show ?thesis using assms readFromBuffer_ok [of b n re] by (auto simp: readFromBuffer_def)
next
  case False
  moreover have "n < readAble b" using False readAble_nonneg [OF assms(2)] by simp
  ultimately show ?thesis using assms(1) by (simp add: readFromBuffer_def Let_def new_vector_def)
qed

lemma moveReadIndex_keeps: "moveReadIndex n b = Inr b' \<Longrightarrow> buffer_ok b \<Longrightarrow> buffer_ok b'"
  using moveReadIndex_ok [of b n]
  by (cases "0 \<le> n \<and> n \<le> readAble b") (auto simp: moveReadIndex_def bind_cpp_eq_Inr readAble_def split: if_splits)

lemma moveWriteIndex_keeps: "moveWriteIndex n b = Inr b' \<Longrightarrow> buffer_ok b \<Longrightarrow> buffer_ok b'"
  using moveWriteIndex_ok [of b n]
  by (cases "0 \<le> n \<and> n \<le> writeAble b") (auto simp: moveWriteIndex_def)

lemma buffer_step_keeps:
  assumes "buffer_step a b = Inr b'" and "buffer_ok b" and "op_size a \<le> INT_MAX"
  shows "buffer_ok b'"
  using assms
  by (cases a) (auto simp: map_cpp_eq_Inr intro: writeToBuffer_keeps readFromBuffer_keeps resizeBuffer_keeps
      adjustBuffer_keeps moveReadIndex_keeps moveWriteIndex_keeps)

text \<open>
  C34. The indices of a buffer stay well formed: from a fresh buffer, whatever member functions are
  called with whatever arguments, as long as no call leaves the defined behaviour,
  \<open>0 \<le> m_read_index \<le> m_write_index \<le> m_buffer.size()\<close>, which fits an \<open>int\<close>.
\<close>

theorem buffer_indices_well_formed:
  assumes "newTcpBuffer n = Inr b" and "n \<le> INT_MAX" and "\<forall>a \<in> set calls. op_size a \<le> INT_MAX"
    and "fold_cpp buffer_step calls b = Inr b'"
  shows "0 \<le> m_read_index b' \<and> m_read_index b' \<le> m_write_index b' \<and>
         m_write_index b' \<le> int (length (m_buffer b')) \<and> int (length (m_buffer b')) \<le> INT_MAX"
proof -
  have "buffer_ok b" using assms(1,2) newTcpBuffer_ok [of n] by (cases "n < 0") (auto simp: newTcpBuffer_def new_vector_def)
  then have "buffer_ok b'" using assms(3,4)
    by (induction calls arbitrary: b) (auto simp: bind_cpp_eq_Inr intro: buffer_step_keeps)
  then show ?thesis by (simp add: buffer_ok_def)
qed

theorem buffer_indices_well_formed_witness:
  "\<exists>b b'. newTcpBuffer 2 = Inr b \<and>
     fold_cpp buffer_step [Write ''abc'' 3, Move_read 5, Read [] 2, Move_write (- 1), Resize 4] b = Inr b' \<and>
     m_read_index b' \<le> m_write_index b'"
proof -
  let ?calls = "[Write ''abc'' 3, Move_read 5, Read [] 2, Move_write (- 1), Resize 4]"
  obtain b where b: "newTcpBuffer 2 = Inr b" by (simp add: newTcpBuffer_def)
  then obtain b' where b': "fold_cpp buffer_step ?calls b = Inr b'"
    by (auto simp: newTcpBuffer_def writeToBuffer_def readFromBuffer_def moveReadIndex_def moveWriteIndex_def resizeBuffer_def
        adjustBuffer_def readAble_def writeAble_def grow_size_def memcpy_def new_vector_def INT_MAX_def INT_MIN_def numeral_eq_Suc)
  show ?thesis using buffer_indices_well_formed [OF b _ _ b'] b b' by (auto simp: INT_MAX_def)
qed

end
