(* ===== verification/CppString.thy ===== *)
theory CppString
  imports Prelude
begin

text \<open>
  The parts of the C and C++ string library the sources use: \<open>std::string::find_first_of\<close>
  with one character, \<open>substr\<close>, the conversion of a NUL-terminated buffer to a string,
  \<open>std::to_string\<close> and \<open>std::atoi\<close> (as glibc implements it: \<open>strtol\<close> in base ten, clamped to
  \<open>long\<close>, then truncated to \<open>int\<close>), with the round trip between the last two.
\<close>

section \<open>Searching and cutting\<close>

primrec find_first_of :: "char \<Rightarrow> string \<Rightarrow> nat option" where
  "find_first_of c [] = None"
| "find_first_of c (x # xs) = (if x = c then Some 0 else map_option Suc (find_first_of c xs))"

definition substr :: "string \<Rightarrow> nat \<Rightarrow> nat \<Rightarrow> string" where
  "substr s i n = take n (drop i s)"

definition c_str_to_string :: "byte list \<Rightarrow> string" where
  "c_str_to_string buf = takeWhile (\<lambda>c. c \<noteq> CHR 0x00) buf"

lemma find_first_of_None [simp]: "find_first_of c s = None \<longleftrightarrow> c \<notin> set s"
  by (induction s) auto

lemma find_first_of_append [simp]:
  "c \<notin> set a \<Longrightarrow> find_first_of c (a @ c # b) = Some (length a)"
  by (induction a) auto

lemma find_first_of_SomeD:
  "find_first_of c s = Some i \<Longrightarrow> i < length s \<and> s ! i = c \<and> c \<notin> set (take i s)"
  by (induction s arbitrary: i) (auto split: if_splits)

lemma find_first_of_Some_split:
  assumes "find_first_of c s = Some i"
  shows "s = take i s @ c # drop (Suc i) s"
  using find_first_of_SomeD [OF assms] by (metis id_take_nth_drop)

lemma c_str_to_string_no_nul [simp]: "CHR 0x00 \<notin> set s \<Longrightarrow> c_str_to_string s = s"
  by (auto simp: c_str_to_string_def takeWhile_eq_all_conv)

lemma c_str_to_string_terminated [simp]:
  "CHR 0x00 \<notin> set s \<Longrightarrow> c_str_to_string (s @ CHR 0x00 # rest) = s"
  by (induction s) (auto simp: c_str_to_string_def)

section \<open>Decimal digits\<close>

definition digit_char :: "nat \<Rightarrow> char" where
  "digit_char d = char_of (48 + d)"

definition is_digit :: "char \<Rightarrow> bool" where
  "is_digit c \<longleftrightarrow> 48 \<le> (of_char c :: nat) \<and> (of_char c :: nat) \<le> 57"

definition digit_value :: "char \<Rightarrow> nat" where
  "digit_value c = of_char c - 48"

lemma digit_char_code: "d < 10 \<Longrightarrow> (of_char (digit_char d) :: nat) = 48 + d"
  by (simp add: digit_char_def)

lemma digit_char_simps [simp]:
  "d < 10 \<Longrightarrow> is_digit (digit_char d)"
  "d < 10 \<Longrightarrow> digit_value (digit_char d) = d"
  by (simp_all add: is_digit_def digit_value_def digit_char_code)

lemma digit_char_value: "is_digit c \<Longrightarrow> digit_char (digit_value c) = c"
  by (simp add: digit_char_def is_digit_def digit_value_def)

lemma digit_value_less: "is_digit c \<Longrightarrow> digit_value c < 10"
  by (auto simp: is_digit_def digit_value_def)

section \<open>\<open>std::to_string\<close>\<close>

fun dec_of_nat :: "nat \<Rightarrow> string" where
  "dec_of_nat n = (if n < 10 then [digit_char n] else dec_of_nat (n div 10) @ [digit_char (n mod 10)])"

declare dec_of_nat.simps [simp del]

definition to_string :: "int \<Rightarrow> string" where
  "to_string n = (if n < 0 then CHR ''-'' # dec_of_nat (nat (- n)) else dec_of_nat (nat n))"

section \<open>\<open>std::atoi\<close>\<close>

definition is_space :: "char \<Rightarrow> bool" where
  "is_space c \<longleftrightarrow> c \<in> {CHR '' '', CHR 0x09, CHR 0x0A, CHR 0x0B, CHR 0x0C, CHR 0x0D}"

fun dec_value :: "nat \<Rightarrow> string \<Rightarrow> nat" where
  "dec_value acc [] = acc"
| "dec_value acc (c # cs) = (if is_digit c then dec_value (10 * acc + digit_value c) cs else acc)"

definition strtol10 :: "string \<Rightarrow> int" where
  "strtol10 s =
     (let t = dropWhile is_space s in
      case t of
        [] \<Rightarrow> 0
      | c # cs \<Rightarrow>
          if c = CHR ''-'' then max (- (2 ^ 63)) (- int (dec_value 0 cs))
          else if c = CHR ''+'' then min (2 ^ 63 - 1) (int (dec_value 0 cs))
          else min (2 ^ 63 - 1) (int (dec_value 0 t)))"

definition atoi :: "string \<Rightarrow> int" where
  "atoi s = sint (word_of_int (strtol10 s) :: int32)"

section \<open>Round trip\<close>

lemma dec_of_nat_digits: "\<forall>c \<in> set (dec_of_nat n). is_digit c"
proof (induction n rule: dec_of_nat.induct)
  case (1 n)
  then show ?case by (subst dec_of_nat.simps) auto
qed

lemma dec_of_nat_nonempty [simp]: "dec_of_nat n \<noteq> []"
  by (subst dec_of_nat.simps) simp

lemma dec_value_append:
  "\<forall>c \<in> set xs. is_digit c \<Longrightarrow> dec_value acc (xs @ ys) = dec_value (dec_value acc xs) ys"
  by (induction xs arbitrary: acc) auto

lemma dec_value_of_nat [simp]: "dec_value 0 (dec_of_nat n) = n"
proof (induction n rule: dec_of_nat.induct)
  case (1 n)
  show ?case
  proof (cases "n < 10")
    case True
    then show ?thesis by (simp add: dec_of_nat.simps [of n])
  next
    case False
    with "1.IH" have "dec_value 0 (dec_of_nat (n div 10)) = n div 10" by simp
    with False show ?thesis
      by (simp add: dec_of_nat.simps [of n] dec_value_append dec_of_nat_digits)
  qed
qed

lemma dec_value_stop: "rest = [] \<or> \<not> is_digit (hd rest) \<Longrightarrow> dec_value acc rest = acc"
  by (cases rest) auto

lemma dec_value_of_nat_append:
  assumes "rest = [] \<or> \<not> is_digit (hd rest)"
  shows "dec_value 0 (dec_of_nat n @ rest) = n"
  using assms by (simp add: dec_value_append dec_of_nat_digits dec_value_stop)

lemma digit_not_special: "is_digit c \<Longrightarrow> \<not> is_space c \<and> c \<noteq> CHR ''-'' \<and> c \<noteq> CHR ''+''"
  by (auto simp: is_digit_def is_space_def)

lemma strtol10_to_string:
  assumes "INT_MIN \<le> n" and "n \<le> INT_MAX" and "rest = [] \<or> \<not> is_digit (hd rest)"
  shows "strtol10 (to_string n @ rest) = n"
proof (cases "n < 0")
  case True
  then show ?thesis
    using assms dec_value_of_nat_append [of rest "nat (- n)"]
    by (simp add: to_string_def strtol10_def is_space_def INT_MIN_def)
next
  case False
  obtain c cs where c: "dec_of_nat (nat n) = c # cs"
    by (cases "dec_of_nat (nat n)") auto
  then have "is_digit c"
    using dec_of_nat_digits [of "nat n"] by simp
  then show ?thesis
    using False assms c dec_value_of_nat_append [of rest "nat n"] digit_not_special [of c]
    by (simp add: to_string_def strtol10_def INT_MAX_def)
qed

lemma sint_word_of_int_32:
  "INT_MIN \<le> n \<Longrightarrow> n \<le> INT_MAX \<Longrightarrow> sint (word_of_int n :: int32) = n"
  by (simp add: sint_sbintrunc' signed_take_bit_int_eq_self INT_MIN_def INT_MAX_def)

lemma atoi_to_string_append:
  assumes "INT_MIN \<le> n" and "n \<le> INT_MAX" and "rest = [] \<or> \<not> is_digit (hd rest)"
  shows "atoi (to_string n @ rest) = n"
  using assms by (simp add: atoi_def strtol10_to_string sint_word_of_int_32)

lemma atoi_to_string:
  "INT_MIN \<le> n \<Longrightarrow> n \<le> INT_MAX \<Longrightarrow> atoi (to_string n) = n"
  using atoi_to_string_append [of n "[]"] by simp

lemma atoi_bounds: "INT_MIN \<le> atoi s" "atoi s \<le> INT_MAX"
  using sint_greater_eq [of "word_of_int (strtol10 s) :: int32"]
    sint_less [of "word_of_int (strtol10 s) :: int32"]
  by (simp_all add: atoi_def INT_MIN_def INT_MAX_def)

lemma to_string_chars: "\<forall>c \<in> set (to_string n). is_digit c \<or> c = CHR ''-''"
  using dec_of_nat_digits by (auto simp: to_string_def)

lemma length_dec_of_nat: "n < 10 ^ Suc k \<Longrightarrow> length (dec_of_nat n) \<le> Suc k"
proof (induction k arbitrary: n)
  case (Suc k)
  then have "n div 10 < 10 ^ Suc k" by simp
  then show ?case using Suc.IH [of "n div 10"] by (simp add: dec_of_nat.simps [of n])
qed (simp add: dec_of_nat.simps)

lemma length_to_string: "0 \<le> n \<Longrightarrow> n \<le> 999999999 \<Longrightarrow> length (to_string n) \<le> 9"
  using length_dec_of_nat [of "nat n" 8] by (simp add: to_string_def)

lemma to_string_nonempty [simp]: "to_string n \<noteq> []"
  by (simp add: to_string_def)

end
