(* ===== verification/TinyPBCoder.thy ===== *)
theory TinyPBCoder
  imports TcpBuffer CppString
begin

text \<open>
  The TinyPB message and its codec (\<open>net/coder/\<close>, \<open>getInt32FromNetByte\<close> of
  \<open>common/util.cc\<close>) and the plain string codec. Encoding writes one packet per message into the
  out buffer; decoding scans the in buffer for packets, resynchronising on the start flag. The
  decoder reads the vector by index, so every access is checked here and an access outside the
  vector is a fault. The loop of \<open>decode\<close> is a function with a termination proof: every
  iteration that goes on consumes at least one readable byte.
\<close>

section \<open>Protocol objects\<close>

text \<open>\<open>TinyPBProtocol\<close>, with the \<open>m_msg_id\<close> it inherits from \<open>AbstractProtocol\<close>.\<close>

record tinypb =
  m_pk_len :: int32
  m_msg_id_len :: int32
  m_msg_id :: string
  m_method_name_len :: int32
  m_method_name :: string
  m_err_code :: int32
  m_err_info_len :: int32
  m_err_info :: string
  m_pb_data :: string
  m_check_sum :: int32
  parse_success :: bool

definition newTinyPB :: tinypb where
  "newTinyPB = \<lparr>m_pk_len = 0, m_msg_id_len = 0, m_msg_id = [], m_method_name_len = 0,
     m_method_name = [], m_err_code = 0, m_err_info_len = 0, m_err_info = [], m_pb_data = [],
     m_check_sum = 0, parse_success = False\<rparr>"

record string_protocol =
  sp_msg_id :: string
  sp_info :: string

text \<open>An \<open>AbstractProtocol::s_ptr\<close>; the \<open>dynamic_pointer_cast\<close>s of the coders are the match.\<close>

datatype protocol = TinyPB tinypb | StringP string_protocol

definition MAX_PACKAGE_SIZE :: int where
  "MAX_PACKAGE_SIZE = 10 * 1024 * 1024"

definition MIN_PACKAGE_SIZE :: int where
  "MIN_PACKAGE_SIZE = 1 + 4 + 4 + 4 + 4 + 4 + 4 + 1"

definition PB_START :: byte where
  "PB_START = CHR 0x02"

definition PB_END :: byte where
  "PB_END = CHR 0x03"

definition kInt32Size :: int where
  "kInt32Size = 4"

section \<open>Network byte order\<close>

text \<open>\<open>htonl\<close> and \<open>memcpy\<close> of an \<open>int32_t\<close> on the little-endian targets of the repository.\<close>

definition putInt32 :: "int32 \<Rightarrow> byte list" where
  "putInt32 v = [char_of (unat v div 2 ^ 24), char_of (unat v div 2 ^ 16),
                 char_of (unat v div 2 ^ 8), char_of (unat v)]"

definition int32_of_bytes :: "byte list \<Rightarrow> int32" where
  "int32_of_bytes bs = word_of_nat (fold (\<lambda>c n. 256 * n + of_char c) bs 0)"

definition getInt32FromNetByte :: "byte list \<Rightarrow> int \<Rightarrow> int32 cpp" where
  "getInt32FromNetByte data i =
     (if 0 \<le> i \<and> i + 4 \<le> int (length data) then Inr (int32_of_bytes (take 4 (drop (nat i) data)))
      else Inl OutOfRange)"

section \<open>Encoding\<close>

text \<open>
  \<open>encodeTinyPB\<close> returns the packet (\<open>None\<close> for the null pointer) and the message as it leaves
  it: the default message id is stored even when the packet is refused. \<open>malloc\<close> succeeds.
\<close>

definition encodeTinyPB :: "tinypb \<Rightarrow> byte list option \<times> tinypb" where
  "encodeTinyPB message =
     (let message = (if m_msg_id message = [] then message\<lparr>m_msg_id := ''123456789''\<rparr> else message);
          pk_len64 = MIN_PACKAGE_SIZE + int (length (m_msg_id message)) +
            int (length (m_method_name message)) + int (length (m_err_info message)) +
            int (length (m_pb_data message))
      in if MAX_PACKAGE_SIZE < pk_len64 then (None, message)
         else
           let pk_len = word_of_int pk_len64;
               msg_id_len = word_of_nat (length (m_msg_id message));
               method_name_len = word_of_nat (length (m_method_name message));
               err_info_len = word_of_nat (length (m_err_info message));
               message = message\<lparr>m_check_sum := 1\<rparr>;
               buf = [PB_START] @ putInt32 pk_len @
                     putInt32 msg_id_len @ m_msg_id message @
                     putInt32 method_name_len @ m_method_name message @
                     putInt32 (m_err_code message) @
                     putInt32 err_info_len @ m_err_info message @
                     m_pb_data message @
                     putInt32 (m_check_sum message) @ [PB_END]
           in (Some buf, message\<lparr>m_pk_len := pk_len, m_msg_id_len := msg_id_len,
                 m_method_name_len := method_name_len, m_err_info_len := err_info_len,
                 parse_success := True\<rparr>))"

fun encode :: "protocol list \<Rightarrow> tcp_buffer \<Rightarrow> (protocol list \<times> tcp_buffer) cpp" where
  "encode [] out_buffer = Inr ([], out_buffer)"
| "encode (StringP p # messages) out_buffer =
     bind_cpp (encode messages out_buffer) (\<lambda>(ms, b). Inr (StringP p # ms, b))"
| "encode (TinyPB m # messages) out_buffer =
     (let (buf, m') = encodeTinyPB m in
      bind_cpp (case buf of
                  Some bs \<Rightarrow> if bs \<noteq> [] then writeToBuffer bs (int (length bs)) out_buffer
                             else Inr out_buffer
                | None \<Rightarrow> Inr out_buffer) (\<lambda>b1.
      bind_cpp (encode messages b1) (\<lambda>(ms, b2). Inr (TinyPB m' # ms, b2))))"

section \<open>Decoding\<close>

definition canReadInt32 :: "int \<Rightarrow> int \<Rightarrow> bool" where
  "canReadInt32 index limit \<longleftrightarrow> 0 \<le> index \<and> index + kInt32Size \<le> limit"

definition canReadField :: "int \<Rightarrow> int \<Rightarrow> int \<Rightarrow> bool" where
  "canReadField index len limit \<longleftrightarrow> 0 \<le> len \<and> 0 \<le> index \<and> index + len \<le> limit"

definition moveReadIndexIfNeeded :: "int \<Rightarrow> tcp_buffer \<Rightarrow> tcp_buffer cpp" where
  "moveReadIndexIfNeeded n b = (if 0 < n then moveReadIndex n b else Inr b)"

definition readStringField :: "byte list \<Rightarrow> int \<Rightarrow> int \<Rightarrow> string cpp" where
  "readStringField data index len =
     (if len = 0 then Inr []
      else if 0 \<le> index \<and> 0 \<le> len \<and> index + len \<le> int (length data)
           then Inr (take (nat len) (drop (nat index) data))
      else Inl OutOfRange)"

text \<open>\<open>tmp[i]\<close>\<close>

definition vector_at :: "byte list \<Rightarrow> int \<Rightarrow> byte cpp" where
  "vector_at data i = (if 0 \<le> i \<and> i < int (length data) then Inr (data ! nat i) else Inl OutOfRange)"

text \<open>The search for the start flag: \<open>start_index\<close>, \<open>-1\<close> when there is none.\<close>

function find_start :: "byte list \<Rightarrow> int \<Rightarrow> int \<Rightarrow> int cpp" where
  "find_start tmp i write_index =
     (if i < write_index
      then bind_cpp (vector_at tmp i) (\<lambda>c.
             if c = PB_START then Inr i else find_start tmp (i + 1) write_index)
      else Inr (- 1))"
  by pat_completeness auto
termination
  by (relation "measure (\<lambda>(tmp, i, w). nat (w - i))") auto

declare find_start.simps [simp del]

text \<open>
  The locals \<open>parse_success\<close>, \<open>cursor\<close> and \<open>message\<close>, and the two shapes of a field read:
  \<open>if (parse_success && !canRead...) parse_success = false; else if (parse_success) {...}\<close>.
\<close>

record parse_state =
  ps_ok :: bool
  ps_cursor :: int
  ps_message :: tinypb

definition parse_int32 ::
  "byte list \<Rightarrow> int \<Rightarrow> (int32 \<Rightarrow> tinypb \<Rightarrow> tinypb) \<Rightarrow> parse_state \<Rightarrow> parse_state cpp" where
  "parse_int32 tmp limit store s =
     (if ps_ok s \<and> \<not> canReadInt32 (ps_cursor s) limit then Inr (s\<lparr>ps_ok := False\<rparr>)
      else if ps_ok s then
        bind_cpp (getInt32FromNetByte tmp (ps_cursor s)) (\<lambda>v.
          Inr (s\<lparr>ps_message := store v (ps_message s), ps_cursor := ps_cursor s + kInt32Size\<rparr>))
      else Inr s)"

definition parse_field ::
  "byte list \<Rightarrow> int \<Rightarrow> (tinypb \<Rightarrow> int32) \<Rightarrow> (string \<Rightarrow> tinypb \<Rightarrow> tinypb) \<Rightarrow> parse_state \<Rightarrow> parse_state cpp" where
  "parse_field tmp limit len store s =
     (let n = sint (len (ps_message s)) in
      if ps_ok s \<and> \<not> canReadField (ps_cursor s) n limit then Inr (s\<lparr>ps_ok := False\<rparr>)
      else if ps_ok s then
        bind_cpp (readStringField tmp (ps_cursor s) n) (\<lambda>v.
          Inr (s\<lparr>ps_message := store v (ps_message s), ps_cursor := ps_cursor s + n\<rparr>))
      else Inr s)"

text \<open>The body is what is left before the checksum.\<close>

definition parse_body :: "byte list \<Rightarrow> int \<Rightarrow> parse_state \<Rightarrow> parse_state cpp" where
  "parse_body tmp checksum_index s =
     (let pb_data_len = checksum_index - ps_cursor s in
      if ps_ok s \<and> pb_data_len < 0 then Inr (s\<lparr>ps_ok := False\<rparr>)
      else if ps_ok s then
        bind_cpp (readStringField tmp (ps_cursor s) pb_data_len) (\<lambda>v.
          Inr (s\<lparr>ps_message := (ps_message s)\<lparr>m_pb_data := v\<rparr>, ps_cursor := ps_cursor s + pb_data_len\<rparr>))
      else Inr s)"

definition parse_packet :: "byte list \<Rightarrow> int \<Rightarrow> int32 \<Rightarrow> parse_state cpp" where
  "parse_packet tmp start_index pk_len =
     (let end_flag_index = start_index + sint pk_len - 1;
          checksum_index = end_flag_index - kInt32Size;
          s = \<lparr>ps_ok = True, ps_cursor = start_index + 1 + kInt32Size,
               ps_message = newTinyPB\<lparr>m_pk_len := pk_len\<rparr>\<rparr>
      in
      bind_cpp (parse_int32 tmp checksum_index (\<lambda>v. m_msg_id_len_update (\<lambda>_. v)) s) (\<lambda>s.
      bind_cpp (parse_field tmp checksum_index m_msg_id_len (\<lambda>v. m_msg_id_update (\<lambda>_. v)) s) (\<lambda>s.
      bind_cpp (parse_int32 tmp checksum_index (\<lambda>v. m_method_name_len_update (\<lambda>_. v)) s) (\<lambda>s.
      bind_cpp (parse_field tmp checksum_index m_method_name_len (\<lambda>v. m_method_name_update (\<lambda>_. v)) s) (\<lambda>s.
      bind_cpp (parse_int32 tmp checksum_index (\<lambda>v. m_err_code_update (\<lambda>_. v)) s) (\<lambda>s.
      bind_cpp (parse_int32 tmp checksum_index (\<lambda>v. m_err_info_len_update (\<lambda>_. v)) s) (\<lambda>s.
      bind_cpp (parse_field tmp checksum_index m_err_info_len (\<lambda>v. m_err_info_update (\<lambda>_. v)) s) (\<lambda>s.
      bind_cpp (parse_body tmp checksum_index s) (\<lambda>s.
      bind_cpp (parse_int32 tmp end_flag_index (\<lambda>v. m_check_sum_update (\<lambda>_. v)) s) (\<lambda>s.
        Inr (s\<lparr>ps_message := (ps_message s)\<lparr>parse_success := ps_ok s\<rparr>\<rparr>)))))))))))"

text \<open>One iteration of the loop: it returns, goes on, or goes on with a message.\<close>

datatype decode_action = Return tcp_buffer | Continue tcp_buffer | PushBack tinypb tcp_buffer

definition decode_iteration :: "tcp_buffer \<Rightarrow> decode_action cpp" where
  "decode_iteration buffer =
     (let tmp = m_buffer buffer; read_index = readIndex buffer; write_index = writeIndex buffer in
      bind_cpp (find_start tmp read_index write_index) (\<lambda>start_index.
      if start_index < 0 then
        bind_cpp (moveReadIndexIfNeeded (readAble buffer) buffer) (\<lambda>b. Inr (Return b))
      else if read_index < start_index then
        bind_cpp (moveReadIndexIfNeeded (start_index - read_index) buffer) (\<lambda>b. Inr (Continue b))
      else if \<not> canReadInt32 (start_index + 1) write_index then Inr (Return buffer)
      else
      bind_cpp (getInt32FromNetByte tmp (start_index + 1)) (\<lambda>pk_len.
      if sint pk_len < MIN_PACKAGE_SIZE \<or> MAX_PACKAGE_SIZE < sint pk_len then
        bind_cpp (moveReadIndexIfNeeded 1 buffer) (\<lambda>b. Inr (Continue b))
      else if write_index < start_index + sint pk_len then Inr (Return buffer)
      else
      bind_cpp (vector_at tmp (start_index + sint pk_len - 1)) (\<lambda>flag.
      if flag \<noteq> PB_END then
        bind_cpp (moveReadIndexIfNeeded 1 buffer) (\<lambda>b. Inr (Continue b))
      else
      bind_cpp (parse_packet tmp start_index pk_len) (\<lambda>s.
      bind_cpp (moveReadIndexIfNeeded (sint pk_len) buffer) (\<lambda>b.
        Inr (if ps_ok s then PushBack (ps_message s) b else Continue b)))))))"


lemma adjustBuffer_readAble: "adjustBuffer b = Inr b' \<Longrightarrow> readAble b' = readAble b"
  by (auto simp: adjustBuffer_def bind_cpp_eq_Inr Let_def readAble_def split: if_splits)

lemma moveReadIndex_readAble:
  assumes "moveReadIndexIfNeeded n b = Inr b'" and "0 < n" and "n \<le> readAble b"
  shows "readAble b' = readAble b - n"
  using assms
  by (auto simp: moveReadIndexIfNeeded_def moveReadIndex_def bind_cpp_eq_Inr readAble_def
      split: if_splits dest!: adjustBuffer_readAble)

lemma find_start_bounds:
  "find_start tmp i w = Inr j \<Longrightarrow> 0 \<le> j \<Longrightarrow> i \<le> j \<and> j < w"
proof (induction tmp i w arbitrary: j rule: find_start.induct)
  case (1 tmp i w)
  then show ?case
    by (subst (asm) (2) find_start.simps) (fastforce simp: bind_cpp_eq_Inr split: if_splits)
qed

lemma decode_iteration_consumes:
  assumes "0 < readAble b"
    and "decode_iteration b = Inr (Continue b') \<or> decode_iteration b = Inr (PushBack m b')"
  shows "readAble b' < readAble b"
proof -
  obtain i where i: "find_start (m_buffer b) (readIndex b) (writeIndex b) = Inr i"
    using assms(2) by (auto simp: decode_iteration_def Let_def bind_cpp_eq_Inr)
  show ?thesis
    using assms find_start_bounds [OF i] i
    by (auto simp: decode_iteration_def Let_def bind_cpp_eq_Inr readIndex_def writeIndex_def readAble_def
          MIN_PACKAGE_SIZE_def split: if_splits
          dest!: moveReadIndex_readAble [unfolded readAble_def])
qed

text \<open>The loop \<open>while (buffer->readAble() > 0)\<close>; \<open>out_messages\<close> is the vector it appends to.\<close>

function decode :: "tinypb list \<Rightarrow> tcp_buffer \<Rightarrow> (tinypb list \<times> tcp_buffer) cpp" where
  "decode out_messages buffer =
     (if 0 < readAble buffer then
        (case decode_iteration buffer of
           Inl e \<Rightarrow> Inl e
         | Inr (Return b) \<Rightarrow> Inr (out_messages, b)
         | Inr (Continue b) \<Rightarrow> decode out_messages b
         | Inr (PushBack m b) \<Rightarrow> decode (out_messages @ [m]) b)
      else Inr (out_messages, buffer))"
  by pat_completeness auto
termination
  by (relation "measure (\<lambda>(out, b). nat (readAble b))")
    (auto dest: decode_iteration_consumes)

declare decode.simps [simp del]

section \<open>The string codec\<close>

definition encode_string :: "protocol list \<Rightarrow> tcp_buffer \<Rightarrow> tcp_buffer cpp" where
  "encode_string messages out_buffer =
     fold_cpp (\<lambda>p b. case p of
         StringP msg \<Rightarrow> writeToBuffer (sp_info msg) (int (length (sp_info msg))) b
       | TinyPB _ \<Rightarrow> Inl NullPointer) messages out_buffer"

definition decode_string ::
  "protocol list \<Rightarrow> tcp_buffer \<Rightarrow> (protocol list \<times> tcp_buffer) cpp" where
  "decode_string out_messages buffer =
     bind_cpp (readFromBuffer [] (readAble buffer) buffer) (\<lambda>(re, b).
       Inr (out_messages @ [StringP \<lparr>sp_msg_id = ''12345'', sp_info = re\<rparr>], b))"

end
