(* ===== verification/TinyPBSpec.thy ===== *)
theory TinyPBSpec
  imports TinyPBCoder
begin

text \<open>
  A reference decoder on byte lists, without indices, buffers or faults, and the proof that the
  indexed decoder of \<open>TinyPBCoder\<close> computes it on the readable bytes. The protocol properties
  (round trip, fragmentation, resynchronisation) are proved on the reference and transferred.
\<close>

section \<open>The reference decoder\<close>

text \<open>A field reader consumes a prefix of the bytes that are left and updates the message.\<close>

definition fetch_int32 ::
  "(int32 \<Rightarrow> tinypb \<Rightarrow> tinypb) \<Rightarrow> (tinypb \<times> byte list) option \<Rightarrow> (tinypb \<times> byte list) option" where
  "fetch_int32 store q =
     (case q of None \<Rightarrow> None
      | Some (m, bs) \<Rightarrow>
          if length bs < 4 then None
          else Some (store (int32_of_bytes (take 4 bs)) m, drop 4 bs))"

definition fetch_field ::
  "(tinypb \<Rightarrow> int32) \<Rightarrow> (string \<Rightarrow> tinypb \<Rightarrow> tinypb) \<Rightarrow> (tinypb \<times> byte list) option \<Rightarrow> (tinypb \<times> byte list) option" where
  "fetch_field len store q =
     (case q of None \<Rightarrow> None
      | Some (m, bs) \<Rightarrow>
          let n = sint (len m) in
          if n < 0 \<or> int (length bs) < n then None
          else Some (store (take (nat n) bs) m, drop (nat n) bs))"

definition fetch_head :: "tinypb \<times> byte list \<Rightarrow> (tinypb \<times> byte list) option" where
  "fetch_head p =
     fetch_field m_err_info_len (\<lambda>v. m_err_info_update (\<lambda>_. v))
       (fetch_int32 (\<lambda>v. m_err_info_len_update (\<lambda>_. v))
         (fetch_int32 (\<lambda>v. m_err_code_update (\<lambda>_. v))
           (fetch_field m_method_name_len (\<lambda>v. m_method_name_update (\<lambda>_. v))
             (fetch_int32 (\<lambda>v. m_method_name_len_update (\<lambda>_. v))
               (fetch_field m_msg_id_len (\<lambda>v. m_msg_id_update (\<lambda>_. v))
                 (fetch_int32 (\<lambda>v. m_msg_id_len_update (\<lambda>_. v)) (Some p)))))))"

text \<open>The fields lie between the five header bytes and the checksum and end flag.\<close>

definition parse_bytes :: "int32 \<Rightarrow> byte list \<Rightarrow> tinypb option" where
  "parse_bytes pk_len p =
     (case fetch_head (newTinyPB\<lparr>m_pk_len := pk_len\<rparr>, take (length p - 10) (drop 5 p)) of
        None \<Rightarrow> None
      | Some (m, bs) \<Rightarrow>
          Some (m\<lparr>m_pb_data := bs, m_check_sum := int32_of_bytes (take 4 (drop (length p - 5) p)),
                  parse_success := True\<rparr>))"

function decode_bytes :: "byte list \<Rightarrow> tinypb list \<times> byte list" where
  "decode_bytes bs =
     (let s = dropWhile (\<lambda>c. c \<noteq> PB_START) bs in
      if length s < 5 then ([], s)
      else
        let w = int32_of_bytes (take 4 (tl s)); n = nat (sint w) in
        if sint w < MIN_PACKAGE_SIZE \<or> MAX_PACKAGE_SIZE < sint w then decode_bytes (tl s)
        else if length s < n then ([], s)
        else if s ! (n - 1) \<noteq> PB_END then decode_bytes (tl s)
        else
          let (ms, r) = decode_bytes (drop n s) in
          (case parse_bytes w (take n s) of None \<Rightarrow> ms | Some m \<Rightarrow> m # ms, r))"
  by pat_completeness auto
termination
proof (relation "measure length", goal_cases)
  case (2 bs s w n)
  then show ?case
    using length_dropWhile_le [of "\<lambda>c. c \<noteq> PB_START" bs] by auto
next
  case (3 bs s w n)
  then show ?case
    using length_dropWhile_le [of "\<lambda>c. c \<noteq> PB_START" bs] by auto
next
  case (4 bs s w n)
  then show ?case
    using length_dropWhile_le [of "\<lambda>c. c \<noteq> PB_START" bs] by (auto simp: MIN_PACKAGE_SIZE_def)
qed simp

declare decode_bytes.simps [simp del]

section \<open>The indexed parser computes the reference\<close>

text \<open>
  A parser state stands for the reference's: failed on both sides, or the same message and, as
  the bytes left, the slice of the vector from the cursor to the limit.
\<close>

definition parse_rel :: "byte list \<Rightarrow> int \<Rightarrow> parse_state \<Rightarrow> (tinypb \<times> byte list) option \<Rightarrow> bool" where
  "parse_rel tmp limit s q \<longleftrightarrow>
     (case q of None \<Rightarrow> \<not> ps_ok s
      | Some (m, bs) \<Rightarrow> ps_ok s \<and> ps_message s = m \<and> 0 \<le> ps_cursor s \<and> ps_cursor s \<le> limit \<and>
          limit \<le> int (length tmp) \<and>
          bs = take (nat (limit - ps_cursor s)) (drop (nat (ps_cursor s)) tmp))"

lemma slice_advance:
  assumes "0 \<le> c" "0 \<le> n" "c + n \<le> l"
  shows "take (nat (l - (c + n))) (drop (nat (c + n)) tmp) = drop (nat n) (take (nat (l - c)) (drop (nat c) tmp))"
proof -
  have "nat (c + n) = nat n + nat c" and "nat (l - (c + n)) = nat (l - c) - nat n"
    using assms by auto
  then show ?thesis by (simp add: drop_take)
qed

lemma parse_int32_rel:
  assumes "parse_rel tmp limit s q"
  shows "\<exists>s'. parse_int32 tmp limit store s = Inr s' \<and> parse_rel tmp limit s' (fetch_int32 store q)"
proof (cases q)
  case None
  with assms show ?thesis by (simp add: parse_rel_def parse_int32_def fetch_int32_def)
next
  case (Some mb)
  obtain m bs where mb: "mb = (m, bs)" by (cases mb)
  let ?c = "ps_cursor s"
  have s: "ps_ok s" "ps_message s = m" "0 \<le> ?c" "?c \<le> limit" "limit \<le> int (length tmp)"
      "bs = take (nat (limit - ?c)) (drop (nat ?c) tmp)"
    using assms by (simp_all add: parse_rel_def Some mb)
  have len: "int (length bs) = limit - ?c"
    using s by auto
  show ?thesis
  proof (cases "canReadInt32 ?c limit")
    case True
    then have le: "?c + 4 \<le> limit" by (simp add: canReadInt32_def kInt32Size_def)
    then have "take 4 (drop (nat ?c) tmp) = take 4 bs"
      using s by simp
    then have "parse_int32 tmp limit store s =
        Inr (s\<lparr>ps_message := store (int32_of_bytes (take 4 bs)) m, ps_cursor := ?c + 4\<rparr>)"
      using True s le by (simp add: parse_int32_def getInt32FromNetByte_def kInt32Size_def)
    moreover have "\<not> length bs < 4" using len le by linarith
    ultimately show ?thesis
      using s le slice_advance [of ?c 4 limit tmp]
      by (simp add: fetch_int32_def Some mb parse_rel_def)
  next
    case False
    then have "length bs < 4"
      using s len by (simp add: canReadInt32_def kInt32Size_def)
    with False s show ?thesis
      by (simp add: parse_int32_def fetch_int32_def Some mb parse_rel_def)
  qed
qed

lemma parse_field_rel:
  assumes "parse_rel tmp limit s q"
  shows "\<exists>s'. parse_field tmp limit len store s = Inr s' \<and> parse_rel tmp limit s' (fetch_field len store q)"
proof (cases q)
  case None
  with assms show ?thesis by (simp add: parse_rel_def parse_field_def fetch_field_def Let_def)
next
  case (Some mb)
  obtain m bs where mb: "mb = (m, bs)" by (cases mb)
  let ?c = "ps_cursor s" and ?n = "sint (len m)"
  have s: "ps_ok s" "ps_message s = m" "0 \<le> ?c" "?c \<le> limit" "limit \<le> int (length tmp)"
      "bs = take (nat (limit - ?c)) (drop (nat ?c) tmp)"
    using assms by (simp_all add: parse_rel_def Some mb)
  have l: "int (length bs) = limit - ?c"
    using s by auto
  show ?thesis
  proof (cases "canReadField ?c ?n limit")
    case True
    then have le: "0 \<le> ?n" "?c + ?n \<le> limit" by (simp_all add: canReadField_def)
    then have "take (nat ?n) (drop (nat ?c) tmp) = take (nat ?n) bs"
      using s by simp
    then have "readStringField tmp ?c ?n = Inr (take (nat ?n) bs)"
      using s le by (simp add: readStringField_def)
    then have "parse_field tmp limit len store s =
        Inr (s\<lparr>ps_message := store (take (nat ?n) bs) m, ps_cursor := ?c + ?n\<rparr>)"
      using True s by (simp add: parse_field_def Let_def)
    moreover have "\<not> (?n < 0 \<or> int (length bs) < ?n)" using l le by linarith
    ultimately show ?thesis
      using s le slice_advance [of ?c ?n limit tmp]
      by (simp add: fetch_field_def Some mb parse_rel_def Let_def)
  next
    case False
    then have "?n < 0 \<or> int (length bs) < ?n"
      using s l by (auto simp: canReadField_def)
    with False s show ?thesis
      by (simp add: parse_field_def fetch_field_def Some mb parse_rel_def Let_def)
  qed
qed

text \<open>The last two reads: the body up to the checksum, then the checksum itself.\<close>

lemma parse_tail_rel:
  assumes "parse_rel tmp limit s q" and "limit + 4 \<le> int (length tmp)"
  shows "\<exists>s'. bind_cpp (parse_body tmp limit s)
                (parse_int32 tmp (limit + 4) (\<lambda>v. m_check_sum_update (\<lambda>_. v))) = Inr s' \<and>
           (case q of None \<Rightarrow> \<not> ps_ok s'
            | Some (m, bs) \<Rightarrow> ps_ok s' \<and> ps_message s' = m\<lparr>m_pb_data := bs,
                m_check_sum := int32_of_bytes (take 4 (drop (nat limit) tmp))\<rparr>)"
proof (cases q)
  case None
  with assms show ?thesis by (simp add: parse_rel_def parse_body_def parse_int32_def Let_def)
next
  case (Some mb)
  obtain m bs where mb: "mb = (m, bs)" by (cases mb)
  let ?c = "ps_cursor s"
  have s: "ps_ok s" "ps_message s = m" "0 \<le> ?c" "?c \<le> limit"
      "bs = take (nat (limit - ?c)) (drop (nat ?c) tmp)"
    using assms by (simp_all add: parse_rel_def Some mb)
  then have "readStringField tmp ?c (limit - ?c) = Inr bs"
    using assms(2) by (auto simp: readStringField_def)
  then show ?thesis
    using s assms(2)
    by (simp add: parse_body_def parse_int32_def canReadInt32_def kInt32Size_def
        getInt32FromNetByte_def Some mb Let_def)
qed

text \<open>A parser stage simulates a reference stage; simulations compose along the binds.\<close>

definition simulates ::
  "byte list \<Rightarrow> int \<Rightarrow> (parse_state \<Rightarrow> parse_state cpp) \<Rightarrow>
     ((tinypb \<times> byte list) option \<Rightarrow> (tinypb \<times> byte list) option) \<Rightarrow> bool" where
  "simulates tmp limit f g \<longleftrightarrow>
     (\<forall>s q. parse_rel tmp limit s q \<longrightarrow> (\<exists>s'. f s = Inr s' \<and> parse_rel tmp limit s' (g q)))"

lemma simulates_int32: "simulates tmp limit (parse_int32 tmp limit store) (fetch_int32 store)"
  by (simp add: simulates_def parse_int32_rel)

lemma simulates_field: "simulates tmp limit (parse_field tmp limit len store) (fetch_field len store)"
  by (simp add: simulates_def parse_field_rel)

lemma simulates_bind:
  assumes "simulates tmp limit f g" and "simulates tmp limit f' g'"
  shows "simulates tmp limit (\<lambda>s. bind_cpp (f s) f') (\<lambda>q. g' (g q))"
  using assms unfolding simulates_def by (metis bind_cpp_Inr)

definition parse_head :: "byte list \<Rightarrow> int \<Rightarrow> parse_state \<Rightarrow> parse_state cpp" where
  "parse_head tmp limit s =
     bind_cpp (parse_int32 tmp limit (\<lambda>v. m_msg_id_len_update (\<lambda>_. v)) s) (\<lambda>s.
     bind_cpp (parse_field tmp limit m_msg_id_len (\<lambda>v. m_msg_id_update (\<lambda>_. v)) s) (\<lambda>s.
     bind_cpp (parse_int32 tmp limit (\<lambda>v. m_method_name_len_update (\<lambda>_. v)) s) (\<lambda>s.
     bind_cpp (parse_field tmp limit m_method_name_len (\<lambda>v. m_method_name_update (\<lambda>_. v)) s) (\<lambda>s.
     bind_cpp (parse_int32 tmp limit (\<lambda>v. m_err_code_update (\<lambda>_. v)) s) (\<lambda>s.
     bind_cpp (parse_int32 tmp limit (\<lambda>v. m_err_info_len_update (\<lambda>_. v)) s) (\<lambda>s.
       parse_field tmp limit m_err_info_len (\<lambda>v. m_err_info_update (\<lambda>_. v)) s))))))"

lemma simulates_head:
  "simulates tmp limit (parse_head tmp limit) (\<lambda>q. Option.bind q fetch_head)"
proof -
  have "simulates tmp limit (parse_head tmp limit) (\<lambda>q.
      fetch_field m_err_info_len (\<lambda>v. m_err_info_update (\<lambda>_. v))
       (fetch_int32 (\<lambda>v. m_err_info_len_update (\<lambda>_. v))
         (fetch_int32 (\<lambda>v. m_err_code_update (\<lambda>_. v))
           (fetch_field m_method_name_len (\<lambda>v. m_method_name_update (\<lambda>_. v))
             (fetch_int32 (\<lambda>v. m_method_name_len_update (\<lambda>_. v))
               (fetch_field m_msg_id_len (\<lambda>v. m_msg_id_update (\<lambda>_. v))
                 (fetch_int32 (\<lambda>v. m_msg_id_len_update (\<lambda>_. v)) q)))))))" (is "simulates _ _ _ ?ref")
    unfolding parse_head_def
    by (intro simulates_bind simulates_int32 simulates_field)
  moreover have "?ref = (\<lambda>q. Option.bind q fetch_head)"
    by (auto simp: fun_eq_iff fetch_head_def fetch_int32_def fetch_field_def split: Option.bind_split)
  ultimately show ?thesis by simp
qed

lemma parse_packet_split:
  "parse_packet tmp i w =
     bind_cpp (parse_head tmp (i + sint w - 5)
       \<lparr>ps_ok = True, ps_cursor = i + 5, ps_message = newTinyPB\<lparr>m_pk_len := w\<rparr>\<rparr>) (\<lambda>s.
     bind_cpp (bind_cpp (parse_body tmp (i + sint w - 5) s)
       (parse_int32 tmp (i + sint w - 5 + 4) (\<lambda>v. m_check_sum_update (\<lambda>_. v)))) (\<lambda>s.
     Inr (s\<lparr>ps_message := (ps_message s)\<lparr>parse_success := ps_ok s\<rparr>\<rparr>)))"
  by (simp add: parse_packet_def parse_head_def bind_cpp_assoc kInt32Size_def add.assoc Let_def)

lemma parse_packet_rel:
  assumes "0 \<le> i" and "MIN_PACKAGE_SIZE \<le> sint w" and "i + sint w \<le> int (length tmp)"
    and p: "p = take (nat (sint w)) (drop (nat i) tmp)"
  shows "\<exists>s. parse_packet tmp i w = Inr s \<and>
           (case parse_bytes w p of None \<Rightarrow> \<not> ps_ok s | Some m \<Rightarrow> ps_ok s \<and> ps_message s = m)"
proof -
  define k n where "k = nat i" and "n = nat (sint w)"
  define limit where "limit = i + sint w - 5"
  define bs where "bs = take (length p - 10) (drop 5 p)"
  have n: "i = int k" "sint w = int n" "26 \<le> n" "k + n \<le> length tmp"
    using assms by (auto simp: k_def n_def MIN_PACKAGE_SIZE_def)
  have lim: "nat limit = k + n - 5" "nat (limit - (i + 5)) = n - 10" "nat (i + 5) = k + 5"
      "0 \<le> i + 5" "i + 5 \<le> limit" "limit + 4 \<le> int (length tmp)"
    using n by (auto simp: limit_def)
  have lp: "length p = n" "p = take n (drop k tmp)"
    using n p by auto
  have "parse_rel tmp limit \<lparr>ps_ok = True, ps_cursor = i + 5, ps_message = newTinyPB\<lparr>m_pk_len := w\<rparr>\<rparr>
      (Some (newTinyPB\<lparr>m_pk_len := w\<rparr>, bs))"
    using lim n lp by (simp add: parse_rel_def bs_def drop_take min_absorb1 add.commute)
  then obtain s where s: "parse_head tmp limit
      \<lparr>ps_ok = True, ps_cursor = i + 5, ps_message = newTinyPB\<lparr>m_pk_len := w\<rparr>\<rparr> = Inr s"
      "parse_rel tmp limit s (fetch_head (newTinyPB\<lparr>m_pk_len := w\<rparr>, bs))"
    using simulates_head [of tmp limit] by (fastforce simp: simulates_def)
  have "take 4 (drop (nat limit) tmp) = take 4 (drop (length p - 5) p)"
    using n lim lp by (simp add: drop_take min_absorb1 add.commute)
  then show ?thesis
    using parse_tail_rel [OF s(2) lim(6)] s(1)
    by (fastforce simp: parse_packet_split limit_def [symmetric] parse_bytes_def bs_def [symmetric]
        split: option.splits)
qed

section \<open>The loop computes the reference\<close>

abbreviation not_start :: "byte \<Rightarrow> bool" where
  "not_start c \<equiv> c \<noteq> PB_START"

lemma find_start_eq:
  "0 \<le> i \<Longrightarrow> i \<le> w \<Longrightarrow> w \<le> int (length tmp) \<Longrightarrow>
     find_start tmp i w =
       Inr (let xs = take (nat (w - i)) (drop (nat i) tmp) in
            if PB_START \<in> set xs then i + int (length (takeWhile not_start xs)) else - 1)"
proof (induction tmp i w rule: find_start.induct)
  case (1 tmp i w)
  show ?case
  proof (cases "i < w")
    case False
    with "1.prems" show ?thesis by (subst find_start.simps) simp
  next
    case True
    have "nat (w - i) = Suc (nat (w - (i + 1)))" "nat (i + 1) = Suc (nat i)"
      using "1.prems" True by auto
    then have xs: "take (nat (w - i)) (drop (nat i) tmp) =
        tmp ! nat i # take (nat (w - (i + 1))) (drop (nat (i + 1)) tmp)"
      using "1.prems" True by (simp add: Cons_nth_drop_Suc [symmetric])
    have "vector_at tmp i = Inr (tmp ! nat i)"
      using "1.prems" True by (simp add: vector_at_def)
    then show ?thesis
      using "1.IH" [of "tmp ! nat i"] "1.prems" True xs
      by (auto simp: find_start.simps [of tmp i w] Let_def)
  qed
qed

lemma find_start_contents:
  assumes "buffer_ok b"
  shows "find_start (m_buffer b) (readIndex b) (writeIndex b) =
     Inr (if PB_START \<in> set (contents b)
          then readIndex b + int (length (takeWhile not_start (contents b))) else - 1)"
  using assms find_start_eq [of "m_read_index b" "m_write_index b" "m_buffer b"]
  by (simp add: buffer_ok_def readIndex_def writeIndex_def contents_def readAble_def Let_def)

lemma decode_bytes_skip: "decode_bytes (dropWhile not_start bs) = decode_bytes bs"
  by (simp add: decode_bytes.simps [of bs] decode_bytes.simps [of "dropWhile not_start bs"])

lemma decode_bytes_no_start: "PB_START \<notin> set bs \<Longrightarrow> decode_bytes bs = ([], [])"
proof -
  assume "PB_START \<notin> set bs"
  then have "dropWhile not_start bs = []" by auto
  then show "decode_bytes bs = ([], [])"
    by (subst decode_bytes.simps) (simp only: Let_def list.size zero_less_numeral if_True)
qed

text \<open>One unfolding at a start flag.\<close>

lemma decode_bytes_at_start:
  assumes "bs = PB_START # bs'"
  shows "decode_bytes bs =
     (if length bs < 5 then ([], bs)
      else
        let w = int32_of_bytes (take 4 bs'); n = nat (sint w) in
        if sint w < MIN_PACKAGE_SIZE \<or> MAX_PACKAGE_SIZE < sint w then decode_bytes bs'
        else if length bs < n then ([], bs)
        else if bs ! (n - 1) \<noteq> PB_END then decode_bytes bs'
        else
          let (ms, r) = decode_bytes (drop n bs) in
          (case parse_bytes w (take n bs) of None \<Rightarrow> ms | Some m \<Rightarrow> m # ms, r))"
  using decode_bytes.simps [of bs] assms by (simp add: Let_def)

definition action_ok :: "byte list \<Rightarrow> decode_action \<Rightarrow> bool" where
  "action_ok bs act \<longleftrightarrow>
     (case act of
        Return b \<Rightarrow> buffer_ok b \<and> decode_bytes bs = ([], contents b)
      | Continue b \<Rightarrow> buffer_ok b \<and> decode_bytes bs = decode_bytes (contents b)
      | PushBack m b \<Rightarrow> buffer_ok b \<and>
          decode_bytes bs = (m # fst (decode_bytes (contents b)), snd (decode_bytes (contents b))))"

lemma moveReadIndexIfNeeded_ok:
  assumes "buffer_ok b" and "n \<le> readAble b"
  shows "\<exists>b'. moveReadIndexIfNeeded n b = Inr b' \<and> buffer_ok b' \<and> contents b' = drop (nat n) (contents b)"
  using assms moveReadIndex_ok [of b n] by (cases "0 < n") (auto simp: moveReadIndexIfNeeded_def)

lemma decode_iteration_search:
  assumes b: "buffer_ok b" and pos: "0 < readAble b" and hd: "hd (contents b) \<noteq> PB_START"
  shows "\<exists>act. decode_iteration b = Inr act \<and> action_ok (contents b) act"
proof (cases "PB_START \<in> set (contents b)")
  case False
  obtain b' where "moveReadIndexIfNeeded (readAble b) b = Inr b'" "buffer_ok b'" "contents b' = []"
    using moveReadIndexIfNeeded_ok [OF b, of "readAble b"] b by auto
  then show ?thesis
    using False by (simp add: decode_iteration_def find_start_contents [OF b] action_ok_def
        decode_bytes_no_start Let_def)
next
  case True
  define k where "k = length (takeWhile not_start (contents b))"
  have ne: "contents b \<noteq> []" using True by auto
  then have k: "0 < k" using hd by (cases "contents b") (auto simp: k_def)
  have "k \<le> length (contents b)" by (simp add: k_def length_takeWhile_le)
  then have kr: "int k \<le> readAble b"
    using b readAble_nonneg [OF b] by (simp add: le_nat_iff)
  obtain b' where b': "moveReadIndexIfNeeded (int k) b = Inr b'" "buffer_ok b'"
      "contents b' = drop k (contents b)"
    using moveReadIndexIfNeeded_ok [OF b kr] by auto
  have "contents b' = dropWhile not_start (contents b)"
    using b'(3) by (simp add: k_def dropWhile_eq_drop)
  moreover have "0 \<le> readIndex b"
    using b by (simp add: buffer_ok_def readIndex_def)
  ultimately show ?thesis
    using True k b' by (simp add: decode_iteration_def find_start_contents [OF b] action_ok_def
        decode_bytes_skip k_def [symmetric] Let_def)
qed


text \<open>At a start flag with a complete header the iteration is decided by the package length.\<close>

lemma at_start_indices:
  assumes "buffer_ok b"
  shows "0 \<le> readIndex b" and "writeIndex b = readIndex b + int (length (contents b))"
    and "readIndex b = m_read_index b" and "writeIndex b \<le> int (length (m_buffer b))"
  using assms readAble_contents [OF assms]
  by (auto simp: buffer_ok_def readIndex_def writeIndex_def readAble_def)

lemma decode_iteration_header:
  assumes b: "buffer_ok b" and c: "contents b = PB_START # bs'" and long: "5 \<le> length (contents b)"
    and w: "w = int32_of_bytes (take 4 bs')" and b1: "moveReadIndexIfNeeded 1 b = Inr b1"
  shows "decode_iteration b =
     (if sint w < MIN_PACKAGE_SIZE \<or> MAX_PACKAGE_SIZE < sint w then Inr (Continue b1)
      else if writeIndex b < readIndex b + sint w then Inr (Return b)
      else bind_cpp (vector_at (m_buffer b) (readIndex b + sint w - 1)) (\<lambda>flag.
        if flag \<noteq> PB_END then Inr (Continue b1)
        else bind_cpp (parse_packet (m_buffer b) (readIndex b) w) (\<lambda>s.
          bind_cpp (moveReadIndexIfNeeded (sint w) b) (\<lambda>b.
            Inr (if ps_ok s then PushBack (ps_message s) b else Continue b)))))"
proof -
  note r = at_start_indices [OF b]
  have start: "find_start (m_buffer b) (readIndex b) (writeIndex b) = Inr (readIndex b)"
    using find_start_contents [OF b] c by simp
  have can: "canReadInt32 (readIndex b + 1) (writeIndex b)"
    using r long by (auto simp: canReadInt32_def kInt32Size_def)
  have slice: "take 4 (drop (nat (readIndex b + 1)) (m_buffer b)) = take 4 bs'"
    using contents_slice [OF b, of 1 4] readAble_contents [OF b] long c r(3) by simp
  have "getInt32FromNetByte (m_buffer b) (readIndex b + 1) = Inr w"
    using long r slice w by (simp add: getInt32FromNetByte_def)
  with start can long r(1) b1 show ?thesis
    by (simp add: decode_iteration_def Let_def cong: if_cong)
qed

text \<open>A packet that is completely there is parsed as the reference parses it.\<close>

lemma whole_packet:
  assumes b: "buffer_ok b" and n: "sint w = int n" "26 \<le> n" "n \<le> length (contents b)"
  shows "vector_at (m_buffer b) (readIndex b + sint w - 1) = Inr (contents b ! (n - 1))"
    and "\<exists>s. parse_packet (m_buffer b) (readIndex b) w = Inr s \<and>
           (case parse_bytes w (take n (contents b)) of None \<Rightarrow> \<not> ps_ok s
            | Some m \<Rightarrow> ps_ok s \<and> ps_message s = m)"
    and "\<exists>b'. moveReadIndexIfNeeded (sint w) b = Inr b' \<and> buffer_ok b' \<and> contents b' = drop n (contents b)"
proof -
  note r = at_start_indices [OF b]
  have "m_buffer b ! nat (readIndex b + (int n - 1)) = contents b ! nat (int n - 1)"
    using contents_nth [OF b, of "int n - 1"] n r(3) readAble_contents [OF b] by simp
  then show "vector_at (m_buffer b) (readIndex b + sint w - 1) = Inr (contents b ! (n - 1))"
    using n r by (simp add: vector_at_def nat_diff_distrib algebra_simps)
  have "take n (drop (nat (readIndex b)) (m_buffer b)) = take n (contents b)"
    using contents_slice [OF b, of 0 "int n"] readAble_contents [OF b] n r(3) by simp
  then show "\<exists>s. parse_packet (m_buffer b) (readIndex b) w = Inr s \<and>
      (case parse_bytes w (take n (contents b)) of None \<Rightarrow> \<not> ps_ok s
       | Some m \<Rightarrow> ps_ok s \<and> ps_message s = m)"
    using parse_packet_rel [of "readIndex b" w "m_buffer b" "take n (contents b)"] n r
    by (auto simp: MIN_PACKAGE_SIZE_def)
  show "\<exists>b'. moveReadIndexIfNeeded (sint w) b = Inr b' \<and> buffer_ok b' \<and> contents b' = drop n (contents b)"
    using moveReadIndexIfNeeded_ok [OF b, of "sint w"] readAble_contents [OF b] n by auto
qed

lemma decode_iteration_at_start:
  assumes b: "buffer_ok b" and c: "contents b = PB_START # bs'"
  shows "\<exists>act. decode_iteration b = Inr act \<and> action_ok (contents b) act"
proof (cases "length (contents b) < 5")
  case True
  then have "\<not> canReadInt32 (readIndex b + 1) (writeIndex b)"
    using at_start_indices [OF b] by (auto simp: canReadInt32_def kInt32Size_def)
  with True show ?thesis
    using b c at_start_indices(1) [OF b] decode_bytes_at_start [OF c]
    by (simp add: decode_iteration_def find_start_contents Let_def action_ok_def)
next
  case long: False
  define w n where "w = int32_of_bytes (take 4 bs')" and "n = nat (sint w)"
  obtain b1 where b1: "moveReadIndexIfNeeded 1 b = Inr b1" "buffer_ok b1" "contents b1 = bs'"
    using moveReadIndexIfNeeded_ok [OF b, of 1] readAble_contents [OF b] c by auto
  note head = decode_iteration_header [OF b c _ w_def b1(1)]
  note ref = decode_bytes_at_start [OF c, folded w_def, unfolded Let_def, folded n_def]
  show ?thesis
  proof (cases "sint w < MIN_PACKAGE_SIZE \<or> MAX_PACKAGE_SIZE < sint w \<or> length (contents b) < n")
    case True
    moreover have "writeIndex b < readIndex b + sint w \<longleftrightarrow> length (contents b) < n"
      using at_start_indices [OF b] by (auto simp: n_def)
    ultimately show ?thesis
      using b b1 long ref by (auto simp: head action_ok_def)
  next
    case False
    then have n: "sint w = int n" "26 \<le> n" "n \<le> length (contents b)"
      "\<not> writeIndex b < readIndex b + sint w"
      using at_start_indices [OF b] by (auto simp: n_def MIN_PACKAGE_SIZE_def)
    obtain s b2 where s: "parse_packet (m_buffer b) (readIndex b) w = Inr s"
        "case parse_bytes w (take n (contents b)) of None \<Rightarrow> \<not> ps_ok s
         | Some m \<Rightarrow> ps_ok s \<and> ps_message s = m"
      and b2: "moveReadIndexIfNeeded (sint w) b = Inr b2" "buffer_ok b2" "contents b2 = drop n (contents b)"
      using whole_packet(2,3) [OF b n(1-3)] by blast
    have it: "decode_iteration b =
        Inr (if contents b ! (n - 1) \<noteq> PB_END then Continue b1
             else if ps_ok s then PushBack (ps_message s) b2 else Continue b2)"
      using False n(4) long s(1) b2(1) whole_packet(1) [OF b n(1-3)] by (simp add: head)
    have "decode_bytes (contents b) =
        (if contents b ! (n - 1) \<noteq> PB_END then decode_bytes bs'
         else (case parse_bytes w (take n (contents b)) of None \<Rightarrow> fst (decode_bytes (drop n (contents b)))
               | Some m \<Rightarrow> m # fst (decode_bytes (drop n (contents b))), snd (decode_bytes (drop n (contents b)))))"
      using False long by (simp add: ref split_beta)
    then show ?thesis
      using it b1 b2 s(2) by (simp add: action_ok_def split: option.splits)
  qed
qed

lemma decode_iteration_ok:
  assumes "buffer_ok b" and "0 < readAble b"
  shows "\<exists>act. decode_iteration b = Inr act \<and> action_ok (contents b) act"
proof (cases "contents b")
  case Nil
  then show ?thesis using assms by (simp add: contents_empty)
next
  case (Cons x xs)
  then show ?thesis
    using assms decode_iteration_search [of b] decode_iteration_at_start [of b xs]
    by (cases "x = PB_START") auto
qed

text \<open>The refinement: the decoder on a buffer is the reference on its readable bytes.\<close>

lemma decode_refines:
  "buffer_ok b \<Longrightarrow>
     \<exists>b'. decode out b = Inr (out @ fst (decode_bytes (contents b)), b') \<and> buffer_ok b' \<and>
       contents b' = snd (decode_bytes (contents b))"
proof (induction out b rule: decode.induct)
  case (1 out b)
  show ?case
  proof (cases "0 < readAble b")
    case False
    then have "contents b = []"
      using "1.prems" readAble_nonneg [of b] by (simp add: contents_empty)
    with False "1.prems" show ?thesis
      by (simp add: decode.simps [of out b] decode_bytes_no_start)
  next
    case True
    then obtain act where act: "decode_iteration b = Inr act" "action_ok (contents b) act"
      using decode_iteration_ok "1.prems" by blast
    show ?thesis
    proof (cases act)
      case (Return b')
      with act True show ?thesis by (simp add: decode.simps [of out b] action_ok_def)
    next
      case (Continue b')
      with act True "1.IH"(1) [of act b'] show ?thesis
        by (simp add: decode.simps [of out b] action_ok_def)
    next
      case (PushBack m b')
      with act True "1.IH"(2) [of act m b'] show ?thesis
        by (simp add: decode.simps [of out b] action_ok_def)
    qed
  qed
qed

end
