(* ===== verification/TinyPBProps.thy ===== *)
theory TinyPBProps
  imports TinyPBSpec "HOL-Library.Sublist"
begin

text \<open>
  The guarantees of the TinyPB codec: encoding and decoding are inverse, packets glued together
  or cut in pieces by TCP decode to the same messages, an incomplete packet waits untouched,
  refused messages leave no bytes, and everything decoded is consistent with its length fields.
\<close>

section \<open>Integers on the wire\<close>

lemma length_putInt32 [simp]: "length (putInt32 v) = 4"
  by (simp add: putInt32_def)

lemma bytes_of_nat:
  assumes "n < 2 ^ 32"
  shows "256 * (256 * (256 * (n div 2 ^ 24 mod 256) + n div 2 ^ 16 mod 256) + n div 2 ^ 8 mod 256) + n mod 256 = (n::nat)"
proof -
  have d: "n div 2 ^ 16 = n div 256 div 256" "n div 2 ^ 24 = n div 256 div 256 div 256" "n div 2 ^ 8 = n div 256"
    by (simp_all add: div_mult2_eq [symmetric])
  have "n div 256 div 256 div 256 < 256"
    using assms by (simp add: div_mult2_eq [symmetric] less_mult_imp_div_less)
  then show ?thesis
    unfolding d by (simp add: mult_div_mod_eq)
qed

lemma int32_of_bytes_putInt32 [simp]: "int32_of_bytes (putInt32 v) = v"
proof -
  have "unat v < 2 ^ 32"
    using unsigned_less [of v] by simp
  then show ?thesis
    using bytes_of_nat [of "unat v"] by (simp add: int32_of_bytes_def putInt32_def)
qed

lemma sint_small: "n < 2 ^ 31 \<Longrightarrow> sint (word_of_nat n :: int32) = int n"
  by (simp add: signed_of_nat signed_take_bit_int_eq_self)

section \<open>Encoding produces one well-formed packet\<close>

definition with_msg_id :: "tinypb \<Rightarrow> tinypb" where
  "with_msg_id m = (if m_msg_id m = [] then m\<lparr>m_msg_id := ''123456789''\<rparr> else m)"

definition payload_length :: "tinypb \<Rightarrow> nat" where
  "payload_length m = length (m_msg_id m) + length (m_method_name m) + length (m_err_info m) +
     length (m_pb_data m)"

text \<open>A message the encoder accepts.\<close>

definition encodable :: "tinypb \<Rightarrow> bool" where
  "encodable m \<longleftrightarrow> MIN_PACKAGE_SIZE + int (payload_length (with_msg_id m)) \<le> MAX_PACKAGE_SIZE"

definition packet_body :: "tinypb \<Rightarrow> byte list" where
  "packet_body m =
     putInt32 (word_of_nat (length (m_msg_id m))) @ m_msg_id m @
     putInt32 (word_of_nat (length (m_method_name m))) @ m_method_name m @
     putInt32 (m_err_code m) @
     putInt32 (word_of_nat (length (m_err_info m))) @ m_err_info m @ m_pb_data m"

definition packet :: "tinypb \<Rightarrow> byte list" where
  "packet m = PB_START # putInt32 (word_of_nat (26 + payload_length m)) @ packet_body m @ putInt32 1 @ [PB_END]"

definition stamped :: "tinypb \<Rightarrow> tinypb" where
  "stamped m = m\<lparr>m_pk_len := word_of_nat (26 + payload_length m),
     m_msg_id_len := word_of_nat (length (m_msg_id m)),
     m_method_name_len := word_of_nat (length (m_method_name m)),
     m_err_info_len := word_of_nat (length (m_err_info m)),
     m_check_sum := 1, parse_success := True\<rparr>"

lemma encodeTinyPB_encodable:
  assumes "encodable m"
  shows "encodeTinyPB m = (Some (packet (with_msg_id m)), stamped (with_msg_id m))"
proof -
  define m1 where "m1 = with_msg_id m"
  have "MIN_PACKAGE_SIZE + int (length (m_msg_id m1)) + int (length (m_method_name m1)) +
      int (length (m_err_info m1)) + int (length (m_pb_data m1)) = int (26 + payload_length m1)"
    by (simp add: MIN_PACKAGE_SIZE_def payload_length_def)
  moreover have "\<not> MAX_PACKAGE_SIZE < int (26 + payload_length m1)"
    using assms by (simp add: encodable_def MIN_PACKAGE_SIZE_def m1_def)
  ultimately show ?thesis
    unfolding encodeTinyPB_def with_msg_id_def [symmetric] m1_def [symmetric] Let_def
    by (simp add: packet_def packet_body_def stamped_def del: of_nat_add)
qed

lemma encodeTinyPB_refused:
  assumes "\<not> encodable m"
  shows "encodeTinyPB m = (None, with_msg_id m)"
  using assms unfolding encodeTinyPB_def with_msg_id_def [symmetric] Let_def
  by (simp add: encodable_def payload_length_def add.assoc)

lemma length_packet_body [simp]: "length (packet_body m) = 16 + payload_length m"
  by (simp add: packet_body_def payload_length_def)

lemma length_packet [simp]: "length (packet m) = 26 + payload_length m"
  by (simp add: packet_def)

section \<open>A packet parses to the stamped message\<close>

lemma fetch_int32_put:
  "fetch_int32 store (Some (m, putInt32 v @ bs)) = Some (store v m, bs)"
  by (simp add: fetch_int32_def)

lemma fetch_field_put:
  "sint (len m) = int (length xs) \<Longrightarrow> fetch_field len store (Some (m, xs @ bs)) = Some (store xs m, bs)"
  by (simp add: fetch_field_def)

lemma small_payload:
  assumes "encodable m"
  shows "26 + payload_length (with_msg_id m) < 2 ^ 31"
  using assms by (simp add: encodable_def MIN_PACKAGE_SIZE_def MAX_PACKAGE_SIZE_def)

lemma parse_packet_bytes:
  assumes "26 + payload_length m < 2 ^ 31"
  shows "parse_bytes (word_of_nat (26 + payload_length m)) (packet m) = Some (stamped m)"
proof -
  define hd where "hd = PB_START # putInt32 (word_of_nat (26 + payload_length m))"
  have split: "packet m = (hd @ packet_body m) @ putInt32 1 @ [PB_END]"
    and len: "length (packet m) - 5 = length (hd @ packet_body m)" "length hd = 5"
      "length (packet m) - 10 = length (packet_body m)"
    by (simp_all add: packet_def hd_def)
  have body: "take (length (packet m) - 10) (drop 5 (packet m)) = packet_body m"
    using len(2,3) by (simp add: split)
  have check: "take 4 (drop (length (packet m) - 5) (packet m)) = putInt32 1"
    unfolding len(1) by (simp add: split)
  have l: "sint (word_of_nat (length (m_msg_id m)) :: int32) = int (length (m_msg_id m))"
      "sint (word_of_nat (length (m_method_name m)) :: int32) = int (length (m_method_name m))"
      "sint (word_of_nat (length (m_err_info m)) :: int32) = int (length (m_err_info m))"
    using assms by (auto intro!: sint_small simp: payload_length_def)
  show ?thesis
    unfolding parse_bytes_def body check
    by (simp add: packet_body_def fetch_head_def fetch_int32_put fetch_field_put l stamped_def newTinyPB_def)
qed

lemma decode_packet:
  assumes "encodable m"
  shows "decode_bytes (packet (with_msg_id m) @ rest) =
     (stamped (with_msg_id m) # fst (decode_bytes rest), snd (decode_bytes rest))"
proof -
  define m1 n where "m1 = with_msg_id m" and "n = 26 + payload_length m1"
  define bs' where "bs' = putInt32 (word_of_nat n) @ packet_body m1 @ putInt32 1 @ [PB_END] @ rest"
  have c: "packet m1 @ rest = PB_START # bs'"
    by (simp add: packet_def bs'_def n_def)
  have n: "sint (word_of_nat n :: int32) = int n" "int n \<le> MAX_PACKAGE_SIZE" "MIN_PACKAGE_SIZE \<le> int n"
    using assms sint_small [of n] small_payload [OF assms]
    by (simp_all add: n_def m1_def encodable_def MIN_PACKAGE_SIZE_def del: of_nat_add)
  have w: "int32_of_bytes (take 4 bs') = word_of_nat n"
    by (simp add: bs'_def)
  have last: "(packet m1 @ rest) ! (n - 1) = PB_END"
    unfolding packet_def by (simp add: nth_append n_def nth_Cons')
  have pk: "take n (packet m1 @ rest) = packet m1" "drop n (packet m1 @ rest) = rest"
    by (simp_all add: n_def)
  have parse: "parse_bytes (word_of_nat n) (packet m1) = Some (stamped m1)"
    using parse_packet_bytes [of m1] small_payload [OF assms] by (simp add: n_def m1_def)
  have "\<not> length (packet m1 @ rest) < 5" "\<not> length (packet m1 @ rest) < n"
    by (simp_all add: n_def)
  then show ?thesis
    using decode_bytes_at_start [OF c] n
    unfolding w Let_def m1_def [symmetric] n(1) nat_int last pk parse
    by (simp add: split_beta)
qed

section \<open>Fragmentation\<close>

definition decode_then :: "byte list \<Rightarrow> tinypb list \<times> byte list \<Rightarrow> tinypb list \<times> byte list" where
  "decode_then ys d = (fst d @ fst (decode_bytes (snd d @ ys)), snd (decode_bytes (snd d @ ys)))"

lemma decode_then_simps [simp]:
  "decode_then ys ([], r) = decode_bytes (r @ ys)"
  "decode_then ys (m # ms, r) = (m # fst (decode_then ys (ms, r)), snd (decode_then ys (ms, r)))"
  by (simp_all add: decode_then_def)

lemma decode_bytes_append_skip:
  "PB_START \<notin> set xs \<Longrightarrow> decode_bytes (xs @ ys) = decode_bytes ys"
  by (metis (mono_tags, lifting) decode_bytes_skip dropWhile_append2)

lemma dropWhile_append_found:
  "dropWhile not_start xs = PB_START # s' \<Longrightarrow> decode_bytes (xs @ ys) = decode_bytes (PB_START # s' @ ys)"
proof -
  assume s: "dropWhile not_start xs = PB_START # s'"
  then have "PB_START \<in> set xs"
    by (metis list.set_intros(1) set_dropWhileD)
  then have "dropWhile not_start (xs @ ys) = PB_START # s' @ ys"
    using s by (simp add: dropWhile_append1)
  then show ?thesis
    by (metis decode_bytes_skip)
qed

text \<open>Whatever is decided about a prefix of the stream stays decided when more bytes arrive.\<close>

lemma decode_bytes_append: "decode_bytes (xs @ ys) = decode_then ys (decode_bytes xs)"
proof (induction xs rule: decode_bytes.induct)
  case (1 xs)
  show ?case
  proof (cases "dropWhile not_start xs")
    case Nil
    then have "PB_START \<notin> set xs" by auto
    then show ?thesis by (simp add: decode_bytes_append_skip decode_bytes_no_start)
  next
    case (Cons c s')
    then have c: "c = PB_START"
      by (metis (full_types) hd_dropWhile list.sel(1) list.distinct(1))
    define s w n where "s = PB_START # s'" and "w = int32_of_bytes (take 4 s')" and "n = nat (sint w)"
    have dw: "dropWhile not_start xs = s" using Cons c by (simp add: s_def)
    have whole: "decode_bytes (xs @ ys) = decode_bytes (s @ ys)" and part: "decode_bytes xs = decode_bytes s"
      using dropWhile_append_found [of xs s' ys] dw decode_bytes_skip [of xs] by (simp_all add: s_def)
    note at_s = decode_bytes_at_start [OF s_def, folded w_def, unfolded Let_def, folded n_def]
    have at_sy: "5 \<le> length s \<Longrightarrow> decode_bytes (s @ ys) =
        (if sint w < MIN_PACKAGE_SIZE \<or> MAX_PACKAGE_SIZE < sint w then decode_bytes (s' @ ys)
         else if length (s @ ys) < n then ([], s @ ys)
         else if (s @ ys) ! (n - 1) \<noteq> PB_END then decode_bytes (s' @ ys)
         else let (ms, r) = decode_bytes (drop n (s @ ys)) in
           (case parse_bytes w (take n (s @ ys)) of None \<Rightarrow> ms | Some m \<Rightarrow> m # ms, r))"
      using decode_bytes_at_start [of "s @ ys" "s' @ ys"] by (simp add: s_def w_def n_def Let_def)
    have tl: "tl s = s'" by (simp add: s_def)
    note IH = "1.IH" [OF dw [symmetric], unfolded tl, OF _ w_def n_def]
    consider "length s < 5 \<or> (\<not> (sint w < MIN_PACKAGE_SIZE \<or> MAX_PACKAGE_SIZE < sint w) \<and> length s < n)"
      | (bad) "\<not> length s < 5" "sint w < MIN_PACKAGE_SIZE \<or> MAX_PACKAGE_SIZE < sint w"
      | (good) "\<not> length s < 5" "\<not> (sint w < MIN_PACKAGE_SIZE \<or> MAX_PACKAGE_SIZE < sint w)" "\<not> length s < n"
      by blast
    then show ?thesis
    proof cases
      case 1
      then show ?thesis by (auto simp: whole part at_s)
    next
      case bad
      then show ?thesis
        using IH(1) at_sy by (simp add: whole part at_s)
    next
      case good
      have n: "n - 1 < length s"
        using good by (auto simp: n_def MIN_PACKAGE_SIZE_def)
      show ?thesis
        using good n IH(2,3) at_sy
        by (cases "parse_bytes w (take n s)") (auto simp: whole part at_s nth_append split_beta)
    qed
  qed
qed

section \<open>Incomplete packets\<close>

lemma decode_prefix_of_packet:
  assumes "encodable m" and "k < length (packet (with_msg_id m))"
  shows "decode_bytes (take k (packet (with_msg_id m))) = ([], take k (packet (with_msg_id m)))"
proof (cases k)
  case 0
  then show ?thesis by (simp add: decode_bytes_no_start)
next
  case (Suc j)
  define m1 n where "m1 = with_msg_id m" and "n = 26 + payload_length m1"
  define bs' where "bs' = take j (putInt32 (word_of_nat n) @ packet_body m1 @ putInt32 1 @ [PB_END])"
  have c: "take k (packet m1) = PB_START # bs'"
    by (simp add: packet_def bs'_def n_def Suc)
  have len: "length (take k (packet m1)) = k" "k < n"
    using assms(2) by (simp_all add: m1_def n_def)
  have n: "sint (word_of_nat n :: int32) = int n" "int n \<le> MAX_PACKAGE_SIZE" "MIN_PACKAGE_SIZE \<le> int n"
    using assms(1) sint_small [of n] small_payload [OF assms(1)]
    by (simp_all add: n_def m1_def encodable_def MIN_PACKAGE_SIZE_def del: of_nat_add)
  have "\<not> k < 5 \<Longrightarrow> int32_of_bytes (take 4 bs') = word_of_nat n"
    by (simp add: bs'_def Suc min_absorb1)
  then show ?thesis
    using decode_bytes_at_start [OF c] len n unfolding m1_def [symmetric] by (simp add: Let_def)
qed

section \<open>Decoded messages\<close>

definition tinypb_ok :: "tinypb \<Rightarrow> bool" where
  "tinypb_ok m \<longleftrightarrow> parse_success m \<and>
     sint (m_msg_id_len m) = int (length (m_msg_id m)) \<and>
     sint (m_method_name_len m) = int (length (m_method_name m)) \<and>
     sint (m_err_info_len m) = int (length (m_err_info m)) \<and>
     sint (m_pk_len m) = 26 + int (payload_length m) \<and> sint (m_pk_len m) \<le> MAX_PACKAGE_SIZE"

text \<open>The bytes of a message as they must have been on the wire, with its own checksum.\<close>

definition wire_layout :: "tinypb \<Rightarrow> byte list" where
  "wire_layout m = PB_START # putInt32 (m_pk_len m) @ packet_body m @ putInt32 (m_check_sum m) @ [PB_END]"

lemma char_of_eqI: "n mod 256 = of_char c \<Longrightarrow> char_of (n::nat) = c"
  by (metis char_of_mod_256 char_of_char)

lemma low_byte: "(d::nat) < 256 \<Longrightarrow> (256 * x + d) mod 256 = d" "d < 256 \<Longrightarrow> (256 * x + d) div 256 = x"
  by simp_all

lemma nat_of_bytes:
  fixes a b c d :: nat
  assumes "a < 256" "b < 256" "c < 256" "d < 256" and n: "n = 256 * (256 * (256 * a + b) + c) + d"
  shows "n < 2 ^ 32" "n mod 256 = d" "n div 2 ^ 8 mod 256 = c" "n div 2 ^ 16 mod 256 = b" "n div 2 ^ 24 mod 256 = a"
proof -
  have div: "n div 2 ^ 8 = n div 256" "n div 2 ^ 16 = n div 256 div 256" "n div 2 ^ 24 = n div 256 div 256 div 256"
    by (simp_all add: div_mult2_eq [symmetric])
  show "n < 2 ^ 32"
    using assms by simp
  have d: "n div 256 = 256 * (256 * a + b) + c" "n mod 256 = d"
    unfolding n using assms(4) by (rule low_byte)+
  have c: "n div 256 div 256 = 256 * a + b" "n div 256 mod 256 = c"
    unfolding d(1) using assms(3) by (rule low_byte)+
  have b: "n div 256 div 256 div 256 = a" "n div 256 div 256 mod 256 = b"
    unfolding c(1) using assms(2) by (rule low_byte)+
  show "n mod 256 = d" "n div 2 ^ 8 mod 256 = c" "n div 2 ^ 16 mod 256 = b" "n div 2 ^ 24 mod 256 = a"
    unfolding div by (simp_all only: d(2) c(2) b) (simp_all add: assms(1))
qed

lemma putInt32_int32_of_bytes:
  assumes "length bs = 4"
  shows "putInt32 (int32_of_bytes bs) = bs"
proof -
  obtain a b c d where bs: "bs = [a, b, c, d]"
    using assms by (auto simp: numeral_eq_Suc length_Suc_conv)
  define n :: nat where "n = 256 * (256 * (256 * of_char a + of_char b) + of_char c) + of_char d"
  note digits = nat_of_bytes [OF nat_of_char_less_256 nat_of_char_less_256 nat_of_char_less_256
      nat_of_char_less_256 n_def]
  have "int32_of_bytes bs = word_of_nat n"
    by (simp add: int32_of_bytes_def bs n_def)
  then have "unat (int32_of_bytes bs) = n"
    using digits(1) by (simp add: unat_of_nat take_bit_nat_eq_self)
  then show ?thesis
    using digits by (simp add: putInt32_def bs char_of_eqI)
qed

lemma fetch_int32_SomeD:
  assumes "fetch_int32 store q = Some (m', r)"
  obtains m v where "q = Some (m, putInt32 v @ r)" and "m' = store v m"
proof -
  obtain m bs where q: "q = Some (m, bs)" "\<not> length bs < 4" "m' = store (int32_of_bytes (take 4 bs)) m" "r = drop 4 bs"
    using assms by (auto simp: fetch_int32_def split: option.splits if_splits)
  then have "bs = putInt32 (int32_of_bytes (take 4 bs)) @ r"
    using putInt32_int32_of_bytes [of "take 4 bs"] by simp
  with q show ?thesis using that by metis
qed

lemma fetch_field_SomeD:
  assumes "fetch_field len store q = Some (m', r)"
  obtains m xs where "q = Some (m, xs @ r)" and "m' = store xs m" and "sint (len m) = int (length xs)"
proof -
  obtain m bs where q: "q = Some (m, bs)" "0 \<le> sint (len m)" "sint (len m) \<le> int (length bs)"
      "m' = store (take (nat (sint (len m))) bs) m" "r = drop (nat (sint (len m))) bs"
    using assms by (auto simp: fetch_field_def Let_def split: option.splits if_splits)
  then show ?thesis
    using that [of m "take (nat (sint (len m))) bs"] by auto
qed

lemma word_of_length: "sint w = int n \<Longrightarrow> word_of_nat n = (w :: int32)"
proof -
  assume "sint w = int n"
  then have "(of_int (sint w) :: int32) = of_nat n" by simp
  then show ?thesis by simp
qed

lemma fetch_head_SomeD:
  assumes "fetch_head (m0, bs) = Some (m, r)"
  shows "bs = packet_body (m\<lparr>m_pb_data := r\<rparr>)"
    and "sint (m_msg_id_len m) = int (length (m_msg_id m))"
    and "sint (m_method_name_len m) = int (length (m_method_name m))"
    and "sint (m_err_info_len m) = int (length (m_err_info m))"
    and "m_pk_len m = m_pk_len m0"
proof -
  have "bs = packet_body (m\<lparr>m_pb_data := r\<rparr>) \<and>
      sint (m_msg_id_len m) = int (length (m_msg_id m)) \<and>
      sint (m_method_name_len m) = int (length (m_method_name m)) \<and>
      sint (m_err_info_len m) = int (length (m_err_info m)) \<and> m_pk_len m = m_pk_len m0"
    using assms unfolding fetch_head_def packet_body_def
    by (elim fetch_field_SomeD fetch_int32_SomeD) (simp add: word_of_length)
  then show "bs = packet_body (m\<lparr>m_pb_data := r\<rparr>)"
    and "sint (m_msg_id_len m) = int (length (m_msg_id m))"
    and "sint (m_method_name_len m) = int (length (m_method_name m))"
    and "sint (m_err_info_len m) = int (length (m_err_info m))"
    and "m_pk_len m = m_pk_len m0"
    by simp_all
qed

lemma parse_bytes_SomeD:
  assumes "parse_bytes w p = Some m"
  shows "take (length p - 10) (drop 5 p) = packet_body m"
    and "m_check_sum m = int32_of_bytes (take 4 (drop (length p - 5) p))"
    and "m_pk_len m = w" and "parse_success m"
    and "sint (m_msg_id_len m) = int (length (m_msg_id m))"
    and "sint (m_method_name_len m) = int (length (m_method_name m))"
    and "sint (m_err_info_len m) = int (length (m_err_info m))"
proof -
  obtain m1 r where m1: "fetch_head (newTinyPB\<lparr>m_pk_len := w\<rparr>, take (length p - 10) (drop 5 p)) = Some (m1, r)"
    and m: "m = m1\<lparr>m_pb_data := r, m_check_sum := int32_of_bytes (take 4 (drop (length p - 5) p)),
                  parse_success := True\<rparr>"
    using assms by (auto simp: parse_bytes_def split: option.splits)
  show "take (length p - 10) (drop 5 p) = packet_body m"
    using fetch_head_SomeD(1) [OF m1] by (simp add: m packet_body_def)
  show "m_check_sum m = int32_of_bytes (take 4 (drop (length p - 5) p))"
    and "m_pk_len m = w" and "parse_success m"
    and "sint (m_msg_id_len m) = int (length (m_msg_id m))"
    and "sint (m_method_name_len m) = int (length (m_method_name m))"
    and "sint (m_err_info_len m) = int (length (m_err_info m))"
    using fetch_head_SomeD(2-5) [OF m1] by (simp_all add: m)
qed

text \<open>Five header bytes, the body, the checksum, the end flag.\<close>

lemma packet_pieces:
  assumes "26 \<le> length p" and "p ! 0 = PB_START" and "last p = PB_END"
  shows "p = PB_START # take 4 (tl p) @ take (length p - 10) (drop 5 p) @
             take 4 (drop (length p - 5) p) @ [PB_END]"
proof -
  define n where "n = length p"
  have n: "26 \<le> n" using assms by (simp add: n_def)
  have "p = take 1 p @ take 4 (drop 1 p) @ take (n - 10) (drop 5 p) @ take 4 (drop (n - 5) p) @ drop (n - 1) p"
    by (rule nth_equalityI) (use n in \<open>auto simp: n_def nth_append intro!: arg_cong [of _ _ "(!) p"]\<close>)
  moreover have "take 1 p = [PB_START]" "drop 1 p = tl p"
    using assms by (cases p; simp)+
  moreover have "drop (n - 1) p = [PB_END]"
    using assms n by (metis One_nat_def append_butlast_last_id append_eq_conv_conj length_butlast
        list.size(3) n_def not_numeral_le_zero)
  ultimately show ?thesis by (simp add: n_def)
qed

lemma parse_bytes_sound:
  assumes "parse_bytes w p = Some m" and "length p = nat (sint w)"
    and "MIN_PACKAGE_SIZE \<le> sint w" and "sint w \<le> MAX_PACKAGE_SIZE"
    and "p ! 0 = PB_START" and "int32_of_bytes (take 4 (tl p)) = w" and "last p = PB_END"
  shows "tinypb_ok m \<and> p = wire_layout m"
proof -
  have n: "26 \<le> length p" "sint w = int (length p)"
    using assms by (auto simp: MIN_PACKAGE_SIZE_def)
  note m = parse_bytes_SomeD [OF assms(1)]
  have "putInt32 (m_pk_len m) = take 4 (tl p)"
    using n m(3) assms(6) putInt32_int32_of_bytes [of "take 4 (tl p)"] by simp
  moreover have "putInt32 (m_check_sum m) = take 4 (drop (length p - 5) p)"
    using n m(2) putInt32_int32_of_bytes [of "take 4 (drop (length p - 5) p)"] by simp
  ultimately have "p = wire_layout m"
    using packet_pieces [OF n(1) assms(5,7)] m(1) by (simp add: wire_layout_def)
  moreover from this have "length p = 26 + payload_length m"
    by (simp add: wire_layout_def) 
  ultimately show ?thesis
    using n m assms(4) by (simp add: tinypb_ok_def)
qed

lemma decode_bytes_sound:
  "m \<in> set (fst (decode_bytes bs)) \<Longrightarrow> tinypb_ok m \<and> sublist (wire_layout m) bs"
proof (induction bs rule: decode_bytes.induct)
  case (1 bs)
  show ?case
  proof (cases "dropWhile not_start bs")
    case Nil
    then have "PB_START \<notin> set bs" by auto
    with "1.prems" show ?thesis by (simp add: decode_bytes_no_start)
  next
    case (Cons c s')
    then have c: "c = PB_START"
      by (metis (full_types) hd_dropWhile list.sel(1) list.distinct(1))
    define s w n where "s = PB_START # s'" and "w = int32_of_bytes (take 4 s')" and "n = nat (sint w)"
    have dw: "dropWhile not_start bs = s" and tl: "tl s = s'"
      using Cons c by (simp_all add: s_def)
    have sub: "sublist s bs"
      by (metis dw suffix_dropWhile suffix_imp_sublist)
    have mem: "m \<in> set (fst (decode_bytes s))"
      using "1.prems" decode_bytes_skip [of bs] dw by simp
    note at_s = decode_bytes_at_start [OF s_def, folded w_def, unfolded Let_def, folded n_def]
    note IH = "1.IH" [OF dw [symmetric], unfolded tl, OF _ w_def n_def]
    have up: "sublist xs ys \<Longrightarrow> suffix ys s \<Longrightarrow> sublist xs bs" for xs ys :: "byte list"
      using sub by (meson sublist_order.order_trans suffix_imp_sublist)
    have sfx: "suffix s' s" "suffix (drop n s) s"
      by (simp_all add: s_def suffix_ConsI suffix_drop)
    show ?thesis
    proof (cases "length s < 5 \<or> sint w < MIN_PACKAGE_SIZE \<or> MAX_PACKAGE_SIZE < sint w \<or>
        length s < n \<or> s ! (n - 1) \<noteq> PB_END")
      case True
      then show ?thesis
        using mem IH(1,2) sfx up by (auto simp: at_s split: if_splits)
    next
      case False
      have n: "26 \<le> n" "n \<le> length s"
        using False by (auto simp: n_def MIN_PACKAGE_SIZE_def)
      have len: "length (take n s) = nat (sint w)"
        using n by (simp add: n_def)
      have start: "take n s ! 0 = PB_START"
        using n by (simp add: s_def)
      have word: "int32_of_bytes (take 4 (tl (take n s))) = w"
        using n by (auto simp: s_def w_def tl_take min_def)
      have "take n s \<noteq> []"
        using n by (auto simp: s_def)
      then have endflag: "last (take n s) = PB_END"
        using False n by (simp add: last_conv_nth min_def)
      have "parse_bytes w (take n s) = Some m \<Longrightarrow> tinypb_ok m \<and> take n s = wire_layout m"
        using False len start word endflag by (intro parse_bytes_sound) auto
      moreover have "sublist (take n s) bs"
        using sub by (meson sublist_order.order_trans sublist_take)
      ultimately show ?thesis
        using False mem IH(3) sfx up
        by (cases "parse_bytes w (take n s)") (auto simp: at_s split_beta)
    qed
  qed
qed

section \<open>Encoding a list of messages\<close>

fun wire_chunks :: "protocol list \<Rightarrow> byte list list" where
  "wire_chunks [] = []"
| "wire_chunks (StringP p # ms) = wire_chunks ms"
| "wire_chunks (TinyPB m # ms) =
     (if encodable m then packet (with_msg_id m) # wire_chunks ms else wire_chunks ms)"

fun after_encode :: "protocol \<Rightarrow> protocol" where
  "after_encode (StringP p) = StringP p"
| "after_encode (TinyPB m) = TinyPB (if encodable m then stamped (with_msg_id m) else with_msg_id m)"

lemma encode_as_pushes:
  "encode ms b =
     bind_cpp (fold_cpp (\<lambda>xs. writeToBuffer xs (int (length xs))) (wire_chunks ms) b)
       (\<lambda>b'. Inr (map after_encode ms, b'))"
proof (induction ms b rule: encode.induct)
  case (3 m ms b)
  have "packet x \<noteq> []" for x by (simp add: packet_def)
  with 3 show ?case
    by (cases "encodable m")
      (simp_all add: encodeTinyPB_encodable encodeTinyPB_refused bind_cpp_assoc cong: bind_cpp_cong)
qed (simp_all add: bind_cpp_assoc)

lemma encode_ok_room:
  assumes "buffer_ok b" and "room b (length (concat (wire_chunks ms)) + k)"
  shows "\<exists>b'. encode ms b = Inr (map after_encode ms, b') \<and> buffer_ok b' \<and>
           contents b' = contents b @ concat (wire_chunks ms) \<and> room b' k"
  using tcpbuf.push_all_room [OF assms] by (auto simp: encode_as_pushes)

lemma encode_ok:
  assumes "buffer_ok b" and "room b (length (concat (wire_chunks ms)))"
  shows "\<exists>b'. encode ms b = Inr (map after_encode ms, b') \<and> buffer_ok b' \<and>
           contents b' = contents b @ concat (wire_chunks ms)"
  using encode_ok_room [of b ms 0] assms by auto

lemma wire_chunks_append [simp]: "wire_chunks (ms @ ns) = wire_chunks ms @ wire_chunks ns"
  by (induction ms rule: wire_chunks.induct) simp_all

lemma decode_wire_chunks:
  "decode_bytes (concat (wire_chunks ms) @ rest) =
     ([stamped (with_msg_id m). TinyPB m \<leftarrow> ms, encodable m] @ fst (decode_bytes rest), snd (decode_bytes rest))"
  by (induction ms rule: wire_chunks.induct) (auto simp: decode_packet)

section \<open>Decoders of a byte stream\<close>

text \<open>
  What a connection needs of a decoder: it may be called after every arrival of bytes with the
  rest it kept, and what it has decided about a prefix of the stream stays decided.
\<close>

locale stream_decoder =
  fixes dec :: "byte list \<Rightarrow> 'm list \<times> byte list"
  assumes dec_empty: "dec [] = ([], [])"
    and dec_append: "dec (xs @ ys) =
      (fst (dec xs) @ fst (dec (snd (dec xs) @ ys)), snd (dec (snd (dec xs) @ ys)))"
begin

definition feed :: "byte list \<Rightarrow> 'm list \<times> byte list \<Rightarrow> 'm list \<times> byte list" where
  "feed xs p = (fst p @ fst (dec (snd p @ xs)), snd (dec (snd p @ xs)))"

lemma feed_from:
  "fold feed xss (out @ fst (dec r), snd (dec r)) =
     (out @ fst (dec (r @ concat xss)), snd (dec (r @ concat xss)))"
proof (induction xss arbitrary: r)
  case (Cons xs xss)
  have "feed xs (out @ fst (dec r), snd (dec r)) = (out @ fst (dec (r @ xs)), snd (dec (r @ xs)))"
    unfolding dec_append [of r xs] by (simp add: feed_def)
  then show ?case
    using Cons.IH [of "r @ xs"] by simp
qed simp

lemma feed_all: "fold feed xss ([], []) = dec (concat xss)"
  using feed_from [of xss "[]" "[]"] by (simp add: dec_empty)

end

interpretation wire: stream_decoder decode_bytes
proof unfold_locales
  show "decode_bytes [] = ([], [])"
    by (simp add: decode_bytes_no_start)
  show "decode_bytes (xs @ ys) = (fst (decode_bytes xs) @ fst (decode_bytes (snd (decode_bytes xs) @ ys)),
      snd (decode_bytes (snd (decode_bytes xs) @ ys)))" for xs ys
    unfolding decode_bytes_append [of xs ys] decode_then_def ..
qed

text \<open>
  The write index never grows while decoding and the vector keeps its size, so the room for
  further arrivals stays.
\<close>

lemma adjustBuffer_write_index:
  "adjustBuffer b = Inr b' \<Longrightarrow> 0 \<le> m_read_index b \<Longrightarrow> m_write_index b' \<le> m_write_index b"
  by (auto simp: adjustBuffer_def bind_cpp_eq_Inr Let_def readAble_def split: if_splits)

lemma adjustBuffer_length: "adjustBuffer b = Inr b' \<Longrightarrow> length (m_buffer b') = length (m_buffer b)"
  by (auto simp: adjustBuffer_def bind_cpp_eq_Inr Let_def new_vector_def split: if_splits dest!: memcpy_length)

definition keeps_room :: "tcp_buffer \<Rightarrow> tcp_buffer \<Rightarrow> bool" where
  "keeps_room b b' \<longleftrightarrow> m_write_index b' \<le> m_write_index b \<and> length (m_buffer b') = length (m_buffer b)"

lemma keeps_room_refl [simp]: "keeps_room b b"
  by (simp add: keeps_room_def)

lemma keeps_room_trans: "keeps_room b b1 \<Longrightarrow> keeps_room b1 b2 \<Longrightarrow> keeps_room b b2"
  by (simp add: keeps_room_def)

lemma moveReadIndexIfNeeded_room:
  assumes "moveReadIndexIfNeeded n b = Inr b'" and "0 \<le> m_read_index b"
  shows "keeps_room b b'"
  using assms adjustBuffer_write_index [of "b\<lparr>m_read_index := m_read_index b + n\<rparr>" b']
    adjustBuffer_length [of "b\<lparr>m_read_index := m_read_index b + n\<rparr>" b']
  by (auto simp: moveReadIndexIfNeeded_def moveReadIndex_def bind_cpp_eq_Inr checked_int_def keeps_room_def split: if_splits)

lemma decode_iteration_room:
  assumes "0 \<le> m_read_index b"
    and "decode_iteration b \<in> {Inr (Return b'), Inr (Continue b'), Inr (PushBack m b')}"
  shows "keeps_room b b'"
  using assms
  by (auto simp: decode_iteration_def Let_def bind_cpp_eq_Inr split: if_splits
      dest: moveReadIndexIfNeeded_room)

lemma decode_room:
  "buffer_ok b \<Longrightarrow> decode out b = Inr (out', b') \<Longrightarrow> keeps_room b b'"
proof (induction out b rule: decode.induct)
  case (1 out b)
  show ?case
  proof (cases "0 < readAble b")
    case True
    obtain act where act: "decode_iteration b = Inr act" "action_ok (contents b) act"
      using decode_iteration_ok "1.prems"(1) True by blast
    have r: "0 \<le> m_read_index b"
      using "1.prems"(1) by (simp add: buffer_ok_def)
    show ?thesis
    proof (cases act)
      case (Return b1)
      then show ?thesis
        using act True "1.prems" decode_iteration_room [OF r, of b1 undefined]
        by (auto simp: decode.simps [of out b])
    next
      case (Continue b1)
      then show ?thesis
        using act True "1.prems" "1.IH"(1) [of act b1] decode_iteration_room [OF r, of b1 undefined]
        by (auto simp: decode.simps [of out b] action_ok_def intro: keeps_room_trans)
    next
      case (PushBack m b1)
      then show ?thesis
        using act True "1.prems" "1.IH"(2) [of act m b1] decode_iteration_room [OF r, of b1 m]
        by (auto simp: decode.simps [of out b] action_ok_def intro: keeps_room_trans)
    qed
  qed (use "1.prems" in \<open>auto simp: decode.simps [of out b]\<close>)
qed

text \<open>One arrival of bytes: \<open>onRead\<close> appends them to the in buffer and \<open>excute\<close> decodes.\<close>

definition arrive :: "byte list \<Rightarrow> tinypb list \<times> tcp_buffer \<Rightarrow> (tinypb list \<times> tcp_buffer) cpp" where
  "arrive xs p = bind_cpp (writeToBuffer xs (int (length xs)) (snd p)) (decode (fst p))"

lemma arrive_ok:
  assumes "buffer_ok b" and "room b (length xs + k)"
  shows "\<exists>b'. arrive xs (out, b) = Inr (out @ fst (decode_bytes (contents b @ xs)), b') \<and>
           buffer_ok b' \<and> contents b' = snd (decode_bytes (contents b @ xs)) \<and> room b' k"
proof -
  obtain b1 where b1: "writeToBuffer xs (int (length xs)) b = Inr b1" "buffer_ok b1"
      "contents b1 = contents b @ xs" "room b1 k"
    using tcpbuf.push_ok [OF assms] by blast
  obtain b2 where b2: "decode out b1 = Inr (out @ fst (decode_bytes (contents b @ xs)), b2)"
      "buffer_ok b2" "contents b2 = snd (decode_bytes (contents b @ xs))"
    using decode_refines [OF b1(2)] b1(3) by metis
  have "m_write_index b2 \<le> m_write_index b1"
    using decode_room [OF b1(2) b2(1)] by (simp add: keeps_room_def)
  then have "room b2 k"
    using b1(4) by (auto simp: room_def intro: order_trans [OF zdiv_mono1])
  with b1 b2 show ?thesis by (simp add: arrive_def)
qed

lemma arrive_all:
  assumes "buffer_ok b" and "room b (length (concat xss))"
  shows "\<exists>b'. fold_cpp arrive xss (out, b) = Inr (fst (fold wire.feed xss (out, contents b)), b') \<and>
           buffer_ok b' \<and> contents b' = snd (fold wire.feed xss (out, contents b))"
  using assms
proof (induction xss arbitrary: out b)
  case (Cons xs xss)
  then obtain b1 where "arrive xs (out, b) = Inr (out @ fst (decode_bytes (contents b @ xs)), b1)"
      "buffer_ok b1" "contents b1 = snd (decode_bytes (contents b @ xs))" "room b1 (length (concat xss))"
    using arrive_ok [of b xs "length (concat xss)" out] by auto
  with Cons.IH [of b1 "out @ fst (decode_bytes (contents b @ xs))"] show ?case
    by (simp add: wire.feed_def)
qed simp

section \<open>Properties\<close>

text \<open>
  C8. Round trip: a list of messages encoded into an empty buffer decodes to exactly the TinyPB
  messages the encoder accepted, in order and with every field as \<open>encode\<close> left it, and the
  buffer is empty again. Messages the encoder refuses leave no bytes at all.
\<close>

theorem encode_decode_roundtrip:
  assumes "buffer_ok b" and "contents b = []" and "room b (length (concat (wire_chunks ms)))"
  shows "\<exists>ms' b1 b2. encode ms b = Inr (ms', b1) \<and>
           decode [] b1 = Inr ([m'. (TinyPB m, TinyPB m') \<leftarrow> zip ms ms', encodable m], b2) \<and>
           buffer_ok b2 \<and> contents b2 = []"
proof -
  obtain b1 where b1: "encode ms b = Inr (map after_encode ms, b1)" "buffer_ok b1"
      "contents b1 = concat (wire_chunks ms)"
    using encode_ok [OF assms(1,3)] assms(2) by auto
  have "[m'. (TinyPB m, TinyPB m') \<leftarrow> zip ms (map after_encode ms), encodable m] =
      [stamped (with_msg_id m). TinyPB m \<leftarrow> ms, encodable m]"
    by (induction ms rule: wire_chunks.induct) simp_all
  then show ?thesis
    using b1 decode_refines [OF b1(2), of "[]"] decode_wire_chunks [of ms "[]"]
    by (simp add: wire.dec_empty)
qed

theorem encode_decode_roundtrip_witness:
  "\<exists>b1 b2 m'. encode [TinyPB (newTinyPB\<lparr>m_msg_id := ''7'', m_pb_data := ''xy''\<rparr>)]
        \<lparr>m_read_index = 0, m_write_index = 0, m_size = 0, m_buffer = []\<rparr> = Inr ([TinyPB m'], b1) \<and>
     decode [] b1 = Inr ([m'], b2)"
proof -
  define m where "m = newTinyPB\<lparr>m_msg_id := ''7'', m_pb_data := ''xy''\<rparr>"
  define b where "b = \<lparr>m_read_index = 0, m_write_index = 0, m_size = 0, m_buffer = []\<rparr>"
  have e: "encodable m"
    by (simp add: encodable_def with_msg_id_def payload_length_def m_def newTinyPB_def
        MIN_PACKAGE_SIZE_def MAX_PACKAGE_SIZE_def)
  have r: "room b (length (concat (wire_chunks [TinyPB m])))"
    by (simp add: e room_def b_def INT_MAX_def with_msg_id_def payload_length_def m_def newTinyPB_def)
  have "buffer_ok b" "contents b = []"
    by (simp_all add: b_def buffer_defs INT_MAX_def)
  from encode_decode_roundtrip [OF this r] show ?thesis
    using encode_as_pushes [of "[TinyPB m]" b]
    by (auto simp: e m_def [symmetric] b_def [symmetric] bind_cpp_eq_Inr)
qed

text \<open>
  C9. The decoder, which walks a vector by index and moves it under its feet, computes the
  specification of the format on the readable bytes: it never faults and always returns, the
  messages are appended in stream order and the bytes left in the buffer are the specified rest.
\<close>

theorem decode_implements_format:
  assumes "buffer_ok b"
  shows "\<exists>b'. decode out b = Inr (out @ fst (decode_bytes (contents b)), b') \<and> buffer_ok b' \<and>
           contents b' = snd (decode_bytes (contents b))"
  using assms by (rule decode_refines)

theorem decode_implements_format_witness:
  "\<exists>b'. decode [] \<lparr>m_read_index = 1, m_write_index = 3, m_size = 3, m_buffer = [CHR 0x02, CHR 0x07, CHR 0x02]\<rparr> =
     Inr ([], b') \<and> contents b' = [CHR 0x02]"
proof -
  define b where "b = \<lparr>m_read_index = 1, m_write_index = 3, m_size = 3, m_buffer = [CHR 0x02, CHR 0x07, CHR 0x02]\<rparr>"
  have b: "buffer_ok b" "contents b = [CHR 0x07, CHR 0x02]"
    by (simp_all add: b_def buffer_defs INT_MAX_def)
  have "decode_bytes (contents b) = ([], [CHR 0x02])"
    using decode_bytes_skip [of "contents b"] decode_bytes_at_start [of "[CHR 0x02]" "[]"]
    by (simp add: b PB_START_def)
  then show ?thesis
    using decode_implements_format [OF b(1), of "[]"] unfolding b_def by auto
qed

text \<open>
  C10. TCP fragmentation: however a byte stream is cut into arrivals, decoding after every arrival
  gives the same messages and the same bytes left over as decoding the whole stream at once.
\<close>

theorem fragmentation_invisible:
  assumes "buffer_ok b" and "contents b = []" and "room b (length (concat xss))"
  shows "\<exists>out b1 b2. fold_cpp arrive xss ([], b) = Inr (out, b1) \<and>
           arrive (concat xss) ([], b) = Inr (out, b2) \<and> contents b1 = contents b2"
  using arrive_all [OF assms(1,3), of "[]"] arrive_ok [OF assms(1), of "concat xss" 0 "[]"] assms(2,3)
    wire.feed_all [of xss] by auto

theorem fragmentation_invisible_witness:
  "\<exists>out b1 b2. fold_cpp arrive [[CHR 0x02], [CHR 0x00, CHR 0x00]]
       ([], \<lparr>m_read_index = 0, m_write_index = 0, m_size = 0, m_buffer = []\<rparr>) = Inr (out, b1) \<and>
     arrive [CHR 0x02, CHR 0x00, CHR 0x00]
       ([], \<lparr>m_read_index = 0, m_write_index = 0, m_size = 0, m_buffer = []\<rparr>) = Inr (out, b2) \<and>
     contents b1 = contents b2"
  using fragmentation_invisible [of "\<lparr>m_read_index = 0, m_write_index = 0, m_size = 0, m_buffer = []\<rparr>"
      "[[CHR 0x02], [CHR 0x00, CHR 0x00]]"]
  by (simp add: buffer_defs room_def INT_MAX_def)

text \<open>
  An incomplete packet waits: with only a proper prefix of an encoded packet readable, the
  decoder reports nothing and keeps every byte of it.
\<close>

theorem incomplete_packet_waits:
  assumes "buffer_ok b" and "encodeTinyPB m = (Some p, m')"
    and "contents b = take k p" and "k < length p"
  shows "\<exists>b'. decode out b = Inr (out, b') \<and> buffer_ok b' \<and> contents b' = take k p"
  using assms decode_prefix_of_packet [of m k] decode_refines [OF assms(1), of out]
  by (cases "encodable m") (auto simp: encodeTinyPB_encodable encodeTinyPB_refused)

theorem incomplete_packet_waits_witness:
  "\<exists>b'. decode [] \<lparr>m_read_index = 0, m_write_index = 1, m_size = 1, m_buffer = [PB_START]\<rparr> = Inr ([], b') \<and>
     contents b' = [PB_START]"
proof -
  define m where "m = newTinyPB\<lparr>m_msg_id := ''7''\<rparr>"
  have e: "encodable m"
    by (simp add: encodable_def with_msg_id_def payload_length_def m_def newTinyPB_def
        MIN_PACKAGE_SIZE_def MAX_PACKAGE_SIZE_def)
  have "take 1 (packet (with_msg_id m)) = [PB_START]"
    by (simp add: packet_def)
  then show ?thesis
    using incomplete_packet_waits [OF _ encodeTinyPB_encodable [OF e], of
        "\<lparr>m_read_index = 0, m_write_index = 1, m_size = 1, m_buffer = [PB_START]\<rparr>" 1 "[]"]
    by (auto simp: buffer_defs INT_MAX_def)
qed

text \<open>
  C11. Soundness: every message the decoder reports was on the wire as one complete packet between
  a start and an end flag, its declared lengths are the lengths of its fields and of the packet,
  and the packet is no longer than the limit. Malformed lengths never produce a message.
\<close>

theorem decoded_messages_were_sent:
  assumes "buffer_ok b" and "decode [] b = Inr (out, b')" and "m \<in> set out"
  shows "tinypb_ok m \<and> sublist (wire_layout m) (contents b)"
  using assms decode_refines [OF assms(1), of "[]"] decode_bytes_sound [of m "contents b"] by auto

theorem decoded_messages_were_sent_witness:
  "\<exists>b m b'. decode [] b = Inr ([m], b') \<and> tinypb_ok m \<and> sublist (wire_layout m) (contents b)"
proof -
  define m where "m = newTinyPB\<lparr>m_msg_id := ''7''\<rparr>"
  define p where "p = packet (with_msg_id m)"
  define b where "b = \<lparr>m_read_index = 0, m_write_index = int (length p), m_size = 0, m_buffer = p\<rparr>"
  have e: "encodable m"
    by (simp add: encodable_def with_msg_id_def payload_length_def m_def newTinyPB_def
        MIN_PACKAGE_SIZE_def MAX_PACKAGE_SIZE_def)
  have b: "buffer_ok b" "contents b = p"
    using small_payload [OF e] by (simp_all add: b_def p_def buffer_defs INT_MAX_def)
  have "fst (decode_bytes p) = [stamped (with_msg_id m)]"
    using decode_packet [OF e, of "[]"] by (simp add: p_def wire.dec_empty)
  then obtain b' where "decode [] b = Inr ([stamped (with_msg_id m)], b')"
    using decode_refines [OF b(1), of "[]"] b(2) by auto
  then show ?thesis
    using decoded_messages_were_sent [OF b(1)] by fastforce
qed

text \<open>
  Resynchronisation: bytes without a start flag in front of well-formed packets are skipped,
  every packet behind them is still decoded, and the result does not depend on them.
\<close>

theorem garbage_is_skipped:
  assumes "buffer_ok b" and "contents b = garbage @ concat (wire_chunks ms)" and "PB_START \<notin> set garbage"
  shows "\<exists>b'. decode out b = Inr (out @ [m'. (TinyPB m, TinyPB m') \<leftarrow> zip ms (map after_encode ms), encodable m], b') \<and>
           buffer_ok b' \<and> contents b' = []"
proof -
  have "[m'. (TinyPB m, TinyPB m') \<leftarrow> zip ms (map after_encode ms), encodable m] =
      [stamped (with_msg_id m). TinyPB m \<leftarrow> ms, encodable m]"
    by (induction ms rule: wire_chunks.induct) simp_all
  then show ?thesis
    using assms decode_refines [OF assms(1), of out] decode_wire_chunks [of ms "[]"]
    by (simp add: decode_bytes_append_skip wire.dec_empty)
qed

theorem garbage_is_skipped_witness:
  "\<exists>b'. decode [] \<lparr>m_read_index = 0, m_write_index = 2, m_size = 2, m_buffer = ''xy''\<rparr> = Inr ([], b') \<and>
     contents b' = []"
  using garbage_is_skipped [of "\<lparr>m_read_index = 0, m_write_index = 2, m_size = 2, m_buffer = ''xy''\<rparr>" "''xy''" "[]" "[]"]
  by (auto simp: buffer_defs INT_MAX_def PB_START_def)

text \<open>
  The string codec: encoding string messages appends their texts, and decoding hands out
  everything readable as one message and empties the buffer.
\<close>

theorem string_codec_concatenates:
  assumes "buffer_ok b" and "contents b = []" and "room b (length (concat (map sp_info ps)))"
  shows "\<exists>b1 b2. encode_string (map StringP ps) b = Inr b1 \<and>
           decode_string out b1 = Inr (out @ [StringP \<lparr>sp_msg_id = ''12345'', sp_info = concat (map sp_info ps)\<rparr>], b2) \<and>
           contents b2 = []"
proof -
  have "encode_string (map StringP ps) b =
      fold_cpp (\<lambda>xs. writeToBuffer xs (int (length xs))) (map sp_info ps) b"
    by (induction ps arbitrary: b) (simp_all add: encode_string_def cong: bind_cpp_cong)
  moreover obtain b1 where b1: "fold_cpp (\<lambda>xs. writeToBuffer xs (int (length xs))) (map sp_info ps) b = Inr b1"
      "buffer_ok b1" "contents b1 = concat (map sp_info ps)"
    using tcpbuf.push_all [OF assms(1,3)] assms(2) by auto
  moreover have "nat (readAble b1) = length (contents b1)"
    by (simp add: b1(2))
  ultimately show ?thesis
    using readFromBuffer_ok [OF b1(2) readAble_nonneg [OF b1(2)], of "[]"]
    by (auto simp: decode_string_def)
qed

theorem string_codec_concatenates_witness:
  "\<exists>b1 b2. encode_string [StringP \<lparr>sp_msg_id = [], sp_info = ''ab''\<rparr>]
       \<lparr>m_read_index = 0, m_write_index = 0, m_size = 0, m_buffer = []\<rparr> = Inr b1 \<and>
     decode_string [] b1 = Inr ([StringP \<lparr>sp_msg_id = ''12345'', sp_info = ''ab''\<rparr>], b2)"
  using string_codec_concatenates [of "\<lparr>m_read_index = 0, m_write_index = 0, m_size = 0, m_buffer = []\<rparr>"
      "[\<lparr>sp_msg_id = [], sp_info = ''ab''\<rparr>]" "[]"]
  by (auto simp: buffer_defs room_def INT_MAX_def)

end
