(* ===== verification/FdEvent.thy ===== *)
theory FdEvent
  imports Prelude
begin

text \<open>
  File-descriptor events and their group (\<open>net/fd_event.h\<close>, \<open>net/fd_event.cc\<close>,
  \<open>net/fd_event_group.h\<close>, \<open>net/fd_event_group.cc\<close>). An event holds the epoll mask it asks for
  and three optional callbacks of a type \<open>'c\<close>; \<open>data.ptr\<close> always points back to the event
  and is not a field of the model. The group owns one event per descriptor, in a vector that
  grows on demand.
\<close>

unbundle bit_operations_syntax

type_synonym epoll_mask = "32 word"

definition EPOLLIN :: epoll_mask where "EPOLLIN = 0x001"
definition EPOLLOUT :: epoll_mask where "EPOLLOUT = 0x004"
definition EPOLLERR :: epoll_mask where "EPOLLERR = 0x008"
definition EPOLLHUP :: epoll_mask where "EPOLLHUP = 0x010"
definition EPOLLRDHUP :: epoll_mask where "EPOLLRDHUP = 0x2000"

datatype trigger_event = IN_EVENT | OUT_EVENT | ERROR_EVENT

record 'c fd_event =
  fe_fd :: int
  m_listen_event :: epoll_mask
  m_read_callback :: "'c option"
  m_write_callback :: "'c option"
  m_error_callback :: "'c option"

section \<open>Operations\<close>

definition fe_reset :: "'c fd_event \<Rightarrow> 'c fd_event" where
  "fe_reset ev = ev\<lparr>m_listen_event := 0, m_read_callback := None, m_write_callback := None, m_error_callback := None\<rparr>"

definition newFd_Event :: "int \<Rightarrow> 'c fd_event" where
  "newFd_Event fd = fe_reset \<lparr>fe_fd = fd, m_listen_event = 0, m_read_callback = None,
     m_write_callback = None, m_error_callback = None\<rparr>"

fun handler :: "trigger_event \<Rightarrow> 'c fd_event \<Rightarrow> 'c option" where
  "handler IN_EVENT ev = m_read_callback ev"
| "handler OUT_EVENT ev = m_write_callback ev"
| "handler ERROR_EVENT ev = m_error_callback ev"

definition listen :: "trigger_event \<Rightarrow> 'c option \<Rightarrow> 'c option \<Rightarrow> 'c fd_event \<Rightarrow> 'c fd_event" where
  "listen event_type callback error_callback ev =
     (let ev = (case event_type of
          IN_EVENT \<Rightarrow> ev\<lparr>m_listen_event := m_listen_event ev OR (EPOLLIN OR EPOLLRDHUP), m_read_callback := callback\<rparr>
        | OUT_EVENT \<Rightarrow> ev\<lparr>m_listen_event := m_listen_event ev OR EPOLLOUT, m_write_callback := callback\<rparr>
        | ERROR_EVENT \<Rightarrow> ev\<lparr>m_error_callback := callback\<rparr>)
      in if error_callback \<noteq> None then ev\<lparr>m_error_callback := error_callback\<rparr> else ev)"

fun cancle :: "trigger_event \<Rightarrow> 'c fd_event \<Rightarrow> 'c fd_event" where
  "cancle IN_EVENT ev = ev\<lparr>m_listen_event := m_listen_event ev AND NOT (EPOLLIN OR EPOLLRDHUP)\<rparr>"
| "cancle OUT_EVENT ev = ev\<lparr>m_listen_event := m_listen_event ev AND NOT EPOLLOUT\<rparr>"
| "cancle ERROR_EVENT ev = ev"

text \<open>
  \<open>setNonBlock\<close>: given the result of \<open>fcntl(F_GETFL)\<close>, the argument of the \<open>F_SETFL\<close> call, if
  one is made.
\<close>

definition O_NONBLOCK :: "32 word" where
  "O_NONBLOCK = 0x800"

definition setNonBlock :: "32 word \<Rightarrow> 32 word option" where
  "setNonBlock flag =
     (if sint flag < 0 then None
      else if flag AND O_NONBLOCK \<noteq> 0 then None
      else Some (flag OR O_NONBLOCK))"

section \<open>The event group\<close>

record 'c fd_event_group =
  feg_size :: int
  m_fd_group :: "'c fd_event list"

definition newFdEventGroup :: "nat \<Rightarrow> 'c fd_event_group" where
  "newFdEventGroup n = \<lparr>feg_size = int n, m_fd_group = map (\<lambda>i. newFd_Event (int i)) [0..<n]\<rparr>"

text \<open>
  \<open>getFdEvent\<close> returns the index of the event whose address the code returns. A negative
  descriptor is an enormous \<open>size_t\<close>; \<open>int(fd * 1.5)\<close> truncates towards zero.
\<close>

definition scaled_size :: "int \<Rightarrow> int" where
  "scaled_size fd = (if 0 \<le> fd then (3 * fd) div 2 else - ((3 * (- fd)) div 2))"

definition getFdEvent :: "int \<Rightarrow> 'c fd_event_group \<Rightarrow> (nat \<times> 'c fd_event_group) cpp" where
  "getFdEvent fd g =
     (if 0 \<le> fd \<and> fd < int (length (m_fd_group g)) then Inr (nat fd, g)
      else
        bind_cpp (checked_int (scaled_size fd)) (\<lambda>new_size.
          let n = length (m_fd_group g);
              g = g\<lparr>m_fd_group := m_fd_group g @ map (\<lambda>i. newFd_Event (int i)) [n..<nat new_size]\<rparr>
          in if 0 \<le> fd \<and> fd < int (length (m_fd_group g)) then Inr (nat fd, g) else Inl OutOfRange))"

section \<open>Lemmas\<close>

definition interest :: "trigger_event \<Rightarrow> epoll_mask" where
  "interest e = (case e of IN_EVENT \<Rightarrow> EPOLLIN OR EPOLLRDHUP | OUT_EVENT \<Rightarrow> EPOLLOUT | ERROR_EVENT \<Rightarrow> 0)"

lemma listen_mask [simp]:
  "m_listen_event (listen e cb ecb ev) = m_listen_event ev OR interest e"
  by (simp add: listen_def interest_def Let_def split: trigger_event.splits)

lemma cancle_mask [simp]:
  "m_listen_event (cancle e ev) = m_listen_event ev AND NOT (interest e)"
  by (cases e) (simp_all add: interest_def)

lemma listen_fd [simp]: "fe_fd (listen e cb ecb ev) = fe_fd ev"
  by (simp add: listen_def Let_def split: trigger_event.splits)

lemma cancle_fd [simp]: "fe_fd (cancle e ev) = fe_fd ev"
  by (cases e) simp_all

lemma handler_listen:
  "handler e' (listen e cb ecb ev) =
     (if e' = ERROR_EVENT \<and> ecb \<noteq> None then ecb else if e' = e then cb else handler e' ev)"
  by (cases e; cases e') (simp_all add: listen_def Let_def)

definition group_ok :: "'c fd_event_group \<Rightarrow> bool" where
  "group_ok g \<longleftrightarrow> 2 \<le> length (m_fd_group g) \<and> (\<forall>i < length (m_fd_group g). fe_fd (m_fd_group g ! i) = int i)"

lemma newFd_Event_fd [simp]: "fe_fd (newFd_Event fd) = fd"
  by (simp add: newFd_Event_def fe_reset_def)

lemma group_ok_new: "2 \<le> n \<Longrightarrow> group_ok (newFdEventGroup n)"
  by (simp add: group_ok_def newFdEventGroup_def)

lemma getFdEvent_ok:
  assumes "group_ok g" and "0 \<le> fd" and "scaled_size fd \<le> INT_MAX"
  shows "\<exists>g'. getFdEvent fd g = Inr (nat fd, g') \<and> group_ok g' \<and> fd < int (length (m_fd_group g')) \<and>
           take (length (m_fd_group g)) (m_fd_group g') = m_fd_group g"
proof (cases "fd < int (length (m_fd_group g))")
  case True
  then show ?thesis using assms by (simp add: getFdEvent_def)
next
  case False
  define n new where "n = length (m_fd_group g)" and "new = nat (scaled_size fd)"
  define g' where "g' = g\<lparr>m_fd_group := m_fd_group g @ map (\<lambda>i. newFd_Event (int i)) [n..<new]\<rparr>"
  have n: "2 \<le> n" "int n \<le> fd"
    using assms(1) False by (auto simp: group_ok_def n_def)
  then have new: "fd < int new" "n \<le> new"
    using assms(2) by (auto simp: new_def scaled_size_def)
  have "INT_MIN \<le> scaled_size fd"
    using assms(2) by (auto simp: scaled_size_def intro!: INT_MIN_le_nonneg)
  then have "getFdEvent fd g = Inr (nat fd, g')"
    using assms n new by (simp add: getFdEvent_def g'_def n_def [symmetric] new_def [symmetric] Let_def)
  moreover have "group_ok g'"
    using assms(1) n by (auto simp: group_ok_def g'_def nth_append n_def [symmetric])
  ultimately show ?thesis
    using new n by (auto simp: g'_def n_def)
qed

section \<open>Properties\<close>

text \<open>
  Interest in a descriptor: \<open>listen\<close> adds exactly the bits of its event type and \<open>cancle\<close>
  removes exactly them, so subscribing to and unsubscribing from writing leaves the reading bits
  as they were; \<open>listen\<close> replaces the callback of its own type only, besides an error callback.
\<close>

theorem listen_cancle_interest:
  "m_listen_event (cancle e (listen e cb ecb ev)) = m_listen_event ev AND NOT (interest e) \<and>
   m_listen_event (cancle OUT_EVENT ev) AND interest IN_EVENT = m_listen_event ev AND interest IN_EVENT \<and>
   m_listen_event (listen OUT_EVENT cb ecb ev) AND interest IN_EVENT = m_listen_event ev AND interest IN_EVENT \<and>
   handler e' (listen e cb ecb ev) =
     (if e' = ERROR_EVENT \<and> ecb \<noteq> None then ecb else if e' = e then cb else handler e' ev)"
proof -
  have disj: "interest OUT_EVENT AND interest IN_EVENT = 0"
    by (simp add: interest_def EPOLLIN_def EPOLLRDHUP_def EPOLLOUT_def)
  have a: "(a OR i) AND NOT i = a AND NOT i" for a i :: epoll_mask
    by (simp add: bit.conj_disj_distrib2)
  have b: "(a OR o1) AND i = a AND i" "(a AND NOT o1) AND i = a AND i" if "o1 AND i = 0" for a o1 i :: epoll_mask
    using that by (auto simp: bit_eq_iff bit_simps)
  show ?thesis
    using b [OF disj] by (simp add: a handler_listen del: cancle.simps)
qed

text \<open>
  The group always has the event of a valid descriptor: asking for it never faults as long as
  one and a half times the descriptor fits an \<open>int\<close>, the event found carries that descriptor, all
  events handed out before stay where they are, and asking again changes nothing.
\<close>

theorem getFdEvent_total:
  assumes "group_ok g" and "0 \<le> fd" and "scaled_size fd \<le> INT_MAX"
  shows "\<exists>g'. getFdEvent fd g = Inr (nat fd, g') \<and> group_ok g' \<and> fe_fd (m_fd_group g' ! nat fd) = fd \<and>
           take (length (m_fd_group g)) (m_fd_group g') = m_fd_group g \<and>
           getFdEvent fd g' = Inr (nat fd, g')"
proof -
  obtain g' where g': "getFdEvent fd g = Inr (nat fd, g')" "group_ok g'" "fd < int (length (m_fd_group g'))"
      "take (length (m_fd_group g)) (m_fd_group g') = m_fd_group g"
    using getFdEvent_ok [OF assms] by blast
  moreover have "fe_fd (m_fd_group g' ! nat fd) = fd"
    using g'(2,3) assms(2) by (simp add: group_ok_def nat_less_iff)
  moreover have "getFdEvent fd g' = Inr (nat fd, g')"
    using g'(3) assms(2) by (simp add: getFdEvent_def)
  ultimately show ?thesis by blast
qed

theorem getFdEvent_total_witness:
  "\<exists>g'. getFdEvent 200 (newFdEventGroup 128 :: nat fd_event_group) = Inr (200, g') \<and> fe_fd (m_fd_group g' ! 200) = 200"
  using getFdEvent_total [OF group_ok_new, of 128 200]
  by (auto simp: scaled_size_def INT_MAX_def)

text \<open>
  A negative descriptor passes the range check of \<open>getFdEvent\<close> unnoticed and indexes the vector
  out of range.
\<close>

lemma getFdEvent_negative:
  assumes "fd < 0"
  shows "\<exists>e. getFdEvent fd g = Inl e"
  using assms by (cases "INT_MIN \<le> scaled_size fd \<and> scaled_size fd \<le> INT_MAX")
    (simp_all add: getFdEvent_def checked_int_def)

end
