(* ===== verification/StdMap.thy ===== *)
theory StdMap
  imports Prelude
begin

text \<open>
  \<open>std::map\<close> and \<open>std::multimap\<close> as key-ordered association lists, in the order the C++
  containers iterate. The operations are those the sources use: lookup (\<open>find\<close>), \<open>m[k] = v\<close>,
  \<open>insert\<close> (which keeps an existing entry), \<open>erase\<close> by key, and for the multimap \<open>emplace\<close>
  (behind the entries with an equal key). The locale \<open>dictionary\<close> states what a client of a map
  relies on and is interpreted on these operations.
\<close>

section \<open>\<open>std::map\<close>\<close>

type_synonym ('k, 'v) std_map = "('k \<times> 'v) list"

definition map_find :: "('k, 'v) std_map \<Rightarrow> 'k \<Rightarrow> 'v option" where
  "map_find m k = map_of m k"

fun map_assign :: "'k::linorder \<Rightarrow> 'v \<Rightarrow> ('k, 'v) std_map \<Rightarrow> ('k, 'v) std_map" where
  "map_assign k v [] = [(k, v)]"
| "map_assign k v ((k', v') # m) =
     (if k < k' then (k, v) # (k', v') # m
      else if k = k' then (k, v) # m
      else (k', v') # map_assign k v m)"

definition map_insert :: "'k::linorder \<Rightarrow> 'v \<Rightarrow> ('k, 'v) std_map \<Rightarrow> ('k, 'v) std_map" where
  "map_insert k v m = (case map_find m k of None \<Rightarrow> map_assign k v m | Some _ \<Rightarrow> m)"

definition map_erase :: "'k \<Rightarrow> ('k, 'v) std_map \<Rightarrow> ('k, 'v) std_map" where
  "map_erase k m = filter (\<lambda>e. fst e \<noteq> k) m"

definition map_ok :: "('k::linorder, 'v) std_map \<Rightarrow> bool" where
  "map_ok m \<longleftrightarrow> sorted_wrt (<) (map fst m)"

lemma map_ok_Nil [simp]: "map_ok []"
  by (simp add: map_ok_def)

lemma map_ok_Cons: "map_ok ((k, v) # m) \<longleftrightarrow> (\<forall>k' \<in> fst ` set m. k < k') \<and> map_ok m"
  by (simp add: map_ok_def)

lemma map_find_Nil [simp]: "map_find [] k = None"
  by (simp add: map_find_def)

lemma map_find_None: "map_find m k = None \<longleftrightarrow> k \<notin> fst ` set m"
  by (simp add: map_find_def map_of_eq_None_iff)

lemma keys_assign: "fst ` set (map_assign k v m) = insert k (fst ` set m)"
  by (induction k v m rule: map_assign.induct) auto

lemma map_ok_assign: "map_ok m \<Longrightarrow> map_ok (map_assign k v m)"
proof (induction k v m rule: map_assign.induct)
  case (2 k v k' v' m)
  then show ?case
    using keys_assign [of k v m] by (auto simp: map_ok_Cons)
qed (simp add: map_ok_def)

lemma map_find_assign:
  "map_ok m \<Longrightarrow> map_find (map_assign k v m) = (map_find m)(k \<mapsto> v)"
proof (induction k v m rule: map_assign.induct)
  case (2 k v k' v' m)
  then have "k = k' \<Longrightarrow> map_of m k = None"
    by (auto simp: map_ok_Cons map_of_eq_None_iff)
  with 2 show ?case
    by (auto simp: map_find_def map_ok_Cons fun_eq_iff)
qed (simp add: map_find_def fun_eq_iff)

lemma map_ok_filter: "map_ok m \<Longrightarrow> map_ok (filter P m)"
  by (induction m) (auto simp: map_ok_Cons split_beta)

lemma map_find_filter:
  assumes "map_ok m"
  shows "map_find (filter P m) k =
           (case map_find m k of None \<Rightarrow> None | Some v \<Rightarrow> if P (k, v) then Some v else None)"
  using assms
proof (induction m)
  case (Cons e m)
  obtain k' v' where e: "e = (k', v')" by (cases e)
  have "map_of m k' = None"
    using Cons.prems by (auto simp: e map_ok_Cons map_of_eq_None_iff)
  with Cons show ?case
    by (auto simp: e map_find_def map_ok_Cons split: option.splits)
qed simp

lemma map_ok_erase: "map_ok m \<Longrightarrow> map_ok (map_erase k m)"
  by (simp add: map_erase_def map_ok_filter)

lemma map_find_erase: "map_ok m \<Longrightarrow> map_find (map_erase k m) = (map_find m)(k := None)"
  by (auto simp: map_erase_def map_find_filter fun_eq_iff split: option.splits)

lemma map_ok_insert: "map_ok m \<Longrightarrow> map_ok (map_insert k v m)"
  by (simp add: map_insert_def map_ok_assign split: option.splits)

lemma map_find_insert:
  "map_ok m \<Longrightarrow> map_find (map_insert k v m) k' =
     (if k' = k \<and> map_find m k = None then Some v else map_find m k')"
  by (auto simp: map_insert_def map_find_assign split: option.splits)

lemma map_ok_distinct: "map_ok m \<Longrightarrow> distinct (map fst m)"
  by (simp add: map_ok_def strict_sorted_iff)

lemma map_entries: "map_ok m \<Longrightarrow> (k, v) \<in> set m \<longleftrightarrow> map_find m k = Some v"
  by (simp add: map_find_def map_ok_distinct)

section \<open>The dictionary interface\<close>

locale dictionary =
  fixes inv :: "'m \<Rightarrow> bool"
    and look :: "'m \<Rightarrow> 'k \<Rightarrow> 'v option"
    and put :: "'k \<Rightarrow> 'v \<Rightarrow> 'm \<Rightarrow> 'm"
    and del :: "'k \<Rightarrow> 'm \<Rightarrow> 'm"
  assumes inv_put: "inv m \<Longrightarrow> inv (put k v m)"
    and inv_del: "inv m \<Longrightarrow> inv (del k m)"
    and look_put: "inv m \<Longrightarrow> look (put k v m) = (look m)(k \<mapsto> v)"
    and look_del: "inv m \<Longrightarrow> look (del k m) = (look m)(k := None)"
begin

lemma put_twice: "inv m \<Longrightarrow> look (put k v (put k v' m)) = look (put k v m)"
  by (simp add: inv_put look_put)

lemma del_put: "inv m \<Longrightarrow> look m k = None \<Longrightarrow> look (del k (put k v m)) = look m"
  by (auto simp: inv_put look_put look_del)

lemma put_other: "inv m \<Longrightarrow> k \<noteq> k' \<Longrightarrow> look (put k v m) k' = look m k'"
  by (simp add: look_put)

lemma put_all:
  "inv m \<Longrightarrow> inv (fold (\<lambda>(k, v). put k v) kvs m) \<and>
     look (fold (\<lambda>(k, v). put k v) kvs m) = look m ++ map_of (rev kvs)"
  by (induction kvs arbitrary: m) (auto simp: inv_put look_put map_add_def fun_eq_iff split: option.splits)

lemma put_all_distinct:
  assumes "inv m" and "distinct (map fst kvs)" and "(k, v) \<in> set kvs"
  shows "look (fold (\<lambda>(k, v). put k v) kvs m) k = Some v"
  using put_all [OF assms(1), of kvs] assms(2,3) by (simp add: rev_map [symmetric])

end

interpretation stdmap: dictionary map_ok map_find map_assign map_erase
  by unfold_locales (simp_all add: map_ok_assign map_ok_erase map_find_assign map_find_erase)

section \<open>\<open>std::multimap\<close>\<close>

fun multimap_emplace :: "'k::linorder \<Rightarrow> 'v \<Rightarrow> ('k \<times> 'v) list \<Rightarrow> ('k \<times> 'v) list" where
  "multimap_emplace k v [] = [(k, v)]"
| "multimap_emplace k v ((k', v') # m) =
     (if k < k' then (k, v) # (k', v') # m else (k', v') # multimap_emplace k v m)"

definition multimap_ok :: "('k::linorder \<times> 'v) list \<Rightarrow> bool" where
  "multimap_ok m \<longleftrightarrow> sorted (map fst m)"

lemma multimap_emplace_split:
  "multimap_ok m \<Longrightarrow> multimap_emplace k v m =
     takeWhile (\<lambda>e. fst e \<le> k) m @ (k, v) # dropWhile (\<lambda>e. fst e \<le> k) m"
  by (induction k v m rule: multimap_emplace.induct) (auto simp: multimap_ok_def)

lemma set_multimap_emplace: "set (multimap_emplace k v m) = insert (k, v) (set m)"
  by (induction k v m rule: multimap_emplace.induct) auto

lemma multimap_ok_emplace: "multimap_ok m \<Longrightarrow> multimap_ok (multimap_emplace k v m)"
proof (induction k v m rule: multimap_emplace.induct)
  case (2 k v k' v' m)
  then show ?case
    using set_multimap_emplace [of k v m] by (force simp: multimap_ok_def)
qed (simp add: multimap_ok_def)

end
