(* ===== verification/TcpConnection.thy ===== *)
theory TcpConnection
  imports TinyPBProps FdEvent StdMap
begin

text \<open>
  A connection (\<open>net/tcp/tcp_connection.h\<close>, \<open>net/tcp/tcp_connection.cc\<close>): two buffers, the
  codec, the descriptor event and the callbacks that wait for messages. User callbacks are values
  of a type \<open>'d\<close>; calling one, and every call on the event loop or the kernel, appends an entry to
  \<open>effects\<close> in program order. The data the kernel delivers and the capacity it offers for writing
  are inputs: a list of arrivals, of which one \<open>read\<close> returns at most one (cut to the requested
  count, the remainder stays), and a list of results of \<open>write\<close>. An exhausted list is \<open>EAGAIN\<close>,
  as on a non-blocking socket. The connection is owned by a \<open>shared_ptr\<close>, so the weak references
  its callbacks take are alive. The effects \<open>SetRunTime\<close> and \<open>MethodCalled\<close> are those of the
  dispatcher on a connection's thread. \<open>excute\<close> hands each decoded request to a parameter \<open>dispatch\<close>,
  which is the dispatcher of the theory \<open>RpcDispatcher\<close>.
\<close>

section \<open>State\<close>

datatype tcp_state = NotConnected | Connected | HalfClosing | Closed

datatype connection_type = TcpConnectionByServer | TcpConnectionByClient

text \<open>The closures that \<open>listenRead\<close>, \<open>listenWrite\<close> and \<open>TcpClient::connect\<close> install.\<close>

datatype conn_callback = CallOnRead | CallOnWrite | CallClear | CallConnect

datatype 'd effect =
    AddEpollEvent epoll_mask
  | DeleteEpollEvent
  | CloseFd int
  | ShutdownFd int
  | ReadDone 'd protocol
  | WriteDone 'd protocol
  | DisconnectCallback 'd
  | SetRunTime string string
  | MethodCalled string string

record 'd tcp_connection =
  m_in_buffer :: tcp_buffer
  m_out_buffer :: tcp_buffer
  m_fd_event :: "conn_callback fd_event"
  m_state :: tcp_state
  tc_fd :: int
  m_connection_type :: connection_type
  m_write_dones :: "(protocol \<times> 'd) list"
  m_read_dones :: "(string, 'd) std_map"
  m_disconnect_callback :: "'d option"
  effects :: "'d effect list"
  sent :: "byte list"

definition newTcpConnection ::
  "conn_callback fd_event \<Rightarrow> int \<Rightarrow> int \<Rightarrow> connection_type \<Rightarrow> 'd tcp_connection cpp" where
  "newTcpConnection fd_event fd buffer_size type =
     bind_cpp (newTcpBuffer buffer_size) (\<lambda>i.
     bind_cpp (newTcpBuffer buffer_size) (\<lambda>ob.
       Inr \<lparr>m_in_buffer = i, m_out_buffer = ob, m_fd_event = fd_event, m_state = NotConnected, tc_fd = fd,
            m_connection_type = type, m_write_dones = [], m_read_dones = [], m_disconnect_callback = None,
            effects = [], sent = []\<rparr>))"

definition emit :: "'d effect list \<Rightarrow> 'd tcp_connection \<Rightarrow> 'd tcp_connection" where
  "emit es c = c\<lparr>effects := effects c @ es\<rparr>"

definition setState :: "tcp_state \<Rightarrow> 'd tcp_connection \<Rightarrow> 'd tcp_connection" where
  "setState state c = c\<lparr>m_state := Connected\<rparr>"

definition setConnectionType :: "connection_type \<Rightarrow> 'd tcp_connection \<Rightarrow> 'd tcp_connection" where
  "setConnectionType type c = c\<lparr>m_connection_type := type\<rparr>"

definition pushSendMessage :: "protocol \<Rightarrow> 'd \<Rightarrow> 'd tcp_connection \<Rightarrow> 'd tcp_connection" where
  "pushSendMessage message cb c = c\<lparr>m_write_dones := m_write_dones c @ [(message, cb)]\<rparr>"

definition pushReadMessage :: "string \<Rightarrow> 'd \<Rightarrow> 'd tcp_connection \<Rightarrow> 'd tcp_connection" where
  "pushReadMessage msg_id cb c = c\<lparr>m_read_dones := map_insert msg_id cb (m_read_dones c)\<rparr>"

definition removeReadMessage :: "string \<Rightarrow> 'd tcp_connection \<Rightarrow> 'd tcp_connection" where
  "removeReadMessage msg_id c = c\<lparr>m_read_dones := map_erase msg_id (m_read_dones c)\<rparr>"

definition setDisconnectCallback :: "'d option \<Rightarrow> 'd tcp_connection \<Rightarrow> 'd tcp_connection" where
  "setDisconnectCallback cb c = c\<lparr>m_disconnect_callback := cb\<rparr>"

section \<open>Closing\<close>

definition clear :: "'d tcp_connection \<Rightarrow> 'd tcp_connection" where
  "clear c =
     (if m_state c = Closed \<and> tc_fd c < 0 then c
      else
        let fd = tc_fd c;
            c = c\<lparr>tc_fd := - 1, m_state := Closed\<rparr>;
            c = c\<lparr>m_fd_event := cancle OUT_EVENT (cancle IN_EVENT (m_fd_event c))\<rparr>;
            c = emit [DeleteEpollEvent] c;
            c = c\<lparr>m_fd_event := fe_reset (m_fd_event c)\<rparr>;
            c = (if 0 \<le> fd then emit [CloseFd fd] c else c);
            c = c\<lparr>m_read_dones := [], m_write_dones := []\<rparr>;
            disconnect_callback = m_disconnect_callback c;
            c = c\<lparr>m_disconnect_callback := None\<rparr>
        in case disconnect_callback of None \<Rightarrow> c | Some cb \<Rightarrow> emit [DisconnectCallback cb] c)"

definition shutdown :: "'d tcp_connection \<Rightarrow> 'd tcp_connection" where
  "shutdown c =
     (if m_state c = Closed \<or> m_state c = NotConnected then c
      else
        let c = c\<lparr>m_state := HalfClosing\<rparr> in
        if 0 \<le> tc_fd c then emit [ShutdownFd (tc_fd c)] c else c)"

section \<open>Interest in the descriptor\<close>

definition addEpoll :: "'d tcp_connection \<Rightarrow> 'd tcp_connection" where
  "addEpoll c = emit [AddEpollEvent (m_listen_event (m_fd_event c))] c"

definition listenWrite :: "'d tcp_connection \<Rightarrow> 'd tcp_connection" where
  "listenWrite c =
     (if m_state c = Closed \<or> tc_fd c < 0 then c
      else addEpoll (c\<lparr>m_fd_event := listen OUT_EVENT (Some CallOnWrite) (Some CallClear) (m_fd_event c)\<rparr>))"

definition listenRead :: "'d tcp_connection \<Rightarrow> 'd tcp_connection" where
  "listenRead c =
     (if m_state c = Closed \<or> tc_fd c < 0 then c
      else addEpoll (c\<lparr>m_fd_event := listen IN_EVENT (Some CallOnRead) (Some CallClear) (m_fd_event c)\<rparr>))"

section \<open>Reading\<close>

datatype sys_read = ReadData "byte list" | ReadErrno int

definition EINTR :: int where
  "EINTR = 4"

definition EAGAIN_ERRNO :: int where
  "EAGAIN_ERRNO = 11"

text \<open>\<open>2 * m_buffer.size()\<close> is a \<open>size_t\<close> converted to \<open>int\<close>.\<close>

definition size_to_int :: "int \<Rightarrow> int" where
  "size_to_int n = sint (word_of_int n :: int32)"

definition make_room :: "tcp_buffer \<Rightarrow> tcp_buffer cpp" where
  "make_room b =
     (if writeAble b = 0 then resizeBuffer (size_to_int (2 * int (length (m_buffer b)))) b else Inr b)"

text \<open>
  One iteration of the loop of \<open>onRead\<close>: it breaks, with \<open>is_close\<close>, or continues.
  \<open>EWOULDBLOCK\<close> equals \<open>EAGAIN\<close>. \<open>read\<close> stores its bytes behind the write index before
  \<open>moveWriteIndex\<close> publishes them.
\<close>

datatype read_action = ReadBreak bool tcp_buffer "sys_read list" | ReadContinue tcp_buffer "sys_read list"

definition read_once :: "sys_read list \<Rightarrow> tcp_buffer \<Rightarrow> read_action cpp" where
  "read_once reads b0 =
     bind_cpp (make_room b0) (\<lambda>b.
     let read_count = writeAble b; write_index = writeIndex b in
     case reads of
       [] \<Rightarrow> Inr (ReadBreak False b [])
     | ReadErrno e # rest \<Rightarrow>
         if e = EAGAIN_ERRNO then Inr (ReadBreak False b rest)
         else if e = EINTR then Inr (ReadContinue b rest)
         else Inr (ReadBreak True b rest)
     | ReadData bs # rest \<Rightarrow>
         let rt = min (int (length bs)) read_count;
             got = take (nat rt) bs;
             rest' = (if got = bs then rest else ReadData (drop (nat rt) bs) # rest)
         in if 0 < rt then
              bind_cpp (memcpy (m_buffer b) write_index got 0 rt) (\<lambda>v.
              bind_cpp (moveWriteIndex rt (b\<lparr>m_buffer := v\<rparr>)) (\<lambda>b'.
                Inr (if rt = read_count then ReadContinue b' rest' else ReadBreak False b' rest')))
            else Inr (ReadBreak True b rest'))"

fun read_weight :: "sys_read list \<Rightarrow> nat" where
  "read_weight [] = 0"
| "read_weight (ReadData bs # rs) = Suc (length bs) + read_weight rs"
| "read_weight (ReadErrno e # rs) = Suc (read_weight rs)"

lemma read_once_consumes:
  assumes "read_once reads b = Inr (ReadContinue b' rest)"
  shows "read_weight rest < read_weight reads"
proof (cases reads)
  case Nil
  with assms show ?thesis by (auto simp: read_once_def bind_cpp_eq_Inr)
next
  case (Cons r rs)
  show ?thesis
  proof (cases r)
    case (ReadErrno e)
    with assms Cons show ?thesis
      by (auto simp: read_once_def bind_cpp_eq_Inr Let_def split: if_splits)
  next
    case (ReadData bs)
    with assms Cons obtain x where "0 < min (int (length bs)) (writeAble x)"
      "rest = rs \<or> rest = ReadData (drop (nat (min (int (length bs)) (writeAble x))) bs) # rs"
      by (auto simp: read_once_def bind_cpp_eq_Inr Let_def split: if_splits)
    then show ?thesis
      by (auto simp: Cons ReadData min_def split: if_splits)
  qed
qed

function read_loop :: "sys_read list \<Rightarrow> tcp_buffer \<Rightarrow> (bool \<times> tcp_buffer \<times> sys_read list) cpp" where
  "read_loop reads b =
     (case read_once reads b of
        Inl e \<Rightarrow> Inl e
      | Inr (ReadBreak is_close b' rest) \<Rightarrow> Inr (is_close, b', rest)
      | Inr (ReadContinue b' rest) \<Rightarrow> read_loop rest b')"
  by pat_completeness auto
termination
  by (relation "measure (\<lambda>(reads, b). read_weight reads)") (auto dest: read_once_consumes)

declare read_loop.simps [simp del]

section \<open>Handling messages\<close>

definition run_read_done :: "tinypb \<Rightarrow> 'd tcp_connection \<Rightarrow> 'd tcp_connection" where
  "run_read_done m c =
     (case map_find (m_read_dones c) (m_msg_id m) of
        None \<Rightarrow> c
      | Some cb \<Rightarrow>
          emit [ReadDone cb (TinyPB m)] (c\<lparr>m_read_dones := map_erase (m_msg_id m) (m_read_dones c)\<rparr>))"

definition excute ::
  "(tinypb \<Rightarrow> tinypb \<Rightarrow> 'd tcp_connection \<Rightarrow> 'd tcp_connection cpp) \<Rightarrow> 'd tcp_connection \<Rightarrow> 'd tcp_connection cpp" where
  "excute dispatch c =
     bind_cpp (decode [] (m_in_buffer c)) (\<lambda>(result, b).
       let c = c\<lparr>m_in_buffer := b\<rparr> in
       if m_connection_type c = TcpConnectionByServer
       then fold_cpp (\<lambda>i. dispatch i newTinyPB) result c
       else Inr (fold run_read_done result c))"

definition onRead ::
  "(tinypb \<Rightarrow> tinypb \<Rightarrow> 'd tcp_connection \<Rightarrow> 'd tcp_connection cpp) \<Rightarrow> sys_read list \<Rightarrow> 'd tcp_connection \<Rightarrow>
     ('d tcp_connection \<times> sys_read list) cpp" where
  "onRead dispatch reads c =
     (if m_state c \<noteq> Connected \<or> tc_fd c < 0 then Inr (c, reads)
      else
        bind_cpp (read_loop reads (m_in_buffer c)) (\<lambda>(is_close, b, rest).
          let c = c\<lparr>m_in_buffer := b\<rparr> in
          if is_close then Inr (clear c, rest)
          else bind_cpp (excute dispatch c) (\<lambda>c. Inr (c, rest))))"

section \<open>Writing\<close>

text \<open>\<open>reply\<close> also returns the messages as \<open>encode\<close> left them: they are shared with the caller.\<close>

definition reply :: "protocol list \<Rightarrow> 'd tcp_connection \<Rightarrow> (protocol list \<times> 'd tcp_connection) cpp" where
  "reply replay_messages c =
     bind_cpp (encode replay_messages (m_out_buffer c)) (\<lambda>(messages, b).
       Inr (messages, listenWrite (c\<lparr>m_out_buffer := b\<rparr>)))"

datatype sys_write = WriteAccepts nat | WriteErrno int

datatype write_end = WroteAll | WriteAgain | WriteFailed

text \<open>The loop of \<open>onWrite\<close>: how it ends, the buffer, and the bytes handed to the kernel.\<close>

fun write_loop :: "sys_write list \<Rightarrow> tcp_buffer \<Rightarrow> (write_end \<times> tcp_buffer \<times> byte list) cpp" where
  "write_loop writes b =
     (if readAble b = 0 then Inr (WroteAll, b, [])
      else
        case writes of
          [] \<Rightarrow> Inr (WriteAgain, b, [])
        | WriteErrno e # rest \<Rightarrow>
            if e = EAGAIN_ERRNO then Inr (WriteAgain, b, [])
            else if e = EINTR then write_loop rest b
            else Inr (WriteFailed, b, [])
        | WriteAccepts n # rest \<Rightarrow>
            let write_size = readAble b;
                rt = min (int n) write_size;
                out = take (nat rt) (drop (nat (readIndex b)) (m_buffer b))
            in if 0 < rt then
                 bind_cpp (moveReadIndex rt b) (\<lambda>b'.
                 bind_cpp (write_loop rest b') (\<lambda>(ending, b'', out'). Inr (ending, b'', out @ out')))
               else Inr (WriteAgain, b, []))"

declare write_loop.simps [simp del]

definition onWrite :: "sys_write list \<Rightarrow> 'd tcp_connection \<Rightarrow> 'd tcp_connection cpp" where
  "onWrite writes c =
     (if m_state c \<noteq> Connected \<or> tc_fd c < 0 then Inr c
      else
        bind_cpp (if m_connection_type c = TcpConnectionByClient \<and> readAble (m_out_buffer c) = 0
                  then encode (map fst (m_write_dones c)) (m_out_buffer c)
                  else Inr (map fst (m_write_dones c), m_out_buffer c)) (\<lambda>(messages, b).
        let c = c\<lparr>m_write_dones := zip messages (map snd (m_write_dones c))\<rparr> in
        bind_cpp (write_loop writes b) (\<lambda>(ending, b', out).
        let c = c\<lparr>m_out_buffer := b', sent := sent c @ out\<rparr>;
            c = (if ending = WriteFailed then clear c else c);
            is_write_all = (ending = WroteAll);
            c = (if is_write_all
                 then addEpoll (c\<lparr>m_fd_event := cancle OUT_EVENT (m_fd_event c)\<rparr>) else c)
        in Inr (if m_connection_type c = TcpConnectionByClient \<and> is_write_all
                then (emit [WriteDone cb m. (m, cb) \<leftarrow> m_write_dones c] c)\<lparr>m_write_dones := []\<rparr>
                else c))))"

section \<open>The read loop\<close>

text \<open>The bytes that the kernel still has for us, in order.\<close>

fun arriving :: "sys_read list \<Rightarrow> byte list" where
  "arriving [] = []"
| "arriving (ReadData bs # rs) = bs @ arriving rs"
| "arriving (ReadErrno e # rs) = arriving rs"

text \<open>The stream ends or fails: an end of file, or an error other than \<open>EAGAIN\<close> and \<open>EINTR\<close>.\<close>

definition closing :: "sys_read list \<Rightarrow> bool" where
  "closing reads \<longleftrightarrow> (\<exists>r \<in> set reads. r = ReadData [] \<or> (\<exists>e. r = ReadErrno e \<and> e \<noteq> EAGAIN_ERRNO \<and> e \<noteq> EINTR))"

text \<open>Room for \<open>k\<close> more bytes while the capacity, which the loop doubles, fits an \<open>int\<close>.\<close>

definition in_buffer_ok :: "tcp_buffer \<Rightarrow> nat \<Rightarrow> bool" where
  "in_buffer_ok b k \<longleftrightarrow> buffer_ok b \<and> 0 < length (m_buffer b) \<and> 2 * (m_write_index b + int k) \<le> INT_MAX"

lemma in_buffer_okD: "in_buffer_ok b k \<Longrightarrow> buffer_ok b" "in_buffer_ok b k \<Longrightarrow> 0 < length (m_buffer b)"
  by (simp_all add: in_buffer_ok_def)

lemma in_buffer_ok_mono: "in_buffer_ok b k \<Longrightarrow> j \<le> k \<Longrightarrow> in_buffer_ok b j"
  by (simp add: in_buffer_ok_def)

lemma write_index_contents: "buffer_ok b \<Longrightarrow> m_write_index b = m_read_index b + int (length (contents b))"
  using readAble_contents [of b] by (simp add: readAble_def)

lemma make_room_ok:
  assumes "in_buffer_ok b k"
  shows "\<exists>b'. make_room b = Inr b' \<and> in_buffer_ok b' k \<and> contents b' = contents b \<and> 0 < writeAble b'"
proof (cases "writeAble b = 0")
  case False
  then show ?thesis
    using assms writeAble_nonneg [of b] by (auto simp: make_room_def in_buffer_ok_def)
next
  case True
  define n where "n = 2 * int (length (m_buffer b))"
  have b: "buffer_ok b" "0 < length (m_buffer b)"
    using assms by (simp_all add: in_buffer_ok_def)
  have full: "int (length (m_buffer b)) = m_write_index b" "0 \<le> m_read_index b"
    using True b(1) by (simp_all add: writeAble_def buffer_ok_def)
  have "n \<le> INT_MAX"
    using assms full(1) by (simp add: n_def in_buffer_ok_def)
  moreover have "int (length (contents b)) < n"
    using write_index_contents [OF b(1)] full b(2) unfolding n_def by linarith
  ultimately have n: "0 \<le> n" "n \<le> INT_MAX" "int (length (contents b)) < n"
    by (simp_all add: n_def)
  from n have "size_to_int n = n"
    by (simp add: size_to_int_def sint_word_of_int_32 INT_MIN_le_nonneg)
  moreover obtain b' where b': "resizeBuffer n b = Inr b'" "buffer_ok b'" "contents b' = take (nat n) (contents b)"
      "length (m_buffer b') = nat n" "m_read_index b' = 0"
    using resizeBuffer_ok [OF b(1) n(1,2)] by blast
  moreover have eq: "contents b' = contents b"
    using b'(3) n(3) by simp
  moreover have w: "m_write_index b' = int (length (contents b))"
    using write_index_contents [OF b'(2)] b'(5) eq by (simp only: add_0)
  have "m_write_index b' \<le> m_write_index b"
    using w full(2) write_index_contents [OF b(1)] by linarith
  then have "in_buffer_ok b' k"
    using assms b'(2,4) b(2) by (simp add: in_buffer_ok_def n_def)
  moreover have "0 < writeAble b'"
    using b'(4) n(1,3) w by (simp add: writeAble_def)
  ultimately show ?thesis
    using True by (simp add: make_room_def n_def)
qed

lemma store_then_publish:
  assumes "in_buffer_ok b (length got + k)" and "int (length got) \<le> writeAble b"
  shows "\<exists>v b'. memcpy (m_buffer b) (writeIndex b) got 0 (int (length got)) = Inr v \<and>
           moveWriteIndex (int (length got)) (b\<lparr>m_buffer := v\<rparr>) = Inr b' \<and>
           in_buffer_ok b' k \<and> contents b' = contents b @ got"
proof -
  define n where "n = int (length got)"
  define w where "w = nat (m_write_index b)"
  define v where "v = take w (m_buffer b) @ got @ drop (w + length got) (m_buffer b)"
  define b1 where "b1 = b\<lparr>m_buffer := v\<rparr>"
  have ok: "buffer_ok b" "0 < length (m_buffer b)"
    using assms(1) by (simp_all add: in_buffer_ok_def)
  have w: "m_write_index b = int w" "w + length got \<le> length (m_buffer b)"
    using ok assms(2) by (auto simp: w_def buffer_defs)
  have cpy: "memcpy (m_buffer b) (writeIndex b) got 0 n = Inr v"
    using w by (simp add: memcpy_def writeIndex_def n_def v_def nat_add_distrib)
  have len: "length v = length (m_buffer b)"
    using w(2) by (simp add: v_def)
  have b1: "buffer_ok b1" "contents b1 = contents b" "writeAble b1 = writeAble b" "spare b1 = got @ drop (w + length got) (m_buffer b)"
    using ok(1) w len by (auto simp: b1_def buffer_defs spare_def v_def drop_take nat_diff_distrib)
  obtain b' where b': "moveWriteIndex n b1 = Inr b'" "buffer_ok b'" "contents b' = contents b1 @ take (nat n) (spare b1)"
      "length (m_buffer b') = length (m_buffer b1)"
    using moveWriteIndex_ok [OF b1(1), of n] assms(2) b1(3) by (auto simp: n_def)
  have "m_write_index b' \<le> m_write_index b + n"
    using b'(1) adjustBuffer_write_index [of "b1\<lparr>m_write_index := m_write_index b + n\<rparr>" b'] ok(1)
    by (auto simp: moveWriteIndex_def bind_cpp_eq_Inr b1_def n_def buffer_ok_def split: if_splits)
  then have "in_buffer_ok b' k"
    using assms(1) b'(2,4) len by (auto simp: in_buffer_ok_def b1_def n_def)
  with cpy b' b1(2,4) show ?thesis
    by (auto simp: n_def b1_def)
qed

lemma read_once_ok:
  assumes "in_buffer_ok b (length (arriving reads) + k)"
  shows "\<exists>act b' rest data. read_once reads b = Inr act \<and>
           (act = ReadContinue b' rest \<or> (\<exists>close. act = ReadBreak close b' rest)) \<and>
           arriving reads = data @ arriving rest \<and> in_buffer_ok b' (length (arriving rest) + k) \<and>
           contents b' = contents b @ data \<and>
           (closing rest \<or> act = ReadBreak True b' rest \<longrightarrow> closing reads)"
proof -
  obtain b1 where b1: "make_room b = Inr b1" "in_buffer_ok b1 (length (arriving reads) + k)"
      "contents b1 = contents b" "0 < writeAble b1"
    using make_room_ok [OF assms] by blast
  show ?thesis
  proof (cases reads)
    case Nil
    with b1 show ?thesis
      by (intro exI [of _ "ReadBreak False b1 []"] exI [of _ b1] exI [of _ "[]"] exI [of _ "[]"])
        (auto simp: read_once_def)
  next
    case (Cons r rs)
    show ?thesis
    proof (cases r)
      case (ReadErrno e)
      have "\<exists>act. read_once reads b = Inr act \<and> (act = ReadContinue b1 rs \<or> (\<exists>close. act = ReadBreak close b1 rs)) \<and>
          (closing rs \<or> act = ReadBreak True b1 rs \<longrightarrow> closing reads)"
        using b1(1) by (auto simp: read_once_def Cons ReadErrno closing_def)
      with b1 Cons ReadErrno show ?thesis by fastforce
    next
      case (ReadData bs)
      define rt where "rt = min (int (length bs)) (writeAble b1)"
      define got where "got = take (nat rt) bs"
      define rest where "rest = (if got = bs then rs else ReadData (drop (nat rt) bs) # rs)"
      have rt: "rt = int (length got)" "rt \<le> writeAble b1"
        using b1(4) by (auto simp: rt_def got_def min_def)
      have cl: "closing rest \<Longrightarrow> closing reads" "\<not> 0 < rt \<Longrightarrow> closing reads"
        using b1(4) by (auto simp: closing_def Cons ReadData rest_def got_def rt_def split: if_splits)
      have split: "arriving reads = got @ arriving rest"
        by (auto simp: Cons ReadData rest_def got_def)
      obtain v b2 where b2: "memcpy (m_buffer b1) (writeIndex b1) got 0 rt = Inr v"
          "moveWriteIndex rt (b1\<lparr>m_buffer := v\<rparr>) = Inr b2" "in_buffer_ok b2 (length (arriving rest) + k)"
          "contents b2 = contents b1 @ got"
        using store_then_publish [of b1 got "length (arriving rest) + k"] b1(2) rt by (auto simp: split add.assoc)
      have once: "read_once reads b = (if 0 < rt
          then Inr (if rt = writeAble b1 then ReadContinue b2 rest else ReadBreak False b2 rest)
          else Inr (ReadBreak True b1 rest))"
        unfolding read_once_def b1(1) bind_cpp_Inr Cons ReadData list.case sys_read.case Let_def
          rt_def [symmetric] got_def [symmetric] rest_def [symmetric] b2(1) b2(2) ..
      show ?thesis
      proof (cases "0 < rt")
        case True
        with once b2 b1(3) split cl(1) show ?thesis by (cases "rt = writeAble b1") auto
      next
        case False
        then have "got = []" using rt(1) by simp
        with False once b1(2,3) split cl(2) show ?thesis by auto
      qed
    qed
  qed
qed

text \<open>Nothing of the stream is lost, invented or reordered between the kernel and the in buffer.\<close>

lemma read_loop_ok:
  assumes "in_buffer_ok b (length (arriving reads) + k)"
  shows "\<exists>close b' rest data. read_loop reads b = Inr (close, b', rest) \<and>
           arriving reads = data @ arriving rest \<and> in_buffer_ok b' (length (arriving rest) + k) \<and>
           contents b' = contents b @ data \<and> (closing rest \<or> close \<longrightarrow> closing reads)"
  using assms
proof (induction reads b rule: read_loop.induct)
  case (1 reads b)
  obtain act b1 rest data where once: "read_once reads b = Inr act"
      "act = ReadContinue b1 rest \<or> (\<exists>close. act = ReadBreak close b1 rest)"
      "arriving reads = data @ arriving rest" "in_buffer_ok b1 (length (arriving rest) + k)"
      "contents b1 = contents b @ data" "closing rest \<or> act = ReadBreak True b1 rest \<longrightarrow> closing reads"
    using read_once_ok [OF "1.prems"] by blast
  show ?case
  proof (cases act)
    case (ReadBreak close b2 rest2)
    with once show ?thesis by (auto simp: read_loop.simps [of reads b])
  next
    case (ReadContinue b2 rest2)
    with once have act: "act = ReadContinue b1 rest" by auto
    from "1.IH" [OF once(1) act once(4)] obtain close b' rest' data' where
      "read_loop rest b1 = Inr (close, b', rest')" "arriving rest = data' @ arriving rest'"
      "in_buffer_ok b' (length (arriving rest') + k)" "contents b' = contents b1 @ data'"
      "closing rest' \<or> close \<longrightarrow> closing rest"
      by blast
    with once act show ?thesis
      by (intro exI [of _ close] exI [of _ b'] exI [of _ rest'] exI [of _ "data @ data'"])
        (simp add: read_loop.simps [of reads b])
  qed
qed

text \<open>A single arrival is taken completely, however large it is.\<close>

lemma read_loop_chunk:
  assumes "in_buffer_ok b (length (arriving reads) + k)" and "reads = [] \<or> (\<exists>bs. reads = [ReadData bs] \<and> bs \<noteq> [])"
    and "read_loop reads b = Inr (close, b', rest)"
  shows "\<not> close \<and> rest = []"
  using assms
proof (induction reads b rule: read_loop.induct)
  case (1 reads b)
  obtain act b1 rest1 where once: "read_once reads b = Inr act" "in_buffer_ok b1 (length (arriving rest1) + k)"
      "act = ReadContinue b1 rest1 \<or> (\<exists>close. act = ReadBreak close b1 rest1)"
    using read_once_ok [OF "1.prems"(1)] by blast
  obtain b0 where b0: "make_room b = Inr b0" "0 < writeAble b0"
    using make_room_ok [OF "1.prems"(1)] by blast
  have shape: "act = ReadBreak False b1 [] \<or>
      act = ReadContinue b1 rest1 \<and> (rest1 = [] \<or> (\<exists>bs. rest1 = [ReadData bs] \<and> bs \<noteq> []))"
    using "1.prems"(2) once(1,3) b0
    by (auto simp: read_once_def bind_cpp_eq_Inr Let_def min_def split: if_splits)
  show ?case
  proof (cases "act = ReadBreak False b1 []")
    case True
    with "1.prems"(3) once(1) show ?thesis by (simp add: read_loop.simps [of reads b])
  next
    case False
    with shape have act: "act = ReadContinue b1 rest1" "rest1 = [] \<or> (\<exists>bs. rest1 = [ReadData bs] \<and> bs \<noteq> [])"
      by auto
    with "1.IH" [OF once(1) act(1) once(2) act(2)] "1.prems"(3) once(1) show ?thesis
      by (simp add: read_loop.simps [of reads b])
  qed
qed

section \<open>The write loop\<close>

lemma write_loop_ok:
  assumes "buffer_ok b"
  shows "\<exists>ending b' out. write_loop writes b = Inr (ending, b', out) \<and> buffer_ok b' \<and>
           contents b = out @ contents b' \<and> (ending = WroteAll \<longleftrightarrow> contents b' = []) \<and>
           m_write_index b' \<le> m_write_index b"
  using assms
proof (induction writes arbitrary: b)
  case Nil
  then show ?case
    by (cases "readAble b = 0") (simp_all add: write_loop.simps [of "[]"] contents_empty)
next
  case (Cons w ws)
  show ?case
  proof (cases "readAble b = 0")
    case True
    with Cons.prems show ?thesis
      by (simp add: write_loop.simps [of "w # ws"] contents_empty)
  next
    case False
    show ?thesis
    proof (cases w)
      case (WriteErrno e)
      then show ?thesis
        using Cons False by (auto simp: write_loop.simps [of "WriteErrno e # ws"] contents_empty)
    next
      case (WriteAccepts n)
      define rt where "rt = min (int n) (readAble b)"
      have rt: "0 \<le> rt" "rt \<le> readAble b"
        using readAble_nonneg [OF Cons.prems] by (auto simp: rt_def)
      have out: "take (nat rt) (drop (nat (readIndex b)) (m_buffer b)) = take (nat rt) (contents b)"
        using contents_slice [OF Cons.prems, of 0 rt] rt by (simp add: readIndex_def)
      obtain b1 where b1: "moveReadIndex rt b = Inr b1" "buffer_ok b1" "contents b1 = drop (nat rt) (contents b)"
        using moveReadIndex_ok [OF Cons.prems rt] by auto
      have w1: "0 < rt \<Longrightarrow> m_write_index b1 \<le> m_write_index b"
        using moveReadIndexIfNeeded_room [of rt b b1] b1(1) Cons.prems
        by (simp add: moveReadIndexIfNeeded_def buffer_ok_def keeps_room_def)
      obtain ending b' out' where rest: "write_loop ws b1 = Inr (ending, b', out')" "buffer_ok b'"
          "contents b1 = out' @ contents b'" "ending = WroteAll \<longleftrightarrow> contents b' = []"
          "m_write_index b' \<le> m_write_index b1"
        using Cons.IH [OF b1(2)] by blast
      have "contents b = (take (nat rt) (contents b) @ out') @ contents b'"
        using b1(3) rest(3) by (metis append.assoc append_take_drop_id)
      moreover have "0 < rt \<Longrightarrow> m_write_index b' \<le> m_write_index b"
        using w1 rest(5) by simp
      moreover have "0 < rt \<longleftrightarrow> 0 < n"
        using False readAble_nonneg [OF Cons.prems] by (auto simp: rt_def)
      ultimately show ?thesis
        using False b1(1,2) rest(1,2,4) Cons.prems
        by (auto simp: write_loop.simps [of "WriteAccepts n # ws"] WriteAccepts Let_def rt_def [symmetric] out contents_empty)
    qed
  qed
qed

text \<open>A kernel that takes everything gets everything.\<close>

lemma write_loop_all:
  assumes "buffer_ok b" and "length (contents b) \<le> n"
  shows "\<exists>b'. write_loop [WriteAccepts n] b = Inr (WroteAll, b', contents b) \<and> buffer_ok b' \<and> contents b' = [] \<and>
           m_write_index b' \<le> m_write_index b"
proof -
  obtain ending b' out where w: "write_loop [WriteAccepts n] b = Inr (ending, b', out)" "buffer_ok b'"
      "contents b = out @ contents b'" "ending = WroteAll \<longleftrightarrow> contents b' = []" "m_write_index b' \<le> m_write_index b"
    using write_loop_ok [OF assms(1)] by blast
  have "contents b' = []"
  proof (cases "readAble b = 0")
    case True
    then have "contents b = []" using assms(1) contents_empty by blast
    with w(3) show ?thesis by simp
  next
    case False
    define rt where "rt = readAble b"
    have rt: "rt = int (length (contents b))" "0 < rt" "min (int n) rt = rt"
      using readAble_contents [OF assms(1)] False assms(2) readAble_nonneg [OF assms(1)] by (auto simp: rt_def)
    obtain b1 where b1: "moveReadIndex rt b = Inr b1" "buffer_ok b1" "contents b1 = []"
      using moveReadIndex_ok [OF assms(1), of rt] rt by (auto simp: rt_def)
    then have "readAble b1 = 0"
      using contents_empty by blast
    then have "write_loop [] b1 = Inr (WroteAll, b1, [])"
      by (simp add: write_loop.simps)
    with w(1) b1 rt False show ?thesis
      by (auto simp: write_loop.simps [of "[WriteAccepts n]"] rt_def [symmetric] Let_def split: if_splits)
  qed
  with w show ?thesis by auto
qed

end
