(* ===== verification/ConnectionProps.thy ===== *)
theory ConnectionProps
  imports TcpConnection
begin

text \<open>
  The guarantees of a connection: the bytes of the peer reach the decoder complete and in order,
  a response reaches the callback that waits for its message id exactly once, what is encoded is
  sent complete and in order whatever the kernel accepts at a time, and closing happens once.
\<close>

text \<open>A connection as it is after a successful connect or accept, with empty buffers of 128 bytes.\<close>

definition opened :: "connection_type \<Rightarrow> int \<Rightarrow> 'd tcp_connection" where
  "opened type fd = \<lparr>m_in_buffer = \<lparr>m_read_index = 0, m_write_index = 0, m_size = 128, m_buffer = replicate 128 (CHR 0x00)\<rparr>,
     m_out_buffer = \<lparr>m_read_index = 0, m_write_index = 0, m_size = 128, m_buffer = replicate 128 (CHR 0x00)\<rparr>,
     m_fd_event = newFd_Event fd, m_state = Connected, tc_fd = fd, m_connection_type = type,
     m_write_dones = [], m_read_dones = [], m_disconnect_callback = None, effects = [], sent = []\<rparr>"

lemma opened_new:
  "newTcpConnection (newFd_Event fd) fd 128 type = Inr c \<Longrightarrow> setState Connected c = opened type fd"
  by (auto simp: newTcpConnection_def newTcpBuffer_def new_vector_def setState_def opened_def bind_cpp_eq_Inr)

section \<open>Delivery of responses\<close>

fun answers :: "string \<Rightarrow> 'd effect \<Rightarrow> bool" where
  "answers k (ReadDone cb (TinyPB m)) = (m_msg_id m = k)"
| "answers k e = False"

definition response_for :: "(string, 'd) std_map \<Rightarrow> tinypb list \<Rightarrow> string \<Rightarrow> 'd effect list" where
  "response_for dones ms k =
     (case map_find dones k of
        None \<Rightarrow> []
      | Some cb \<Rightarrow> (case find (\<lambda>m. m_msg_id m = k) ms of None \<Rightarrow> [] | Some m \<Rightarrow> [ReadDone cb (TinyPB m)]))"

lemma run_read_dones:
  assumes "map_ok (m_read_dones c)"
  shows "\<exists>new dones. fold run_read_done ms c = c\<lparr>m_read_dones := dones, effects := effects c @ new\<rparr> \<and> map_ok dones \<and>
           (\<forall>k. filter (answers k) new = response_for (m_read_dones c) ms k) \<and>
           (\<forall>k. map_find dones k = (if k \<in> m_msg_id ` set ms then None else map_find (m_read_dones c) k))"
  using assms
proof (induction ms arbitrary: c)
  case Nil
  then show ?case
    by (intro exI [of _ "[]"] exI [of _ "m_read_dones c"]) (simp add: response_for_def split: option.splits)
next
  case (Cons m ms)
  define c1 where "c1 = run_read_done m c"
  define e1 where "e1 = (case map_find (m_read_dones c) (m_msg_id m) of None \<Rightarrow> [] | Some cb \<Rightarrow> [ReadDone cb (TinyPB m)])"
  define d1 where "d1 = (case map_find (m_read_dones c) (m_msg_id m) of None \<Rightarrow> m_read_dones c
    | Some cb \<Rightarrow> map_erase (m_msg_id m) (m_read_dones c))"
  have c1: "c1 = c\<lparr>m_read_dones := d1, effects := effects c @ e1\<rparr>"
    by (simp add: c1_def run_read_done_def d1_def e1_def emit_def split: option.splits)
  have d1: "map_ok d1" "map_find d1 k = (if k = m_msg_id m then None else map_find (m_read_dones c) k)" for k
    using Cons.prems by (auto simp: d1_def map_ok_erase map_find_erase split: option.splits)
  obtain new dones where IH: "fold run_read_done ms c1 = c1\<lparr>m_read_dones := dones, effects := effects c1 @ new\<rparr>"
      "map_ok dones" "\<forall>k. filter (answers k) new = response_for d1 ms k"
      "\<forall>k. map_find dones k = (if k \<in> m_msg_id ` set ms then None else map_find d1 k)"
    using Cons.IH [of c1] d1(1) by (auto simp: c1)
  have "filter (answers k) (e1 @ new) = response_for (m_read_dones c) (m # ms) k" for k
    using IH(3) d1(2) [of k] by (auto simp: e1_def response_for_def split: option.splits)
  moreover have "map_find dones k = (if k \<in> m_msg_id ` set (m # ms) then None else map_find (m_read_dones c) k)" for k
    using IH(4) d1(2) by simp
  ultimately show ?case
    using IH(1,2) unfolding fold_simps(2) c1_def [symmetric] unfolding c1
    by (intro exI [of _ "e1 @ new"] exI [of _ dones]) simp
qed

section \<open>Properties of the read path\<close>

text \<open>
  C14. A client connection handles readable data without a fault: either the peer has closed the
  stream or reading has failed, and then the connection is closed; or some bytes of the stream
  have been taken in order, they and the bytes kept from before are decoded as the wire format
  says, the undecoded rest is kept, and every waiting message id that has been answered gets its
  callback called exactly once, with the first response, and stops waiting.
\<close>

theorem client_receives_responses:
  assumes "m_state c = Connected" and "0 \<le> tc_fd c" and "m_connection_type c = TcpConnectionByClient"
    and "in_buffer_ok (m_in_buffer c) (length (arriving reads))" and "map_ok (m_read_dones c)"
  shows "\<exists>c' rest data. onRead dispatch reads c = Inr (c', rest) \<and> arriving reads = data @ arriving rest \<and>
     (m_state c' = Closed \<and> closing reads \<or>
      (\<exists>ms new. decode_bytes (contents (m_in_buffer c) @ data) = (ms, contents (m_in_buffer c')) \<and>
         buffer_ok (m_in_buffer c') \<and> effects c' = effects c @ new \<and>
         (\<forall>k. filter (answers k) new = response_for (m_read_dones c) ms k) \<and>
         (\<forall>k. map_find (m_read_dones c') k = (if k \<in> m_msg_id ` set ms then None else map_find (m_read_dones c) k))))"
proof -
  obtain close b rest data where rd: "read_loop reads (m_in_buffer c) = Inr (close, b, rest)"
      "arriving reads = data @ arriving rest" "in_buffer_ok b (length (arriving rest))"
      "contents b = contents (m_in_buffer c) @ data" "close \<longrightarrow> closing reads"
    using read_loop_ok [of "m_in_buffer c" reads 0] assms(4) by auto
  show ?thesis
  proof (cases close)
    case True
    then have "onRead dispatch reads c = Inr (clear (c\<lparr>m_in_buffer := b\<rparr>), rest)"
      using assms(1,2) rd(1) by (simp add: onRead_def)
    moreover have "m_state (clear x) = Closed" for x :: "'a tcp_connection"
      by (simp add: clear_def emit_def Let_def split: option.splits)
    ultimately show ?thesis using rd(2,5) True by blast
  next
    case False
    obtain b2 where b2: "decode [] b = Inr (fst (decode_bytes (contents b)), b2)" "buffer_ok b2"
        "contents b2 = snd (decode_bytes (contents b))"
      using decode_refines [OF in_buffer_okD(1) [OF rd(3)], of "[]"] by auto
    define ms where "ms = fst (decode_bytes (contents b))"
    have "onRead dispatch reads c = Inr (fold run_read_done ms (c\<lparr>m_in_buffer := b2\<rparr>), rest)"
      using False assms(1-3) rd(1) b2(1) by (simp add: onRead_def excute_def ms_def)
    moreover obtain new dones where "fold run_read_done ms (c\<lparr>m_in_buffer := b2\<rparr>) =
        c\<lparr>m_in_buffer := b2, m_read_dones := dones, effects := effects c @ new\<rparr>"
        "\<forall>k. filter (answers k) new = response_for (m_read_dones c) ms k"
        "\<forall>k. map_find dones k = (if k \<in> m_msg_id ` set ms then None else map_find (m_read_dones c) k)"
      using run_read_dones [of "c\<lparr>m_in_buffer := b2\<rparr>" ms] assms(5) by auto
    ultimately show ?thesis
      using rd(2,4) b2(2,3)
      by (intro exI [of _ "fold run_read_done ms (c\<lparr>m_in_buffer := b2\<rparr>)"] exI [of _ rest] exI [of _ data])
        (auto simp: ms_def prod_eq_iff)
  qed
qed

theorem client_receives_responses_witness:
  "\<exists>c' rest. onRead (\<lambda>_ _ c. Inr c) [ReadData ''xy'']
       \<lparr>m_in_buffer = \<lparr>m_read_index = 0, m_write_index = 0, m_size = 8, m_buffer = replicate 8 (CHR 0x00)\<rparr>,
        m_out_buffer = \<lparr>m_read_index = 0, m_write_index = 0, m_size = 0, m_buffer = []\<rparr>,
        m_fd_event = newFd_Event 7, m_state = Connected, tc_fd = 7, m_connection_type = TcpConnectionByClient,
        m_write_dones = [], m_read_dones = [(''1'', True)], m_disconnect_callback = None, effects = [], sent = []\<rparr> =
     Inr (c', rest) \<and> map_find (m_read_dones c') ''1'' = Some True"
proof -
  define c where "c = \<lparr>m_in_buffer = \<lparr>m_read_index = 0, m_write_index = 0, m_size = 8, m_buffer = replicate 8 (CHR 0x00)\<rparr>,
        m_out_buffer = \<lparr>m_read_index = 0, m_write_index = 0, m_size = 0, m_buffer = []\<rparr>,
        m_fd_event = newFd_Event 7, m_state = Connected, tc_fd = 7, m_connection_type = TcpConnectionByClient,
        m_write_dones = [], m_read_dones = [(''1'', True)], m_disconnect_callback = None, effects = [], sent = []\<rparr>"
  have hyps: "m_state c = Connected" "0 \<le> tc_fd c" "m_connection_type c = TcpConnectionByClient"
    "in_buffer_ok (m_in_buffer c) (length (arriving [ReadData ''xy'']))" "map_ok (m_read_dones c)"
    by (simp_all add: c_def in_buffer_ok_def buffer_defs INT_MAX_def map_ok_def)
  obtain c' rest data where r: "onRead (\<lambda>_ _ c. Inr c) [ReadData ''xy''] c = Inr (c', rest)"
      "''xy'' = data @ arriving rest"
      "\<exists>ms. decode_bytes (contents (m_in_buffer c) @ data) = (ms, contents (m_in_buffer c')) \<and>
         (\<forall>k. map_find (m_read_dones c') k = (if k \<in> m_msg_id ` set ms then None else map_find (m_read_dones c) k))"
    using client_receives_responses [OF hyps, of "\<lambda>_ _ c. Inr c"] by (auto simp: closing_def)
  have "set data \<subseteq> {CHR ''x'', CHR ''y''}"
    using arg_cong [OF r(2), of set] by auto
  then have "decode_bytes (contents (m_in_buffer c) @ data) = ([], [])"
    by (intro decode_bytes_no_start) (auto simp: c_def contents_def readAble_def PB_START_def)
  with r(1,3) show ?thesis
    by (auto simp: c_def map_find_def)
qed

section \<open>Properties of the write path\<close>

definition hard_error :: "sys_write list \<Rightarrow> bool" where
  "hard_error writes \<longleftrightarrow> (\<exists>e. WriteErrno e \<in> set writes \<and> e \<noteq> EAGAIN_ERRNO \<and> e \<noteq> EINTR)"

lemma write_loop_failed:
  "write_loop writes b = Inr (WriteFailed, b', out) \<Longrightarrow> hard_error writes"
proof (induction writes arbitrary: b out)
  case Nil
  then show ?case by (simp add: write_loop.simps [of "[]"] split: if_splits)
next
  case (Cons w ws)
  have up: "hard_error ws \<Longrightarrow> hard_error (w # ws)"
    by (auto simp: hard_error_def)
  show ?case
  proof (cases w)
    case (WriteErrno e)
    then show ?thesis
      using Cons up by (auto simp: write_loop.simps [of "WriteErrno e # ws"] hard_error_def split: if_splits)
  next
    case (WriteAccepts n)
    then show ?thesis
      using Cons up by (auto simp: write_loop.simps [of "WriteAccepts n # ws"] bind_cpp_eq_Inr Let_def split: if_splits)
  qed
qed

datatype write_op = Reply "protocol list" | WriteReady "sys_write list"

fun write_step :: "write_op \<Rightarrow> 'd tcp_connection \<Rightarrow> 'd tcp_connection cpp" where
  "write_step (Reply ms) c = bind_cpp (reply ms c) (\<lambda>(_, c'). Inr c')"
| "write_step (WriteReady writes) c = onWrite writes c"

fun replies :: "write_op list \<Rightarrow> protocol list" where
  "replies [] = []"
| "replies (Reply ms # ops) = ms @ replies ops"
| "replies (WriteReady writes # ops) = replies ops"

definition server_open :: "'d tcp_connection \<Rightarrow> nat \<Rightarrow> bool" where
  "server_open c k \<longleftrightarrow> m_state c = Connected \<and> 0 \<le> tc_fd c \<and> m_connection_type c = TcpConnectionByServer \<and>
     buffer_ok (m_out_buffer c) \<and> room (m_out_buffer c) k"

lemma listenWrite_simps [simp]:
  "m_out_buffer (listenWrite c) = m_out_buffer c" "sent (listenWrite c) = sent c" "m_state (listenWrite c) = m_state c"
  "tc_fd (listenWrite c) = tc_fd c" "m_connection_type (listenWrite c) = m_connection_type c"
  by (simp_all add: listenWrite_def addEpoll_def emit_def)

lemma reply_ok:
  assumes "server_open c (length (concat (wire_chunks ms)) + k)"
  shows "\<exists>c'. reply ms c = Inr (map after_encode ms, c') \<and> server_open c' k \<and> sent c' = sent c \<and>
           contents (m_out_buffer c') = contents (m_out_buffer c) @ concat (wire_chunks ms)"
  using encode_ok_room [of "m_out_buffer c" ms k] assms by (auto simp: reply_def server_open_def)

lemma onWrite_server_ok:
  assumes "server_open c k" and "\<not> hard_error writes"
  shows "\<exists>c'. onWrite writes c = Inr c' \<and> server_open c' k \<and>
           sent c' @ contents (m_out_buffer c') = sent c @ contents (m_out_buffer c)"
proof -
  obtain ending b out where w: "write_loop writes (m_out_buffer c) = Inr (ending, b, out)" "buffer_ok b"
      "contents (m_out_buffer c) = out @ contents b" "m_write_index b \<le> m_write_index (m_out_buffer c)"
    using write_loop_ok [of "m_out_buffer c" writes] assms(1) by (auto simp: server_open_def)
  have "ending \<noteq> WriteFailed"
    using write_loop_failed w(1) assms(2) by blast
  moreover have "room b k"
    using w(4) assms(1) by (auto simp: room_def server_open_def intro: order_trans [OF zdiv_mono1])
  ultimately show ?thesis
    using assms(1) w(1-3)
    by (auto simp: onWrite_def server_open_def Let_def addEpoll_def emit_def zip_map_fst_snd)
qed

text \<open>
  C15. The server's output stream: over any interleaving of replies and write events, however
  many bytes the kernel accepts each time, the bytes handed to the kernel followed by the bytes
  still buffered are always the earlier output followed by the encoded replies in order. Nothing
  is lost, repeated or reordered, and no step faults.
\<close>

theorem server_output_lossless:
  assumes "server_open c (length (concat (wire_chunks (replies ops))))"
    and "\<forall>writes. WriteReady writes \<in> set ops \<longrightarrow> \<not> hard_error writes"
  shows "\<exists>c'. fold_cpp write_step ops c = Inr c' \<and>
           sent c' @ contents (m_out_buffer c') =
           sent c @ contents (m_out_buffer c) @ concat (wire_chunks (replies ops))"
  using assms
proof (induction ops arbitrary: c rule: replies.induct)
  case (2 ms ops)
  then obtain c1 where c1: "reply ms c = Inr (map after_encode ms, c1)" "server_open c1 (length (concat (wire_chunks (replies ops))))"
      "sent c1 = sent c" "contents (m_out_buffer c1) = contents (m_out_buffer c) @ concat (wire_chunks ms)"
    using reply_ok [of c ms "length (concat (wire_chunks (replies ops)))"] by auto
  then show ?case using "2.IH" [OF c1(2)] "2.prems"(2) by auto
next
  case (3 writes ops)
  then obtain c1 where c1: "onWrite writes c = Inr c1" "server_open c1 (length (concat (wire_chunks (replies ops))))"
      "sent c1 @ contents (m_out_buffer c1) = sent c @ contents (m_out_buffer c)"
    using onWrite_server_ok [of c "length (concat (wire_chunks (replies ops)))" writes] by auto
  then show ?case using "3.IH" [OF c1(2)] "3.prems"(2) by (auto simp flip: append_assoc)
qed simp

theorem server_output_lossless_witness:
  "\<exists>c'. fold_cpp write_step [Reply [TinyPB (newTinyPB\<lparr>m_msg_id := ''7''\<rparr>)], WriteReady [WriteAccepts 5]]
       \<lparr>m_in_buffer = \<lparr>m_read_index = 0, m_write_index = 0, m_size = 0, m_buffer = []\<rparr>,
        m_out_buffer = \<lparr>m_read_index = 0, m_write_index = 0, m_size = 0, m_buffer = []\<rparr>,
        m_fd_event = newFd_Event 7, m_state = Connected, tc_fd = 7, m_connection_type = TcpConnectionByServer,
        m_write_dones = [] :: (protocol \<times> nat) list, m_read_dones = [], m_disconnect_callback = None, effects = [], sent = []\<rparr> = Inr c' \<and>
     sent c' @ contents (m_out_buffer c') = packet (newTinyPB\<lparr>m_msg_id := ''7''\<rparr>)"
proof -
  define m where "m = newTinyPB\<lparr>m_msg_id := ''7''\<rparr>"
  have e: "encodable m" "with_msg_id m = m" "payload_length m = 1"
    by (simp_all add: encodable_def with_msg_id_def payload_length_def m_def newTinyPB_def
        MIN_PACKAGE_SIZE_def MAX_PACKAGE_SIZE_def)
  show ?thesis
    unfolding m_def [symmetric]
    using server_output_lossless [of "\<lparr>m_in_buffer = \<lparr>m_read_index = 0, m_write_index = 0, m_size = 0, m_buffer = []\<rparr>,
        m_out_buffer = \<lparr>m_read_index = 0, m_write_index = 0, m_size = 0, m_buffer = []\<rparr>,
        m_fd_event = newFd_Event 7, m_state = Connected, tc_fd = 7, m_connection_type = TcpConnectionByServer,
        m_write_dones = [] :: (protocol \<times> nat) list, m_read_dones = [], m_disconnect_callback = None, effects = [], sent = []\<rparr>"
      "[Reply [TinyPB m], WriteReady [WriteAccepts 5]]"]
    by (simp add: server_open_def room_def buffer_defs INT_MAX_def e hard_error_def)
qed

text \<open>
  C16. A client's write event that finds the out buffer empty, the vector with room for the packets and
  no hard error of \<open>write\<close>, encodes every queued message and, when the
  kernel takes everything, the bytes sent are exactly their packets, every write callback has
  been called once and in order with its message as encoded, the queue is empty and the interest
  in writing is withdrawn; when the kernel takes less, the rest is kept, no callback is called
  and all messages stay queued. (A message queued while an earlier write is unfinished is another
  matter: \<open>queued_behind_partial_write_is_lost\<close>.)
\<close>

theorem client_sends_queued_messages:
  assumes "m_state c = Connected" and "0 \<le> tc_fd c" and "m_connection_type c = TcpConnectionByClient"
    and "buffer_ok (m_out_buffer c)" and "contents (m_out_buffer c) = []"
    and "room (m_out_buffer c) (length (concat (wire_chunks (map fst (m_write_dones c)))))"
    and "\<not> hard_error writes"
  shows "\<exists>c' out. onWrite writes c = Inr c' \<and> sent c' = sent c @ out \<and>
           out @ contents (m_out_buffer c') = concat (wire_chunks (map fst (m_write_dones c))) \<and>
           (if contents (m_out_buffer c') = []
            then effects c' = effects c @ [AddEpollEvent (m_listen_event (cancle OUT_EVENT (m_fd_event c)))] @
                   [WriteDone cb (after_encode m). (m, cb) \<leftarrow> m_write_dones c] \<and> m_write_dones c' = []
            else effects c' = effects c \<and>
                   m_write_dones c' = map (\<lambda>(m, cb). (after_encode m, cb)) (m_write_dones c))"
proof -
  obtain b where b: "encode (map fst (m_write_dones c)) (m_out_buffer c) = Inr (map after_encode (map fst (m_write_dones c)), b)"
      "buffer_ok b" "contents b = concat (wire_chunks (map fst (m_write_dones c)))"
    using encode_ok [OF assms(4,6)] assms(5) by auto
  obtain ending b' out where w: "write_loop writes b = Inr (ending, b', out)" "buffer_ok b'"
      "contents b = out @ contents b'" "ending = WroteAll \<longleftrightarrow> contents b' = []"
    using write_loop_ok [OF b(2), of writes] by blast
  have "ending \<noteq> WriteFailed"
    using write_loop_failed w(1) assms(7) by blast
  moreover have z: "zip (map (after_encode \<circ> fst) xs) (map snd xs) = map (\<lambda>(m, cb). (after_encode m, cb)) xs"
    for xs :: "(protocol \<times> 'a) list"
    by (induction xs) auto
  moreover have "readAble (m_out_buffer c) = 0"
    using assms(4,5) contents_empty by blast
  ultimately show ?thesis
    using assms(1-3) b w
    by (intro exI [of _ "case onWrite writes c of Inr c' \<Rightarrow> c'"] exI [of _ out])
      (auto simp: onWrite_def Let_def addEpoll_def emit_def split_beta intro!: arg_cong [where f = concat])
qed

theorem client_sends_queued_messages_witness:
  "\<exists>c'. onWrite [WriteAccepts 1000]
       \<lparr>m_in_buffer = \<lparr>m_read_index = 0, m_write_index = 0, m_size = 0, m_buffer = []\<rparr>,
        m_out_buffer = \<lparr>m_read_index = 0, m_write_index = 0, m_size = 0, m_buffer = []\<rparr>,
        m_fd_event = newFd_Event 7, m_state = Connected, tc_fd = 7, m_connection_type = TcpConnectionByClient,
        m_write_dones = [(TinyPB (newTinyPB\<lparr>m_msg_id := ''7''\<rparr>), ''cb'')], m_read_dones = [],
        m_disconnect_callback = None, effects = [], sent = []\<rparr> = Inr c' \<and>
     sent c' @ contents (m_out_buffer c') = packet (newTinyPB\<lparr>m_msg_id := ''7''\<rparr>)"
proof -
  define m where "m = newTinyPB\<lparr>m_msg_id := ''7''\<rparr>"
  have e: "encodable m" "with_msg_id m = m" "payload_length m = 1"
    by (simp_all add: encodable_def with_msg_id_def payload_length_def m_def newTinyPB_def
        MIN_PACKAGE_SIZE_def MAX_PACKAGE_SIZE_def)
  define c where "c = \<lparr>m_in_buffer = \<lparr>m_read_index = 0, m_write_index = 0, m_size = 0, m_buffer = []\<rparr>,
        m_out_buffer = \<lparr>m_read_index = 0, m_write_index = 0, m_size = 0, m_buffer = []\<rparr>,
        m_fd_event = newFd_Event 7, m_state = Connected, tc_fd = 7, m_connection_type = TcpConnectionByClient,
        m_write_dones = [(TinyPB m, ''cb'')], m_read_dones = [],
        m_disconnect_callback = None, effects = [], sent = []\<rparr>"
  have hyps: "m_state c = Connected" "0 \<le> tc_fd c" "m_connection_type c = TcpConnectionByClient"
    "buffer_ok (m_out_buffer c)" "contents (m_out_buffer c) = []"
    "room (m_out_buffer c) (length (concat (wire_chunks (map fst (m_write_dones c)))))" "\<not> hard_error [WriteAccepts 1000]"
    by (simp_all add: c_def room_def buffer_defs INT_MAX_def e hard_error_def)
  obtain c' out where "onWrite [WriteAccepts 1000] c = Inr c'" "sent c' = sent c @ out"
      "out @ contents (m_out_buffer c') = concat (wire_chunks (map fst (m_write_dones c)))"
    using client_sends_queued_messages [OF hyps] by blast
  then show ?thesis
    unfolding m_def [symmetric] by (auto simp: c_def e)
qed

text \<open>
  A message queued while an earlier write is unfinished is lost: the next write event does not
  encode it, because the out buffer is not empty, and when the buffer drains its callback reports
  it as written and it is removed from the queue although none of its bytes was sent.
\<close>

lemma queued_behind_partial_write_is_lost:
  assumes "m_state c = Connected" and "0 \<le> tc_fd c" and "m_connection_type c = TcpConnectionByClient"
    and "buffer_ok (m_out_buffer c)" and "contents (m_out_buffer c) \<noteq> []"
    and "write_loop writes (m_out_buffer c) = Inr (WroteAll, b', out)"
  shows "\<exists>c'. onWrite writes (pushSendMessage m cb c) = Inr c' \<and> sent c' = sent c @ contents (m_out_buffer c) \<and>
           WriteDone cb m \<in> set (effects c') \<and> m_write_dones c' = []"
proof -
  have "out = contents (m_out_buffer c)"
    using write_loop_ok [OF assms(4), of writes] assms(6) by auto
  moreover have "readAble (m_out_buffer c) \<noteq> 0"
    using assms(4,5) contents_empty by blast
  ultimately show ?thesis
    using assms(1-3,6) by (auto simp: onWrite_def pushSendMessage_def Let_def addEpoll_def emit_def)
qed

text \<open>
  Data read together with the end of the stream is not decoded: when the last bytes exactly fill
  the free space of the buffer, the loop reads on, sees the end of file and closes the connection
  without \<open>excute\<close>, so the requests or responses in these bytes are never handled.
\<close>

lemma data_before_eof_discarded:
  assumes "m_state c = Connected" and "0 \<le> tc_fd c"
    and "read_once [ReadData bs, ReadData []] (m_in_buffer c) = Inr (ReadContinue b [ReadData []])"
    and "in_buffer_ok b 0"
  shows "\<exists>b'. onRead dispatch [ReadData bs, ReadData []] c = Inr (clear (c\<lparr>m_in_buffer := b'\<rparr>), []) \<and>
           contents b' = contents b"
proof -
  obtain b1 where b1: "make_room b = Inr b1" "contents b1 = contents b" "0 < writeAble b1"
    using make_room_ok [OF assms(4)] by blast
  then have "read_once [ReadData []] b = Inr (ReadBreak True b1 [])"
    by (simp add: read_once_def)
  then have "read_loop [ReadData bs, ReadData []] (m_in_buffer c) = Inr (True, b1, [])"
    using assms(3) by (simp add: read_loop.simps [of "[ReadData bs, ReadData []]"] read_loop.simps [of "[ReadData []]"])
  with assms(1,2) b1(2) show ?thesis
    by (intro exI [of _ b1]) (simp add: onRead_def)
qed

section \<open>Properties of closing\<close>

lemma clear_state [simp]: "m_state (clear c) = Closed"
  by (simp add: clear_def emit_def Let_def split: option.splits)

text \<open>
  C32. Closing happens once: \<open>clear\<close> on an open connection unregisters the descriptor, closes it,
  drops all waiting callbacks and calls the disconnect callback, in that order and once each; a
  second \<open>clear\<close> does nothing, and neither do read events, write events, subscriptions or a
  shutdown on the closed connection.
\<close>

theorem clear_closes_once:
  assumes "m_state c \<noteq> Closed" and "0 \<le> tc_fd c"
  shows "effects (clear c) = effects c @ [DeleteEpollEvent, CloseFd (tc_fd c)] @
           (case m_disconnect_callback c of None \<Rightarrow> [] | Some cb \<Rightarrow> [DisconnectCallback cb]) \<and>
         m_read_dones (clear c) = [] \<and> m_write_dones (clear c) = [] \<and> m_listen_event (m_fd_event (clear c)) = 0 \<and>
         clear (clear c) = clear c \<and> onRead dispatch reads (clear c) = Inr (clear c, reads) \<and>
         onWrite writes (clear c) = Inr (clear c) \<and> listenRead (clear c) = clear c \<and>
         listenWrite (clear c) = clear c \<and> shutdown (clear c) = clear c"
proof -
  define c' where "c' = clear c"
  have closed: "m_state c' = Closed" "tc_fd c' = - 1"
    using assms by (simp_all add: c'_def clear_def emit_def Let_def split: option.splits)
  have "effects c' = effects c @ [DeleteEpollEvent, CloseFd (tc_fd c)] @
      (case m_disconnect_callback c of None \<Rightarrow> [] | Some cb \<Rightarrow> [DisconnectCallback cb])"
    "m_read_dones c' = []" "m_write_dones c' = []" "m_listen_event (m_fd_event c') = 0"
    using assms by (simp_all add: c'_def clear_def emit_def fe_reset_def Let_def split: option.splits)
  moreover have "clear c' = c'" "onRead dispatch reads c' = Inr (c', reads)" "onWrite writes c' = Inr c'"
    "listenRead c' = c'" "listenWrite c' = c'" "shutdown c' = c'"
    using closed by (simp_all add: clear_def onRead_def onWrite_def listenRead_def listenWrite_def shutdown_def)
  ultimately show ?thesis
    unfolding c'_def by blast
qed

theorem clear_closes_once_witness:
  "effects (clear \<lparr>m_in_buffer = \<lparr>m_read_index = 0, m_write_index = 0, m_size = 0, m_buffer = []\<rparr>,
        m_out_buffer = \<lparr>m_read_index = 0, m_write_index = 0, m_size = 0, m_buffer = []\<rparr>,
        m_fd_event = newFd_Event 7, m_state = Connected, tc_fd = 7, m_connection_type = TcpConnectionByClient,
        m_write_dones = [], m_read_dones = [(''1'', ''cb'')], m_disconnect_callback = Some ''bye'', effects = [], sent = []\<rparr>) =
     [DeleteEpollEvent, CloseFd 7, DisconnectCallback ''bye'']"
  by (subst clear_closes_once [THEN conjunct1]) simp_all

end
