(* ===== verification/RequestStream.thy ===== *)
theory RequestStream
  imports ConnectionProps
begin

text \<open>
  A connection over its lifetime: the byte stream of the peer arrives in pieces, every piece is a
  read event, and the decoded messages are handed on one by one. Who handles a message is an
  interface, the locale \<open>message_handler\<close>: it may use everything of the connection but the in
  buffer, and it leaves the connection open. On the client it is the table of waiting callbacks,
  interpreted here; on the server it is any dispatcher that satisfies \<open>request_handler\<close>, which the
  theory \<open>RpcDispatcher\<close> interprets.
\<close>

section \<open>Streams of messages\<close>

text \<open>A read event whose data is one arrival.\<close>

definition arrival ::
  "(tinypb \<Rightarrow> tinypb \<Rightarrow> 'd tcp_connection \<Rightarrow> 'd tcp_connection cpp) \<Rightarrow> byte list \<Rightarrow> 'd tcp_connection \<Rightarrow> 'd tcp_connection cpp" where
  "arrival dispatch bs c = map_cpp fst (onRead dispatch [ReadData bs] c)"

locale message_handler =
  fixes dispatch :: "tinypb \<Rightarrow> tinypb \<Rightarrow> 'd tcp_connection \<Rightarrow> 'd tcp_connection cpp"
    and handle :: "tinypb \<Rightarrow> 'd tcp_connection \<Rightarrow> 'd tcp_connection cpp"
    and alive :: "'d tcp_connection \<Rightarrow> bool"
  assumes alive_open: "alive c \<Longrightarrow> m_state c = Connected \<and> 0 \<le> tc_fd c"
    and alive_in_buffer: "alive (c\<lparr>m_in_buffer := b\<rparr>) = alive c"
    and excute_handles: "alive c \<Longrightarrow> decode [] (m_in_buffer c) = Inr (ms, b) \<Longrightarrow>
      excute dispatch c = fold_cpp handle ms (c\<lparr>m_in_buffer := b\<rparr>)"
    and handle_frame: "handle m (c\<lparr>m_in_buffer := b\<rparr>) = map_cpp (\<lambda>c. c\<lparr>m_in_buffer := b\<rparr>) (handle m c)"
    and handle_alive: "alive c \<Longrightarrow> handle m c = Inr c' \<Longrightarrow> alive c'"
begin

lemma handle_all_frame:
  "fold_cpp handle ms (c\<lparr>m_in_buffer := b\<rparr>) = map_cpp (\<lambda>c. c\<lparr>m_in_buffer := b\<rparr>) (fold_cpp handle ms c)"
  using fold_cpp_frame [of handle "\<lambda>c. c\<lparr>m_in_buffer := b\<rparr>"] by (simp add: handle_frame)

lemma handle_all_alive: "alive c \<Longrightarrow> fold_cpp handle ms c = Inr c' \<Longrightarrow> alive c'"
  by (induction ms arbitrary: c) (auto simp: bind_cpp_eq_Inr dest: handle_alive)

lemma arrival_ok:
  assumes "alive c" and "in_buffer_ok (m_in_buffer c) (length bs + k)" and "bs \<noteq> []"
    and "fold_cpp handle (fst (decode_bytes (contents (m_in_buffer c) @ bs))) c = Inr c1"
  shows "\<exists>b. arrival dispatch bs c = Inr (c1\<lparr>m_in_buffer := b\<rparr>) \<and> in_buffer_ok b k \<and>
           contents b = snd (decode_bytes (contents (m_in_buffer c) @ bs))"
proof -
  obtain close b rest data where rd: "read_loop [ReadData bs] (m_in_buffer c) = Inr (close, b, rest)"
      "bs = data @ arriving rest" "in_buffer_ok b (length (arriving rest) + k)" "contents b = contents (m_in_buffer c) @ data"
    using read_loop_ok [of "m_in_buffer c" "[ReadData bs]" k] assms(2) by auto
  have whole: "\<not> close" "rest = []"
    using read_loop_chunk [OF _ _ rd(1), of k] assms(2,3) by auto
  then have b: "in_buffer_ok b k" "contents b = contents (m_in_buffer c) @ bs"
    using rd by simp_all
  obtain b2 where b2: "decode [] b = Inr (fst (decode_bytes (contents b)), b2)" "buffer_ok b2"
      "contents b2 = snd (decode_bytes (contents b))"
    using decode_refines [OF in_buffer_okD(1) [OF b(1)], of "[]"] by auto
  have "in_buffer_ok b2 k"
    using decode_room [OF in_buffer_okD(1) [OF b(1)] b2(1)] b(1) b2(2) by (auto simp: in_buffer_ok_def keeps_room_def)
  moreover have "excute dispatch (c\<lparr>m_in_buffer := b\<rparr>) = Inr (c1\<lparr>m_in_buffer := b2\<rparr>)"
    using excute_handles [of "c\<lparr>m_in_buffer := b\<rparr>" _ b2] assms(1,4) b2(1) b(2) handle_all_frame [where c = c and b = b2]
    by (simp add: alive_in_buffer)
  then have "arrival dispatch bs c = Inr (c1\<lparr>m_in_buffer := b2\<rparr>)"
    using alive_open [OF assms(1)] rd(1) whole by (simp add: arrival_def onRead_def)
  ultimately show ?thesis
    using b(2) b2(3) by auto
qed

lemma stream_ok:
  assumes "alive c" and "in_buffer_ok (m_in_buffer c) (length (concat pieces))" and "[] \<notin> set pieces"
    and "decode_bytes (contents (m_in_buffer c)) = ([], contents (m_in_buffer c))"
    and "decode_bytes (contents (m_in_buffer c) @ concat pieces) = (ms, undecoded)"
    and "fold_cpp handle ms c = Inr c'"
  shows "\<exists>b. fold_cpp (arrival dispatch) pieces c = Inr (c'\<lparr>m_in_buffer := b\<rparr>) \<and> buffer_ok b \<and> contents b = undecoded"
  using assms
proof (induction pieces arbitrary: c c' ms)
  case Nil
  then show ?case
    by (intro exI [of _ "m_in_buffer c"]) (auto simp: in_buffer_ok_def)
next
  case (Cons bs pieces)
  define p where "p = decode_bytes (contents (m_in_buffer c) @ bs)"
  define q where "q = decode_bytes (snd p @ concat pieces)"
  have pq: "ms = fst p @ fst q" "undecoded = snd q"
    using Cons.prems(5) wire.dec_append [of "contents (m_in_buffer c) @ bs" "concat pieces"] by (simp_all add: p_def q_def)
  obtain c1 where c1: "fold_cpp handle (fst p) c = Inr c1" "fold_cpp handle (fst q) c1 = Inr c'"
    using Cons.prems(6) by (auto simp: pq fold_cpp_append bind_cpp_eq_Inr)
  obtain b where b: "arrival dispatch bs c = Inr (c1\<lparr>m_in_buffer := b\<rparr>)" "in_buffer_ok b (length (concat pieces))"
      "contents b = snd p"
    using arrival_ok [OF Cons.prems(1), of bs "length (concat pieces)" c1] Cons.prems(2,3) c1(1) by (auto simp: p_def)
  have idle: "decode_bytes (contents b) = ([], contents b)"
    using wire.dec_append [of "contents (m_in_buffer c) @ bs" "[]"] by (simp add: b(3) p_def prod_eq_iff)
  have "fold_cpp handle (fst q) (c1\<lparr>m_in_buffer := b\<rparr>) = Inr (c'\<lparr>m_in_buffer := b\<rparr>)"
    using c1(2) by (simp add: handle_all_frame)
  then obtain b' where "fold_cpp (arrival dispatch) pieces (c1\<lparr>m_in_buffer := b\<rparr>) = Inr (c'\<lparr>m_in_buffer := b'\<rparr>)"
      "buffer_ok b'" "contents b' = undecoded"
    using Cons.IH [of "c1\<lparr>m_in_buffer := b\<rparr>" "fst q" "c'\<lparr>m_in_buffer := b\<rparr>"] b idle pq(2)
      handle_all_alive [OF Cons.prems(1) c1(1)] Cons.prems(3)
    by (auto simp: q_def alive_in_buffer)
  with b(1) show ?case by auto
qed

end

section \<open>Clients\<close>

definition awaiting :: "'d tcp_connection \<Rightarrow> bool" where
  "awaiting c \<longleftrightarrow> m_state c = Connected \<and> 0 \<le> tc_fd c \<and> m_connection_type c = TcpConnectionByClient"

lemma run_read_done_frame:
  "run_read_done m (c\<lparr>m_in_buffer := b\<rparr>) = (run_read_done m c)\<lparr>m_in_buffer := b\<rparr>"
  by (simp add: run_read_done_def emit_def split: option.splits)

lemma run_read_done_keeps [simp]: "awaiting (run_read_done m c) = awaiting c"
  by (simp add: run_read_done_def emit_def awaiting_def split: option.splits)

lemma fold_cpp_total: "fold_cpp (\<lambda>x s. Inr (f x s)) xs s = Inr (fold f xs s)"
  by (induction xs arbitrary: s) simp_all

lemma excute_client:
  "awaiting c \<Longrightarrow> decode [] (m_in_buffer c) = Inr (ms, b) \<Longrightarrow>
     excute dispatch c = fold_cpp (\<lambda>m c. Inr (run_read_done m c)) ms (c\<lparr>m_in_buffer := b\<rparr>)"
  by (simp add: awaiting_def excute_def fold_cpp_total)

interpretation client: message_handler dispatch "\<lambda>m c. Inr (run_read_done m c)" awaiting for dispatch
proof unfold_locales
  show "m_state c = Connected \<and> 0 \<le> tc_fd c" if "awaiting c" for c :: "'a tcp_connection"
    using that by (simp add: awaiting_def)
  show "awaiting (c\<lparr>m_in_buffer := b\<rparr>) = awaiting c" for c :: "'a tcp_connection" and b
    by (simp add: awaiting_def)
qed (auto simp: excute_client run_read_done_frame)

section \<open>Servers\<close>

definition serving :: "'d tcp_connection \<Rightarrow> bool" where
  "serving c \<longleftrightarrow> m_state c = Connected \<and> 0 \<le> tc_fd c \<and> m_connection_type c = TcpConnectionByServer"

locale request_handler =
  fixes dispatch :: "tinypb \<Rightarrow> tinypb \<Rightarrow> 'd tcp_connection \<Rightarrow> 'd tcp_connection cpp"
  assumes dispatch_frame:
      "dispatch req rsp (c\<lparr>m_in_buffer := b\<rparr>) = map_cpp (\<lambda>c. c\<lparr>m_in_buffer := b\<rparr>) (dispatch req rsp c)"
    and dispatch_serving: "serving c \<Longrightarrow> dispatch req rsp c = Inr c' \<Longrightarrow> serving c'"

lemma excute_server:
  "serving c \<Longrightarrow> decode [] (m_in_buffer c) = Inr (ms, b) \<Longrightarrow>
     excute dispatch c = fold_cpp (\<lambda>req. dispatch req newTinyPB) ms (c\<lparr>m_in_buffer := b\<rparr>)"
  by (simp add: serving_def excute_def)

sublocale request_handler \<subseteq> message_handler dispatch "\<lambda>req. dispatch req newTinyPB" serving
proof unfold_locales
  show "m_state c = Connected \<and> 0 \<le> tc_fd c" if "serving c" for c :: "'a tcp_connection"
    using that by (simp add: serving_def)
  show "serving (c\<lparr>m_in_buffer := b\<rparr>) = serving c" for c :: "'a tcp_connection" and b
    by (simp add: serving_def)
qed (fact excute_server dispatch_frame dispatch_serving)+

end
