(* ===== verification/NetAddr.thy ===== *)
theory NetAddr
  imports CppString
begin

text \<open>
  Network addresses (\<open>net/tcp/net_addr.h\<close>, \<open>net/tcp/net_addr.cc\<close>). The C library functions
  \<open>inet_addr\<close> and \<open>inet_ntoa\<close> are parameters. A port is a \<open>uint16_t\<close>, so assignments to it keep
  the low 16 bits; \<open>m_addr\<close> is \<open>None\<close> as long as the constructor has not initialised it.
\<close>

unbundle bit_operations_syntax

type_synonym uint16 = "16 word"

definition AF_INET :: int where
  "AF_INET = 2"

definition INADDR_NONE :: int32 where
  "INADDR_NONE = - 1"

definition htons :: "uint16 \<Rightarrow> uint16" where
  "htons x = push_bit 8 x OR drop_bit 8 x"

definition ntohs :: "uint16 \<Rightarrow> uint16" where
  "ntohs x = htons x"

record sockaddr_in =
  sin_family :: int
  sin_addr :: int32
  sin_port :: uint16

record ip_net_addr =
  m_ip :: string
  m_port :: uint16
  m_addr :: "sockaddr_in option"

text \<open>The static \<open>IPNetAddr::CheckValid(addr)\<close>.\<close>

definition CheckValid :: "string \<Rightarrow> bool" where
  "CheckValid addr =
     (case find_first_of CHR '':'' addr of
        None \<Rightarrow> False
      | Some i \<Rightarrow>
          let ip = substr addr 0 i; port = substr addr (i + 1) (length addr - i - 1) in
          if ip = [] \<or> port = [] then False
          else
            let iport = atoi port in
            if iport \<le> 0 \<or> 65536 < iport then False else True)"

definition IPNetAddr :: "(string \<Rightarrow> int32) \<Rightarrow> string \<Rightarrow> uint16 \<Rightarrow> ip_net_addr" where
  "IPNetAddr inet_addr ip port =
     \<lparr>m_ip = ip, m_port = port,
      m_addr = Some \<lparr>sin_family = AF_INET, sin_addr = inet_addr ip, sin_port = htons port\<rparr>\<rparr>"

text \<open>The constructor from \<open>"ip:port"\<close>: without a colon the object keeps its defaults.\<close>

definition IPNetAddr_parse :: "(string \<Rightarrow> int32) \<Rightarrow> string \<Rightarrow> ip_net_addr" where
  "IPNetAddr_parse inet_addr addr =
     (case find_first_of CHR '':'' addr of
        None \<Rightarrow> \<lparr>m_ip = [], m_port = 0, m_addr = None\<rparr>
      | Some i \<Rightarrow>
          let ip = substr addr 0 i;
              port = word_of_int (atoi (substr addr (i + 1) (length addr - i - 1)))
          in \<lparr>m_ip = ip, m_port = port,
              m_addr = Some \<lparr>sin_family = AF_INET, sin_addr = inet_addr ip, sin_port = htons port\<rparr>\<rparr>)"

definition IPNetAddr_sockaddr :: "(int32 \<Rightarrow> string) \<Rightarrow> sockaddr_in \<Rightarrow> ip_net_addr" where
  "IPNetAddr_sockaddr inet_ntoa addr =
     \<lparr>m_ip = inet_ntoa (sin_addr addr), m_port = ntohs (sin_port addr), m_addr = Some addr\<rparr>"

definition getFamily :: "ip_net_addr \<Rightarrow> int" where
  "getFamily a = AF_INET"

definition toString :: "ip_net_addr \<Rightarrow> string" where
  "toString a = m_ip a @ '':'' @ to_string (uint (m_port a))"

definition checkValid :: "(string \<Rightarrow> int32) \<Rightarrow> ip_net_addr \<Rightarrow> bool" where
  "checkValid inet_addr a =
     (if m_ip a = [] then False
      else if uint (m_port a) < 0 \<or> 65536 < uint (m_port a) then False
      else if inet_addr (m_ip a) = INADDR_NONE then False
      else True)"

section \<open>Lemmas\<close>

lemma ntohs_htons [simp]: "ntohs (htons x) = x"
  by (rule bit_word_eqI)
    (auto simp: ntohs_def htons_def bit_simps not_less dest: bit_imp_le_length)

lemma uint_port_bound: "uint (p :: uint16) \<le> 65535"
  using uint_bounded [of p] by simp

lemma atoi_port: "atoi (to_string (uint (p :: uint16))) = uint p"
  by (rule atoi_to_string) (use uint_port_bound [of p] in \<open>simp_all add: INT_MIN_le_nonneg INT_MAX_def\<close>)

lemma substr_around:
  "substr (a @ c # b) 0 (length a) = a"
  "substr (a @ c # b) (length a + 1) (length (a @ c # b) - length a - 1) = b"
  by (simp_all add: substr_def)

lemma parse_toString:
  assumes "CHR '':'' \<notin> set ip"
  shows "IPNetAddr_parse inet (ip @ '':'' @ to_string (uint p)) = IPNetAddr inet ip p"
  using assms substr_around [of ip "CHR '':''" "to_string (uint p)"]
  by (simp add: IPNetAddr_parse_def IPNetAddr_def Let_def atoi_port)

lemma CheckValid_toString:
  assumes "CHR '':'' \<notin> set ip"
  shows "CheckValid (ip @ '':'' @ to_string (uint (p :: uint16))) \<longleftrightarrow> ip \<noteq> [] \<and> p \<noteq> 0"
  using assms substr_around [of ip "CHR '':''" "to_string (uint p)"] uint_port_bound [of p]
  by (auto simp: CheckValid_def Let_def atoi_port uint_0_iff not_le less_le)

lemma CheckValid_parse:
  assumes "CheckValid addr"
  obtains ip port where "addr = ip @ CHR '':'' # port" "CHR '':'' \<notin> set ip" "ip \<noteq> []" "port \<noteq> []"
    "0 < atoi port" "atoi port \<le> 65536"
    "IPNetAddr_parse inet addr = IPNetAddr inet ip (word_of_int (atoi port))"
proof -
  obtain i where i: "find_first_of CHR '':'' addr = Some i"
    using assms by (auto simp: CheckValid_def split: option.splits)
  define ip port where "ip = take i addr" and "port = drop (Suc i) addr"
  have split: "addr = ip @ CHR '':'' # port" "CHR '':'' \<notin> set ip" "length ip = i"
    using find_first_of_Some_split [OF i] find_first_of_SomeD [OF i] by (auto simp: ip_def port_def)
  have "substr addr 0 i = ip" "substr addr (i + 1) (length addr - i - 1) = port"
    using substr_around [of ip "CHR '':''" port] split by simp_all
  with split assms i that show ?thesis
    by (auto simp: CheckValid_def IPNetAddr_parse_def IPNetAddr_def Let_def split: if_splits)
qed

section \<open>Properties\<close>

text \<open>
  C40. Addresses survive printing: the string of an address with a colon-free host parses back to
  the very same object, socket address included, and the string is accepted by the validity check
  exactly when the host is not empty and the port is not zero.
\<close>

theorem address_roundtrip:
  assumes "CHR '':'' \<notin> set ip"
  shows "IPNetAddr_parse inet_addr (toString (IPNetAddr inet_addr ip port)) = IPNetAddr inet_addr ip port \<and>
         (CheckValid (toString (IPNetAddr inet_addr ip port)) \<longleftrightarrow> ip \<noteq> [] \<and> port \<noteq> 0)"
  using parse_toString [OF assms, of inet_addr port] CheckValid_toString [OF assms, of port]
  by (simp add: toString_def IPNetAddr_def)

theorem address_roundtrip_witness:
  "IPNetAddr_parse (\<lambda>_. 1) (toString (IPNetAddr (\<lambda>_. 1) ''10.0.0.1'' 80)) = IPNetAddr (\<lambda>_. 1) ''10.0.0.1'' 80 \<and>
   CheckValid (toString (IPNetAddr (\<lambda>_. 1) ''10.0.0.1'' 80))"
  using address_roundtrip [of "''10.0.0.1''" "\<lambda>_. 1" 80] by simp

text \<open>
  What the validity check guarantees about the parsed address: the host is not empty, the
  stored port reads back in network byte order, and it is the decimal number in the string except
  for \<open>65536\<close>, which the check admits and the 16-bit port turns into \<open>0\<close>.
\<close>

theorem valid_address_port:
  assumes "CheckValid addr"
  shows "\<exists>ip port sa. addr = ip @ '':'' @ port \<and> m_ip (IPNetAddr_parse inet_addr addr) = ip \<and> ip \<noteq> [] \<and>
     m_addr (IPNetAddr_parse inet_addr addr) = Some sa \<and>
     ntohs (sin_port sa) = m_port (IPNetAddr_parse inet_addr addr) \<and>
     uint (m_port (IPNetAddr_parse inet_addr addr)) = (if atoi port = 65536 then 0 else atoi port)"
proof -
  obtain ip port where p: "addr = ip @ CHR '':'' # port" "ip \<noteq> []" "0 < atoi port" "atoi port \<le> 65536"
    "IPNetAddr_parse inet_addr addr = IPNetAddr inet_addr ip (word_of_int (atoi port))"
    using CheckValid_parse [OF assms, of inet_addr] by metis
  have "uint (word_of_int (atoi port) :: uint16) = atoi port mod 65536"
    by (simp add: uint_word_of_int)
  with p show ?thesis
    by (auto simp: IPNetAddr_def mod_pos_pos_trivial)
qed

theorem valid_address_port_witness:
  "CheckValid ''h:65536'' \<and> m_port (IPNetAddr_parse (\<lambda>_. 1) ''h:65536'') = 0"
proof -
  have a: "atoi ''65536'' = 65536"
    by (simp add: atoi_def strtol10_def is_space_def is_digit_def digit_value_def
        sint_word_of_int_32 INT_MIN_def INT_MAX_def)
  have v: "CheckValid ''h:65536''"
    by (simp add: CheckValid_def substr_def a)
  have "\<exists>ip port sa. ''h:65536'' = ip @ '':'' @ port \<and>
      uint (m_port (IPNetAddr_parse (\<lambda>_. 1) ''h:65536'')) = (if atoi port = 65536 then 0 else atoi port)"
    using valid_address_port [OF v, of "\<lambda>_. 1"] by blast
  then have "uint (m_port (IPNetAddr_parse (\<lambda>_. 1) ''h:65536'')) = 0"
    by (auto simp: append_eq_Cons_conv Cons_eq_append_conv a)
  with v show ?thesis
    by (simp add: uint_0_iff)
qed

end
