(* ===== verification/Config.thy ===== *)
theory Config
  imports CppString StdMap NetAddr
begin

text \<open>
  Configuration (\<open>common/config_reader.h\<close>, \<open>common/config.h\<close>, \<open>common/config.cc\<close>, and
  \<open>getServiceTTL\<close> of \<open>net/rpc/rpc_dispatcher.cc\<close>, \<open>readIntConfig\<close> of
  \<open>net/service_discovery/run_server_discovery.cc\<close>). The key-value file is its text; the XML
  library is not part of the sources, so an XML element is a value of a type \<open>'e\<close> with two
  accessors as parameters: \<open>children e n\<close>, the child elements named \<open>n\<close> in document order (what
  \<open>FirstChildElement\<close> and \<open>NextSiblingElement\<close> enumerate), and \<open>text e\<close>, \<open>None\<close> for the null
  pointer of \<open>GetText\<close>.
\<close>

section \<open>The key-value file\<close>

definition is_blank :: "char \<Rightarrow> bool" where
  "is_blank c \<longleftrightarrow> c \<in> {CHR '' '', CHR 0x09, CHR 0x0D, CHR 0x0A}"

text \<open>From the first to the last character that is not blank.\<close>

definition trim :: "string \<Rightarrow> string" where
  "trim s = rev (dropWhile is_blank (rev (dropWhile is_blank s)))"

type_synonym config_map = "string \<rightharpoonup> string"

definition parseLine :: "string \<Rightarrow> config_map \<Rightarrow> config_map" where
  "parseLine line configMap =
     (let trimmedLine = trim line in
      if trimmedLine = [] \<or> hd trimmedLine = CHR ''#'' then configMap
      else
        case find_first_of CHR ''='' trimmedLine of
          None \<Rightarrow> configMap
        | Some pos \<Rightarrow>
            configMap(trim (substr trimmedLine 0 pos) \<mapsto> trim (drop (pos + 1) trimmedLine)))"

text \<open>\<open>std::getline\<close> until the end of the file: a last line without newline counts.\<close>

fun getlines :: "string \<Rightarrow> string \<Rightarrow> string list" where
  "getlines acc [] = (if acc = [] then [] else [rev acc])"
| "getlines acc (c # cs) = (if c = CHR 0x0A then rev acc # getlines [] cs else getlines (c # acc) cs)"

text \<open>The constructor; \<open>None\<close> is a file that cannot be opened.\<close>

definition ConfigReader :: "string option \<Rightarrow> config_map" where
  "ConfigReader file = (case file of None \<Rightarrow> Map.empty | Some content \<Rightarrow> fold parseLine (getlines [] content) Map.empty)"

definition setServiceCenterMap :: "string option \<Rightarrow> config_map" where
  "setServiceCenterMap file =
     (let m = ConfigReader file in
      if m ''service_ttl_ms'' = None \<or> m ''service_ttl_ms'' = Some [] then m(''service_ttl_ms'' \<mapsto> ''10000'') else m)"

definition readIntConfig :: "config_map \<Rightarrow> string \<Rightarrow> int \<Rightarrow> int" where
  "readIntConfig config key default_value =
     (case config key of
        None \<Rightarrow> default_value
      | Some v \<Rightarrow> if v = [] then default_value else let value = atoi v in if 0 < value then value else default_value)"

definition DEFAULT_SERVICE_TTL_MS :: int where
  "DEFAULT_SERVICE_TTL_MS = 10000"

definition getServiceTTL :: "config_map \<Rightarrow> int" where
  "getServiceTTL config =
     (case config ''service_ttl_ms'' of
        None \<Rightarrow> DEFAULT_SERVICE_TTL_MS
      | Some v \<Rightarrow> if v = [] then DEFAULT_SERVICE_TTL_MS
                  else let ttl_ms = atoi v in if 0 < ttl_ms then ttl_ms else DEFAULT_SERVICE_TTL_MS)"

definition MIN_HEARTBEAT_INTERVAL_MS :: int where
  "MIN_HEARTBEAT_INTERVAL_MS = 100"

text \<open>The pause of \<open>startServiceHeartbeat\<close> between two rounds.\<close>

definition heartbeat_interval :: "config_map \<Rightarrow> int" where
  "heartbeat_interval config = max MIN_HEARTBEAT_INTERVAL_MS (getServiceTTL config div 2)"

section \<open>The XML file\<close>

record rpc_stub =
  stub_name :: string
  stub_addr :: ip_net_addr
  stub_timeout :: int

record config =
  m_log_level :: string
  m_log_file_name :: string
  m_log_file_path :: string
  m_local_ip :: string
  m_log_max_file_size :: int
  m_log_sync_inteval :: int
  cfg_port :: int
  m_io_threads :: int
  m_rpc_stubs :: "(string, rpc_stub) std_map"

definition default_config :: config where
  "default_config = \<lparr>m_log_level = ''DEBUG'', m_log_file_name = [], m_log_file_path = [], m_local_ip = [],
     m_log_max_file_size = 0, m_log_sync_inteval = 0, cfg_port = 0, m_io_threads = 0, m_rpc_stubs = []\<rparr>"

text \<open>
  The constructor ends the process (\<open>None\<close>) when a required node is missing, and follows a null
  pointer (a fault) when a stub lacks one of its nodes.
\<close>

definition first_child :: "('e \<Rightarrow> string \<Rightarrow> 'e list) \<Rightarrow> 'e \<Rightarrow> string \<Rightarrow> 'e option" where
  "first_child children e n = (case children e n of [] \<Rightarrow> None | x # _ \<Rightarrow> Some x)"

definition read_str :: "('e \<Rightarrow> string \<Rightarrow> 'e list) \<Rightarrow> ('e \<Rightarrow> string option) \<Rightarrow> 'e \<Rightarrow> string \<Rightarrow> string option" where
  "read_str children text parent n = Option.bind (first_child children parent n) text"

definition stub_field ::
  "('e \<Rightarrow> string \<Rightarrow> 'e list) \<Rightarrow> ('e \<Rightarrow> string option) \<Rightarrow> 'e \<Rightarrow> string \<Rightarrow> string cpp" where
  "stub_field children text e n =
     (case read_str children text e n of None \<Rightarrow> Inl NullPointer | Some s \<Rightarrow> Inr s)"

definition read_stub ::
  "(string \<Rightarrow> int32) \<Rightarrow> ('e \<Rightarrow> string \<Rightarrow> 'e list) \<Rightarrow> ('e \<Rightarrow> string option) \<Rightarrow> 'e \<Rightarrow>
     (string, rpc_stub) std_map \<Rightarrow> (string, rpc_stub) std_map cpp" where
  "read_stub inet children text node stubs =
     bind_cpp (stub_field children text node ''name'') (\<lambda>name.
     bind_cpp (stub_field children text node ''timeout'') (\<lambda>timeout.
     bind_cpp (stub_field children text node ''ip'') (\<lambda>ip.
     bind_cpp (stub_field children text node ''port'') (\<lambda>port.
       Inr (map_insert name \<lparr>stub_name = name, stub_addr = IPNetAddr inet ip (word_of_int (atoi port)),
              stub_timeout = atoi timeout\<rparr> stubs)))))"

definition Config_xml ::
  "(string \<Rightarrow> int32) \<Rightarrow> ('e \<Rightarrow> string \<Rightarrow> 'e list) \<Rightarrow> ('e \<Rightarrow> string option) \<Rightarrow> 'e option \<Rightarrow> config option cpp" where
  "Config_xml inet children text document =
     (case Option.bind document (\<lambda>d. first_child children d ''root'') of
        None \<Rightarrow> Inr None
      | Some root \<Rightarrow>
          (case (first_child children root ''log'', first_child children root ''server'') of
             (Some log_node, Some server_node) \<Rightarrow>
               (case (read_str children text log_node ''log_level'', read_str children text log_node ''log_file_name'',
                      read_str children text log_node ''log_file_path'', read_str children text log_node ''log_max_file_size'',
                      read_str children text log_node ''log_sync_interval'', read_str children text server_node ''port'',
                      read_str children text server_node ''io_threads'', read_str children text server_node ''local_ip'') of
                  (Some level, Some file_name, Some file_path, Some max_size, Some interval, Some port, Some io_threads, Some local_ip) \<Rightarrow>
                    bind_cpp (case first_child children root ''stubs'' of
                                None \<Rightarrow> Inr []
                              | Some stubs_node \<Rightarrow>
                                  fold_cpp (read_stub inet children text) (children stubs_node ''rpc_server'') []) (\<lambda>stubs.
                      Inr (Some \<lparr>m_log_level = level, m_log_file_name = file_name, m_log_file_path = file_path,
                        m_local_ip = local_ip, m_log_max_file_size = atoi max_size, m_log_sync_inteval = atoi interval,
                        cfg_port = atoi port, m_io_threads = atoi io_threads, m_rpc_stubs = stubs\<rparr>))
                | _ \<Rightarrow> Inr None)
           | _ \<Rightarrow> Inr None))"

text \<open>\<open>SetGlobalConfig\<close> only takes effect once.\<close>

definition SetGlobalConfig :: "config option cpp option \<Rightarrow> config option \<Rightarrow> config option option cpp" where
  "SetGlobalConfig xmlfile g_config =
     (case g_config of
        Some c \<Rightarrow> Inr (Some (Some c))
      | None \<Rightarrow>
          (case xmlfile of
             None \<Rightarrow> Inr (Some (Some default_config))
           | Some result \<Rightarrow> bind_cpp result (\<lambda>r. Inr (map_option Some r))))"

section \<open>Lemmas\<close>

abbreviation blanks :: "string \<Rightarrow> bool" where
  "blanks s \<equiv> (\<forall>c \<in> set s. is_blank c)"

definition trimmed :: "string \<Rightarrow> bool" where
  "trimmed s \<longleftrightarrow> s = [] \<or> (\<not> is_blank (hd s) \<and> \<not> is_blank (last s))"

lemma trim_padded:
  assumes "trimmed s" and "blanks a" and "blanks b"
  shows "trim (a @ s @ b) = s"
proof (cases "s = []")
  case True
  with assms show ?thesis
    by (simp add: trim_def dropWhile_eq_Nil_conv [THEN iffD2])
next
  case False
  then obtain c cs where s: "s = c # cs" by (cases s) auto
  obtain d ds where r: "rev s = d # ds" using False by (cases "rev s") auto
  have "d = last s"
    using hd_rev [of s] by (simp add: r)
  then have c: "\<not> is_blank c" and d: "\<not> is_blank d"
    using assms(1) False by (auto simp: trimmed_def s)
  have "dropWhile is_blank (a @ s @ b) = s @ b"
    using assms(2) c by (simp add: s)
  moreover have "dropWhile is_blank (rev b @ rev s) = dropWhile is_blank (rev s)"
    using assms(3) by (intro dropWhile_append2) auto
  then have "dropWhile is_blank (rev (s @ b)) = rev s"
    using d by (simp add: r)
  ultimately show ?thesis by (simp add: trim_def)
qed

lemma trim_trimmed [simp]: "trimmed (trim s)"
proof -
  define t where "t = dropWhile is_blank s"
  have l: "trim s = [] \<or> \<not> is_blank (last (trim s))"
    unfolding trim_def by (metis hd_dropWhile last_rev rev_is_Nil_conv)
  have "trim s = [] \<or> hd (trim s) = hd t"
  proof -
    obtain u where "rev t = u @ dropWhile is_blank (rev t)"
      by (metis takeWhile_dropWhile_id)
    then have "t = trim s @ rev u"
      by (metis rev_append rev_rev_ident trim_def t_def)
    then show ?thesis by (cases "trim s") auto
  qed
  moreover have "t = [] \<or> \<not> is_blank (hd t)"
    by (metis hd_dropWhile t_def)
  moreover have "t = [] \<Longrightarrow> trim s = []"
    unfolding trim_def t_def [symmetric] by simp
  ultimately show ?thesis
    using l by (auto simp: trimmed_def)
qed

lemma getServiceTTL_pos: "0 < getServiceTTL config" "getServiceTTL config \<le> INT_MAX"
  using atoi_bounds by (auto simp: getServiceTTL_def DEFAULT_SERVICE_TTL_MS_def Let_def INT_MAX_def split: option.splits)

text \<open>Keys and values that survive being written to the file.\<close>

definition key_ok :: "string \<Rightarrow> bool" where
  "key_ok k \<longleftrightarrow> k \<noteq> [] \<and> trimmed k \<and> CHR ''='' \<notin> set k \<and> CHR 0x0A \<notin> set k \<and> hd k \<noteq> CHR ''#''"

definition value_ok :: "string \<Rightarrow> bool" where
  "value_ok v \<longleftrightarrow> trimmed v \<and> CHR 0x0A \<notin> set v"

lemma parseLine_entry:
  assumes "key_ok k" and "value_ok v" and "blanks a" and "blanks b" and "blanks c" and "blanks d"
  shows "parseLine (a @ k @ b @ ''='' @ c @ v @ d) m = m(k \<mapsto> v)"
proof -
  define r where "r = (if v = [] then [] else c @ v)"
  define t where "t = (k @ b) @ CHR ''='' # r"
  have k: "k \<noteq> []" "\<not> is_blank (hd k)" "trimmed k" "hd k \<noteq> CHR ''#''"
    using assms(1) by (auto simp: key_ok_def trimmed_def)
  have "\<not> is_blank (last t)"
    using assms(2) by (auto simp: t_def r_def value_ok_def trimmed_def is_blank_def)
  then have "trimmed t"
    using k by (simp add: t_def trimmed_def)
  then have "trim (a @ t @ (if v = [] then c @ d else d)) = t"
    using assms(3,5,6) by (intro trim_padded) auto
  then have t: "trim (a @ k @ b @ ''='' @ c @ v @ d) = t"
    by (simp add: t_def r_def split: if_splits)
  have "\<not> is_blank CHR ''=''"
    by (simp add: is_blank_def)
  then have eq: "CHR ''='' \<notin> set (k @ b)"
    using assms(1,4) unfolding key_ok_def by auto
  define n where "n = length (k @ b)"
  have key: "trim (k @ b) = k"
    using trim_padded [of k "[]" b] k(3) assms(4) by simp
  have "trimmed v"
    using assms(2) by (simp add: value_ok_def)
  then have val: "trim r = v"
    using trim_padded [of v c "[]"] trim_padded [of v "[]" "[]"] assms(5) by (cases "v = []") (simp_all add: r_def)
  have pos: "find_first_of CHR ''='' t = Some n"
    unfolding t_def n_def by (rule find_first_of_append [OF eq])
  have cut: "substr t 0 n = k @ b" "drop (n + 1) t = r"
    by (simp_all add: t_def substr_def n_def)
  have "t \<noteq> []" "hd t \<noteq> CHR ''#''"
    using k(1,4) by (simp_all add: t_def)
  then show ?thesis
    unfolding parseLine_def t Let_def pos option.case cut key val by simp
qed

lemma getlines_prefix:
  "CHR 0x0A \<notin> set l \<Longrightarrow> getlines acc (l @ CHR 0x0A # rest) = (rev acc @ l) # getlines [] rest"
  by (induction l arbitrary: acc) auto

definition print_entry :: "string \<times> string \<Rightarrow> string" where
  "print_entry e = fst e @ '' = '' @ snd e @ [CHR 0x0A]"

lemma getlines_entries:
  assumes "\<forall>(k, v) \<in> set kvs. key_ok k \<and> value_ok v"
  shows "fold parseLine (getlines [] (concat (map print_entry kvs))) m = m ++ map_of (rev kvs)"
  using assms
proof (induction kvs arbitrary: m)
  case (Cons e kvs)
  obtain k v where e: "e = (k, v)" "key_ok k" "value_ok v"
    using Cons.prems by (cases e) auto
  have "CHR 0x0A \<notin> set (k @ '' = '' @ v)"
    using e by (auto simp: key_ok_def value_ok_def)
  then have "getlines [] (concat (map print_entry (e # kvs))) =
      (k @ '' = '' @ v) # getlines [] (concat (map print_entry kvs))"
    using getlines_prefix [of "k @ '' = '' @ v" "[]" "concat (map print_entry kvs)"] e(1)
    by (simp add: print_entry_def)
  moreover have "parseLine (k @ '' = '' @ v) m = m(k \<mapsto> v)"
    using parseLine_entry [OF e(2,3), of "[]" "'' ''" "'' ''" "[]" m] by (simp add: is_blank_def)
  ultimately show ?case
    using Cons by (simp add: e(1) map_add_def fun_eq_iff split: option.splits)
qed simp

section \<open>Properties\<close>

text \<open>
  C39. The key-value configuration file: a file of lines \<open>key = value\<close>, whose keys and values have
  no outer blanks and no newline and whose keys contain no equals sign and do not start as a
  comment, is read back as exactly these entries, a later line winning over an earlier one.
\<close>

theorem config_file_roundtrip:
  assumes "\<forall>(k, v) \<in> set kvs. key_ok k \<and> value_ok v"
  shows "ConfigReader (Some (concat (map print_entry kvs))) = map_of (rev kvs)"
  using getlines_entries [OF assms, of Map.empty] by (simp add: ConfigReader_def)

theorem config_file_roundtrip_witness:
  "ConfigReader (Some (concat (map print_entry [(''query_port'', ''8080''), (''service_ttl_ms'', ''10000'')]))) ''query_port'' = Some ''8080''"
  using config_file_roundtrip [of "[(''query_port'', ''8080''), (''service_ttl_ms'', ''10000'')]"]
  by (simp add: key_ok_def value_ok_def trimmed_def is_blank_def)

text \<open>
  Heartbeats against the time to live: whatever the configuration file says, the time to live
  is a positive \<open>int\<close>, the pause between heartbeats is at least 100 ms and at most half of a time
  to live of 200 ms or more, and it is shorter than the time to live exactly when that is more
  than 100 ms (so a service with a shorter one expires between its heartbeats).
\<close>

theorem heartbeat_interval_vs_ttl:
  "0 < getServiceTTL config \<and> getServiceTTL config \<le> INT_MAX \<and>
   MIN_HEARTBEAT_INTERVAL_MS \<le> heartbeat_interval config \<and>
   2 * heartbeat_interval config \<le> max 200 (getServiceTTL config) \<and>
   (heartbeat_interval config < getServiceTTL config \<longleftrightarrow> 100 < getServiceTTL config)"
  using getServiceTTL_pos [of config]
  by (auto simp: heartbeat_interval_def MIN_HEARTBEAT_INTERVAL_MS_def)

end
