(* ===== verification/ServiceDiscovery.thy ===== *)
theory ServiceDiscovery
  imports Config
begin

text \<open>
  The service discovery centre (\<open>net/service_discovery/run_server_discovery.cc\<close>) and its clients
  (\<open>run_time_service_discovery_interface.h\<close>, \<open>service_discovery.h\<close>). The registry maps method
  names to an address and the time it was last seen. The two handlers of the server's loop, for a
  command on the control socket and for a query, are functions of the bytes one \<open>recv\<close> returned
  and of the clock; the process around them is in \<open>DiscoveryCenter\<close>. \<open>nowMs\<close> is read once per command,
  and once per entry when expired entries are pruned.
\<close>

section \<open>Registry\<close>

record service_node =
  node_addr :: string
  last_seen_ms :: int

type_synonym registry = "(string, service_node) std_map"

definition isExpired :: "int \<Rightarrow> int \<Rightarrow> service_node \<Rightarrow> bool" where
  "isExpired ttl now node \<longleftrightarrow> ttl < now - last_seen_ms node"

fun pruneExpiredServices :: "int \<Rightarrow> (nat \<Rightarrow> int) \<Rightarrow> nat \<Rightarrow> registry \<Rightarrow> registry" where
  "pruneExpiredServices ttl clock i [] = []"
| "pruneExpiredServices ttl clock i ((name, node) # m) =
     (if isExpired ttl (clock i) node then pruneExpiredServices ttl clock (Suc i) m
      else (name, node) # pruneExpiredServices ttl clock (Suc i) m)"

definition parseServiceAndAddr :: "string \<Rightarrow> (string \<times> string) option" where
  "parseServiceAndAddr content =
     (case find_first_of CHR '' '' content of
        None \<Rightarrow> None
      | Some split \<Rightarrow>
          let service_name = substr content 0 split; service_addr = drop (split + 1) content in
          if service_name \<noteq> [] \<and> service_addr \<noteq> [] then Some (service_name, service_addr) else None)"

section \<open>The handlers\<close>

text \<open>
  \<open>recv\<close> returns at most 1023 bytes into a buffer of 1024; its result is stored in a \<open>size_t\<close>,
  so the \<open>-1\<close> of an error passes the test \<open>bytesRead <= 0\<close> and indexes the buffer.
\<close>

datatype recv_result = Received "byte list" | RecvError

definition command_text :: "recv_result \<Rightarrow> string option cpp" where
  "command_text r =
     (case r of
        RecvError \<Rightarrow> Inl OutOfRange
      | Received bs \<Rightarrow> if bs = [] then Inr None else Inr (Some (c_str_to_string (take 1023 bs))))"

definition refresh :: "string \<Rightarrow> string \<Rightarrow> int \<Rightarrow> registry \<Rightarrow> registry" where
  "refresh name addr now m = map_assign name \<lparr>node_addr = addr, last_seen_ms = now\<rparr> m"

definition split_command :: "string \<Rightarrow> string \<times> string" where
  "split_command command =
     (case find_first_of CHR '' '' command of
        None \<Rightarrow> (command, [])
      | Some op_end \<Rightarrow> (substr command 0 op_end, drop (op_end + 1) command))"

definition run_operator :: "int \<Rightarrow> (nat \<Rightarrow> int) \<Rightarrow> string \<Rightarrow> string \<Rightarrow> registry \<Rightarrow> registry \<times> string" where
  "run_operator ttl clock operator_c content m =
     (if operator_c = ''add'' \<or> operator_c = ''heartbeat'' then
        (case parseServiceAndAddr content of
           None \<Rightarrow> (m, ''invalid service command'')
         | Some (name, addr) \<Rightarrow> (refresh name addr (clock 0) m, operator_c @ '' service success''))
      else if operator_c = ''delete'' then
        (case map_find m content of
           None \<Rightarrow> (m, ''service not exist'')
         | Some _ \<Rightarrow> (map_erase content m, ''delete service success''))
      else if operator_c = ''lookup'' then
        (let m = pruneExpiredServices ttl clock 0 m in
         if m = [] then (m, ''service map is empty'')
         else (m, concat (map (\<lambda>(name, node). name @ '' '' @ node_addr node @ [CHR 0x0A]) m)))
      else if operator_c = ''modify'' then
        (case parseServiceAndAddr content of
           None \<Rightarrow> (m, ''invalid service command'')
         | Some (name, addr) \<Rightarrow>
             if map_find m name = None then (m, ''service not exist'')
             else (refresh name addr (clock 0) m, ''modify service success''))
      else (m, ''unkown command''))"

definition control_command :: "int \<Rightarrow> (nat \<Rightarrow> int) \<Rightarrow> string \<Rightarrow> registry \<Rightarrow> registry \<times> string" where
  "control_command ttl clock command m =
     (case split_command command of (operator_c, content) \<Rightarrow> run_operator ttl clock operator_c content m)"

text \<open>The reply is \<open>None\<close> when nothing was received and the socket is just closed.\<close>

definition handle_control :: "int \<Rightarrow> (nat \<Rightarrow> int) \<Rightarrow> recv_result \<Rightarrow> registry \<Rightarrow> (registry \<times> string option) cpp" where
  "handle_control ttl clock r m =
     bind_cpp (command_text r) (\<lambda>command.
       Inr (case command of
              None \<Rightarrow> (m, None)
            | Some c \<Rightarrow> (case control_command ttl clock c m of (m', back_message) \<Rightarrow> (m', Some back_message))))"

definition query_registry :: "int \<Rightarrow> int \<Rightarrow> string \<Rightarrow> registry \<Rightarrow> registry \<times> string" where
  "query_registry ttl now server_name m =
     (case map_find m server_name of
        None \<Rightarrow> (m, ''unknown host'')
      | Some node \<Rightarrow>
          if isExpired ttl now node then (map_erase server_name m, ''unknown host'')
          else (m, node_addr node))"

definition handle_query :: "int \<Rightarrow> int \<Rightarrow> recv_result \<Rightarrow> registry \<Rightarrow> (registry \<times> string option) cpp" where
  "handle_query ttl now r m =
     bind_cpp (command_text r) (\<lambda>server_name.
       Inr (case server_name of
              None \<Rightarrow> (m, None)
            | Some n \<Rightarrow> (case query_registry ttl now n m of (m', addr) \<Rightarrow> (m', Some addr))))"

section \<open>The clients\<close>

definition add_command :: "string \<Rightarrow> string \<Rightarrow> string \<Rightarrow> int \<Rightarrow> string" where
  "add_command operator_c service_name ip port =
     operator_c @ '' '' @ service_name @ '' '' @ ip @ '':'' @ to_string port"

definition add_service :: "string \<Rightarrow> string \<Rightarrow> int \<Rightarrow> string" where
  "add_service service_name ip port = add_command ''add'' service_name ip port"

definition modify_service :: "string \<Rightarrow> string \<Rightarrow> int \<Rightarrow> string" where
  "modify_service service_name ip port = add_command ''modify'' service_name ip port"

definition heartbeat_service :: "string \<Rightarrow> string \<Rightarrow> int \<Rightarrow> string" where
  "heartbeat_service service_name ip port = add_command ''heartbeat'' service_name ip port"

definition delete_service :: "string \<Rightarrow> string" where
  "delete_service service_name = ''delete '' @ service_name"

definition look_up :: string where
  "look_up = ''lookup''"

record rc_message =
  rc_info :: string
  is_success :: bool

datatype exchange = SocketError | ConnectError | WriteError | ReadError | Answer "byte list"

text \<open>
  \<open>to_command\<close>: one connection, one write, one read of up to 1024 bytes into a buffer of 1024,
  then a terminator behind the bytes read.
\<close>

definition to_command :: "exchange \<Rightarrow> rc_message cpp" where
  "to_command ex =
     (case ex of
        SocketError \<Rightarrow> Inr \<lparr>rc_info = ''socket error'', is_success = False\<rparr>
      | ConnectError \<Rightarrow> Inr \<lparr>rc_info = ''connect error'', is_success = False\<rparr>
      | WriteError \<Rightarrow> Inr \<lparr>rc_info = ''write error'', is_success = False\<rparr>
      | ReadError \<Rightarrow> Inr \<lparr>rc_info = ''read error'', is_success = False\<rparr>
      | Answer bs \<Rightarrow>
          let ret = length (take 1024 bs) in
          if ret < 1024 then Inr \<lparr>rc_info = c_str_to_string (take 1024 bs), is_success = True\<rparr>
          else Inl OutOfRange)"

text \<open>\<open>serviceDiscovery\<close>: \<open>None\<close> is the \<open>exit(1)\<close> of \<open>sys_error\<close>.\<close>

definition serviceDiscovery :: "exchange \<Rightarrow> string option cpp" where
  "serviceDiscovery ex =
     (case ex of
        Answer bs \<Rightarrow>
          if length (take 1024 bs) < 1024 then Inr (Some (c_str_to_string (take 1024 bs))) else Inl OutOfRange
      | _ \<Rightarrow> Inr None)"

section \<open>Lemmas\<close>

lemma prune_filter:
  "set (pruneExpiredServices ttl clock i m) \<subseteq> set m"
  by (induction ttl clock i m rule: pruneExpiredServices.induct) auto

lemma map_ok_prune: "map_ok m \<Longrightarrow> map_ok (pruneExpiredServices ttl clock i m)"
proof (induction ttl clock i m rule: pruneExpiredServices.induct)
  case (2 ttl clock i name node m)
  then show ?case
    using prune_filter [of ttl clock "Suc i" m] by (auto simp: map_ok_Cons)
qed simp

lemma map_ok_control: "map_ok m \<Longrightarrow> map_ok (fst (control_command ttl clock c m))"
  by (simp add: control_command_def run_operator_def refresh_def map_ok_assign map_ok_erase map_ok_prune Let_def
      split: option.splits prod.splits)

lemma map_ok_query: "map_ok m \<Longrightarrow> map_ok (fst (query_registry ttl now n m))"
  by (simp add: query_registry_def map_ok_erase split: option.splits)

text \<open>A method name that the text protocol can carry.\<close>

definition name_ok :: "string \<Rightarrow> bool" where
  "name_ok n \<longleftrightarrow> n \<noteq> [] \<and> CHR '' '' \<notin> set n \<and> CHR 0x00 \<notin> set n"

lemma parseServiceAndAddr_command:
  assumes "name_ok n" and "addr \<noteq> []"
  shows "parseServiceAndAddr (n @ '' '' @ addr) = Some (n, addr)"
  using assms by (simp add: parseServiceAndAddr_def name_ok_def substr_def)

lemma control_add_command:
  assumes "name_ok n" and "cmd = ''add'' \<or> cmd = ''heartbeat''"
  shows "control_command ttl clock (add_command cmd n ip port) m =
     (refresh n (ip @ '':'' @ to_string port) (clock 0) m, cmd @ '' service success'')"
proof -
  define addr where "addr = ip @ '':'' @ to_string port"
  have sp: "CHR '' '' \<notin> set cmd"
    using assms(2) by auto
  have "add_command cmd n ip port = cmd @ CHR '' '' # n @ '' '' @ addr"
    by (simp add: add_command_def addr_def)
  moreover have "find_first_of CHR '' '' (cmd @ CHR '' '' # n @ '' '' @ addr) = Some (length cmd)"
    by (rule find_first_of_append [OF sp])
  moreover have "parseServiceAndAddr (n @ '' '' @ addr) = Some (n, addr)"
    by (rule parseServiceAndAddr_command [OF assms(1)]) (simp add: addr_def)
  ultimately show ?thesis
    using assms(2) by (auto simp: control_command_def split_command_def run_operator_def substr_def addr_def Let_def)
qed

lemma command_text_short:
  "bs \<noteq> [] \<Longrightarrow> length bs \<le> 1023 \<Longrightarrow> CHR 0x00 \<notin> set bs \<Longrightarrow> command_text (Received bs) = Inr (Some bs)"
  by (simp add: command_text_def)

section \<open>Serving requests\<close>

text \<open>One request, with the time at which it is served.\<close>

datatype request = ControlRequest recv_result | QueryRequest recv_result

fun serve :: "int \<Rightarrow> int \<times> request \<Rightarrow> registry \<Rightarrow> registry cpp" where
  "serve ttl (now, ControlRequest r) m = bind_cpp (handle_control ttl (\<lambda>_. now) r m) (\<lambda>(m', _). Inr m')"
| "serve ttl (now, QueryRequest r) m = bind_cpp (handle_query ttl now r m) (\<lambda>(m', _). Inr m')"

text \<open>The method a control command changes, if it changes one.\<close>

definition target :: "string \<Rightarrow> string option" where
  "target command =
     (case split_command command of (operator_c, content) \<Rightarrow>
        if operator_c = ''delete'' then Some content
        else if operator_c = ''add'' \<or> operator_c = ''heartbeat'' \<or> operator_c = ''modify''
             then map_option fst (parseServiceAndAddr content)
        else None)"

fun concerns :: "string \<Rightarrow> request \<Rightarrow> bool" where
  "concerns n (QueryRequest r) = False"
| "concerns n (ControlRequest r) = (\<exists>c. command_text r = Inr (Some c) \<and> target c = Some n)"

lemma prune_const: "pruneExpiredServices ttl (\<lambda>_. now) i m = filter (\<lambda>(_, node). \<not> isExpired ttl now node) m"
  by (induction ttl "\<lambda>_ :: nat. now" i m rule: pruneExpiredServices.induct) auto

text \<open>What each operator does to the map from names to nodes.\<close>

definition live :: "int \<Rightarrow> int \<Rightarrow> (string \<rightharpoonup> service_node) \<Rightarrow> (string \<rightharpoonup> service_node)" where
  "live ttl now M n = (case M n of None \<Rightarrow> None | Some node \<Rightarrow> if isExpired ttl now node then None else Some node)"

definition announced :: "int \<Rightarrow> string \<Rightarrow> (string \<rightharpoonup> service_node) \<Rightarrow> (string \<rightharpoonup> service_node)" where
  "announced now content M =
     (case parseServiceAndAddr content of None \<Rightarrow> M | Some (n, addr) \<Rightarrow> M(n \<mapsto> \<lparr>node_addr = addr, last_seen_ms = now\<rparr>))"

definition modified :: "int \<Rightarrow> string \<Rightarrow> (string \<rightharpoonup> service_node) \<Rightarrow> (string \<rightharpoonup> service_node)" where
  "modified now content M =
     (case parseServiceAndAddr content of None \<Rightarrow> M
      | Some (n, addr) \<Rightarrow> if M n = None then M else M(n \<mapsto> \<lparr>node_addr = addr, last_seen_ms = now\<rparr>))"

lemma run_operator_map:
  assumes "map_ok m"
  shows "map_find (fst (run_operator ttl (\<lambda>_. now) oper content m)) =
     (if oper = ''add'' \<or> oper = ''heartbeat'' then announced now content (map_find m)
      else if oper = ''delete'' then (map_find m)(content := None)
      else if oper = ''lookup'' then live ttl now (map_find m)
      else if oper = ''modify'' then modified now content (map_find m)
      else map_find m)"
proof -
  have "oper = ''add'' \<or> oper = ''heartbeat'' \<Longrightarrow> ?thesis"
    using assms unfolding run_operator_def
    by (simp add: announced_def refresh_def map_find_assign split: option.splits)
  moreover have "oper = ''delete'' \<Longrightarrow> ?thesis"
    using assms unfolding run_operator_def by (auto simp: map_find_erase split: option.splits)
  moreover have "map_find (filter (\<lambda>(_, node). \<not> isExpired ttl now node) m) = live ttl now (map_find m)"
    using assms by (simp add: map_find_filter live_def fun_eq_iff split: option.splits)
  then have "oper = ''lookup'' \<Longrightarrow> ?thesis"
    unfolding run_operator_def prune_const Let_def
    by (cases "filter (\<lambda>(_, node). \<not> isExpired ttl now node) m = []") simp_all
  moreover have "oper = ''modify'' \<Longrightarrow> ?thesis"
    using assms unfolding run_operator_def
    by (auto simp: modified_def refresh_def map_find_assign split: option.splits)
  moreover have "\<not> (oper = ''add'' \<or> oper = ''heartbeat'') \<Longrightarrow> oper \<noteq> ''delete'' \<Longrightarrow> oper \<noteq> ''lookup'' \<Longrightarrow>
      oper \<noteq> ''modify'' \<Longrightarrow> ?thesis"
    unfolding run_operator_def by (simp only: if_False fst_conv)
  ultimately show ?thesis by argo
qed

lemma control_other:
  assumes "map_ok m" and "target c \<noteq> Some n" and "map_find m n = Some node" and "\<not> isExpired ttl now node"
  shows "map_find (fst (control_command ttl (\<lambda>_. now) c m)) n = Some node"
proof -
  obtain oper content where sc: "split_command c = (oper, content)"
    by (cases "split_command c")
  have t: "(if oper = ''delete'' then Some content
      else if oper = ''add'' \<or> oper = ''heartbeat'' \<or> oper = ''modify'' then map_option fst (parseServiceAndAddr content)
      else None) \<noteq> Some n"
    using assms(2) unfolding target_def sc prod.case .
  have a: "map_option fst (parseServiceAndAddr content) \<noteq> Some n \<Longrightarrow> announced now content (map_find m) n = Some node"
    "map_option fst (parseServiceAndAddr content) \<noteq> Some n \<Longrightarrow> modified now content (map_find m) n = Some node"
    using assms(3) by (auto simp: announced_def modified_def split: option.splits)
  have d: "content \<noteq> n \<Longrightarrow> ((map_find m)(content := None)) n = Some node"
    using assms(3) by simp
  have l: "live ttl now (map_find m) n = Some node"
    using assms(3,4) by (simp add: live_def)
  have "fst (control_command ttl (\<lambda>_. now) c m) = fst (run_operator ttl (\<lambda>_. now) oper content m)"
    by (simp add: control_command_def sc)
  note find = arg_cong [OF this, of "\<lambda>x. map_find x n", unfolded run_operator_map [OF assms(1)]]
  consider "oper = ''add'' \<or> oper = ''heartbeat''" | "oper = ''delete''" | "oper = ''lookup''" | "oper = ''modify''"
    | (other) "\<not> (oper = ''add'' \<or> oper = ''heartbeat'')" "oper \<noteq> ''delete''" "oper \<noteq> ''lookup''" "oper \<noteq> ''modify''"
    by blast
  then show ?thesis
  proof cases
    case other
    then show ?thesis using find assms(3) by simp
  qed (use t a d l find in auto)
qed

lemma query_other:
  assumes "map_ok m" and "map_find m n = Some node" and "\<not> isExpired ttl now node"
  shows "map_find (fst (query_registry ttl now k m)) n = Some node"
  using assms by (auto simp: query_registry_def map_find_erase split: option.splits)

lemma serve_other:
  assumes "map_ok m" and "\<not> concerns n r" and "map_find m n = Some node" and "\<not> isExpired ttl now node"
    and "serve ttl (now, r) m = Inr m'"
  shows "map_ok m' \<and> map_find m' n = Some node"
proof (cases r)
  case (ControlRequest x)
  then show ?thesis
    using assms control_other [OF assms(1) _ assms(3,4)] map_ok_control [OF assms(1)]
    by (auto simp: handle_control_def bind_cpp_eq_Inr split_beta split: option.splits)
next
  case (QueryRequest x)
  then show ?thesis
    using assms query_other [OF assms(1,3,4)] map_ok_query [OF assms(1)]
    by (auto simp: handle_query_def bind_cpp_eq_Inr split_beta split: option.splits)
qed

lemma serve_all_other:
  assumes "map_ok m" and "map_find m n = Some node"
    and "\<forall>(t, r) \<in> set es. t \<le> last_seen_ms node + ttl \<and> \<not> concerns n r"
    and "fold_cpp (serve ttl) es m = Inr m'"
  shows "map_ok m' \<and> map_find m' n = Some node"
  using assms
proof (induction es arbitrary: m)
  case (Cons e es)
  obtain t r where e: "e = (t, r)" by (cases e)
  obtain m1 where m1: "serve ttl (t, r) m = Inr m1" "fold_cpp (serve ttl) es m1 = Inr m'"
    using Cons.prems(4) by (auto simp: e bind_cpp_eq_Inr)
  have "\<not> isExpired ttl t node" "\<not> concerns n r"
    using Cons.prems(3) by (auto simp: e isExpired_def)
  from serve_other [OF Cons.prems(1) this(2) Cons.prems(2) this(1) m1(1)]
  show ?case using Cons.IH [of m1] Cons.prems(3) m1(2) by auto
qed simp

text \<open>The specification of a control command on the abstract registry.\<close>

definition spec_control :: "int \<Rightarrow> int \<Rightarrow> string \<Rightarrow> (string \<rightharpoonup> service_node) \<Rightarrow> (string \<rightharpoonup> service_node)" where
  "spec_control ttl now command M =
     (case split_command command of (oper, content) \<Rightarrow>
        if oper = ''add'' \<or> oper = ''heartbeat'' then announced now content M
        else if oper = ''delete'' then M(content := None)
        else if oper = ''lookup'' then live ttl now M
        else if oper = ''modify'' then modified now content M
        else M)"

text \<open>What the centre answers, from the abstract registry alone: a listing is in the order of the names.\<close>

definition listing :: "(string \<rightharpoonup> service_node) \<Rightarrow> string" where
  "listing M =
     (if M = Map.empty then ''service map is empty''
      else concat (map (\<lambda>n. n @ '' '' @ node_addr (the (M n)) @ [CHR 0x0A]) (sorted_list_of_set (dom M))))"

definition spec_reply :: "int \<Rightarrow> int \<Rightarrow> string \<Rightarrow> (string \<rightharpoonup> service_node) \<Rightarrow> string" where
  "spec_reply ttl now command M =
     (case split_command command of (oper, content) \<Rightarrow>
        if oper = ''add'' \<or> oper = ''heartbeat'' then
          (if parseServiceAndAddr content = None then ''invalid service command'' else oper @ '' service success'')
        else if oper = ''delete'' then (if M content = None then ''service not exist'' else ''delete service success'')
        else if oper = ''lookup'' then listing (live ttl now M)
        else if oper = ''modify'' then
          (case parseServiceAndAddr content of
             None \<Rightarrow> ''invalid service command''
           | Some (n, addr) \<Rightarrow> if M n = None then ''service not exist'' else ''modify service success'')
        else ''unkown command'')"

lemma listing_map:
  assumes "map_ok m"
  shows "(if m = [] then ''service map is empty''
          else concat (map (\<lambda>(name, node). name @ '' '' @ node_addr node @ [CHR 0x0A]) m)) = listing (map_find m)"
proof -
  have keys: "sorted (map fst m)" "distinct (map fst m)"
    using assms by (auto simp: map_ok_def strict_sorted_iff)
  have "dom (map_find m) = set (map fst m)"
    using dom_map_of_conv_image_fst [of m] by (simp add: map_find_def dom_def)
  then have "sorted_list_of_set (dom (map_find m)) = map fst m"
    using sorted_list_of_set.idem_if_sorted_distinct [OF keys] by simp
  moreover have "map (\<lambda>(name, node). name @ '' '' @ node_addr node @ [CHR 0x0A]) m =
      map (\<lambda>n. n @ '' '' @ node_addr (the (map_find m n)) @ [CHR 0x0A]) (map fst m)"
    using keys(2) by (auto simp: map_find_def)
  moreover have "map_find m = Map.empty \<longleftrightarrow> m = []"
    by (cases m) (auto simp: map_find_def fun_eq_iff)
  ultimately show ?thesis unfolding listing_def by presburger
qed

lemma run_operator_reply:
  assumes "map_ok m" and "split_command command = (oper, content)"
  shows "snd (run_operator ttl (\<lambda>_. now) oper content m) = spec_reply ttl now command (map_find m)"
proof -
  define f where "f = filter (\<lambda>(_, node). \<not> isExpired ttl now node) m"
  have f: "map_ok f" "map_find f = live ttl now (map_find m)"
    using map_ok_prune [OF assms(1), of ttl "\<lambda>_. now" 0] assms(1)
    by (simp_all add: f_def prune_const map_find_filter live_def fun_eq_iff split: option.splits)
  have "snd (run_operator ttl (\<lambda>_. now) ''lookup'' content m) = listing (live ttl now (map_find m))"
    using listing_map [OF f(1), unfolded f(2)]
    by (cases "f = []") (simp_all add: run_operator_def prune_const f_def [symmetric] Let_def)
  then have "oper = ''lookup'' \<Longrightarrow> ?thesis"
    by (simp add: spec_reply_def assms(2))
  moreover have "oper \<noteq> ''lookup'' \<Longrightarrow> ?thesis"
    unfolding run_operator_def spec_reply_def assms(2) prod.case by (auto split: option.splits prod.splits)
  ultimately show ?thesis by blast
qed

section \<open>Properties\<close>

text \<open>
  C23. A registered service is found: once the centre has handled a registration or heartbeat
  sent by \<open>Runtime_Command\<close>, a query for the method answers with the registered address during
  the time to live, whatever other commands and queries are served in between (as long as none
  of them re-registers, modifies or deletes this method).
\<close>

theorem registered_service_is_found:
  assumes "map_ok m" and "name_ok n" and "length n \<le> 1023" and "CHR 0x00 \<notin> set ip"
    and "cmd = add_service n ip port \<or> cmd = heartbeat_service n ip port" and "length cmd \<le> 1023"
    and "handle_control ttl (\<lambda>_. t0) (Received cmd) m = Inr (m1, back_message)"
    and "fold_cpp (serve ttl) es m1 = Inr m2"
    and "\<forall>(t, r) \<in> set es. t \<le> t0 + ttl \<and> \<not> concerns n r" and "t \<le> t0 + ttl"
  shows "handle_query ttl t (Received n) m2 = Inr (m2, Some (ip @ '':'' @ to_string port))"
proof -
  define node where "node = \<lparr>node_addr = ip @ '':'' @ to_string port, last_seen_ms = t0\<rparr>"
  obtain c where c: "cmd = add_command c n ip port" "c = ''add'' \<or> c = ''heartbeat''"
    using assms(5) by (auto simp: add_service_def heartbeat_service_def)
  have "CHR 0x00 \<notin> set (to_string port)"
    using to_string_chars [of port] by (force simp: is_digit_def)
  then have "CHR 0x00 \<notin> set cmd" "cmd \<noteq> []"
    using assms(2,4) c by (auto simp: add_command_def name_ok_def)
  then have "command_text (Received cmd) = Inr (Some cmd)"
    using assms(6) by (intro command_text_short)
  then have m1: "m1 = map_assign n node m"
    using assms(7) control_add_command [OF assms(2) c(2), of ttl "\<lambda>_. t0" ip port m]
    by (simp add: handle_control_def c(1) refresh_def node_def)
  have "map_ok m1" "map_find m1 n = Some node"
    using assms(1) by (simp_all add: m1 map_ok_assign map_find_assign)
  then have m2: "map_find m2 n = Some node"
    using serve_all_other [of m1 n node es ttl m2] assms(8,9) by (simp add: node_def)
  have "command_text (Received n) = Inr (Some n)"
    using assms(2,3) by (intro command_text_short) (auto simp: name_ok_def)
  then show ?thesis
    using m2 assms(10) by (simp add: handle_query_def query_registry_def isExpired_def node_def)
qed

theorem registered_service_is_found_witness:
  "\<exists>m1 b. handle_control 10000 (\<lambda>_. 5) (Received (add_service ''Order.make'' ''10.0.0.1'' 12345)) [] = Inr (m1, b) \<and>
     handle_query 10000 10005 (Received ''Order.make'') m1 = Inr (m1, Some (''10.0.0.1:'' @ to_string 12345))"
proof -
  obtain m1 b where h: "handle_control 10000 (\<lambda>_. 5) (Received (add_service ''Order.make'' ''10.0.0.1'' 12345)) [] = Inr (m1, b)"
    by (simp add: handle_control_def command_text_def add_service_def add_command_def split_beta)
  have "length (to_string 12345) = 5"
    by (simp add: to_string_def dec_of_nat.simps)
  then have "length (add_service ''Order.make'' ''10.0.0.1'' 12345) \<le> 1023"
    by (simp add: add_service_def add_command_def)
  then show ?thesis
    using registered_service_is_found [OF _ _ _ _ _ _ h, of "''Order.make''" "''10.0.0.1''" 12345 "[]" m1 10005] h
    by (auto simp: name_ok_def)
qed

text \<open>
  An expired service is not returned: a query later than the time to live after the method
  was last seen answers that the host is unknown and removes the entry; so does a query for a
  method that was never registered.
\<close>

theorem expired_service_is_unknown:
  assumes "map_ok m" and "name_ok n" and "length n \<le> 1023"
    and "\<forall>node. map_find m n = Some node \<longrightarrow> last_seen_ms node + ttl < t"
  shows "\<exists>m'. handle_query ttl t (Received n) m = Inr (m', Some ''unknown host'') \<and> map_ok m' \<and>
           map_find m' = (map_find m)(n := None)"
proof -
  have "command_text (Received n) = Inr (Some n)"
    using assms(2,3) by (intro command_text_short) (auto simp: name_ok_def)
  then show ?thesis
    using assms(1,4) by (auto simp: handle_query_def query_registry_def isExpired_def map_ok_erase map_find_erase
        fun_eq_iff split: option.splits)
qed

theorem expired_service_is_unknown_witness:
  "\<exists>m'. handle_query 10000 10006 (Received ''Order.make'') [(''Order.make'', \<lparr>node_addr = ''h:1'', last_seen_ms = 5\<rparr>)] =
     Inr (m', Some ''unknown host'')"
  using expired_service_is_unknown [of "[(''Order.make'', \<lparr>node_addr = ''h:1'', last_seen_ms = 5\<rparr>)]" "''Order.make''" 10000 10006]
  by (auto simp: name_ok_def map_find_def map_ok_def)

text \<open>
  C24. Commands of the control socket against the abstract registry, a map from names to nodes:
  the invariant is kept, the map after a command is the map before with at most the command's
  target changed (and, for \<open>lookup\<close>, without the expired entries), malformed or unknown
  commands change nothing, and the answer is a function of the abstract map: for \<open>lookup\<close> the
  names and addresses that have not expired, in the order of the names.
\<close>

theorem control_refines_map:
  assumes "map_ok m"
  shows "map_ok (fst (control_command ttl (\<lambda>_. now) command m)) \<and>
         map_find (fst (control_command ttl (\<lambda>_. now) command m)) = spec_control ttl now command (map_find m) \<and>
         snd (control_command ttl (\<lambda>_. now) command m) = spec_reply ttl now command (map_find m)"
proof (cases "split_command command")
  case (Pair oper content)
  then show ?thesis
    using map_ok_control [OF assms, of ttl "\<lambda>_. now" command] run_operator_map [OF assms, of ttl now oper content]
      run_operator_reply [OF assms Pair, of ttl now]
    by (simp add: control_command_def spec_control_def)
qed

theorem control_refines_map_witness:
  "map_find (fst (control_command 10 (\<lambda>_. 3) ''delete a'' [(''a'', \<lparr>node_addr = ''h:1'', last_seen_ms = 1\<rparr>)])) ''a'' = None"
  using control_refines_map [of "[(''a'', \<lparr>node_addr = ''h:1'', last_seen_ms = 1\<rparr>)]" 10 3 "''delete a''"]
  by (simp add: map_ok_def spec_control_def split_command_def substr_def Let_def)

end
