(* ===== verification/ErrCode.thy ===== *)
theory ErrCode
  imports Prelude
begin

text \<open>
  The error codes of \<open>common/err_code.h\<close>. The macro pastes the digits \<open>1000\<close> in front of its
  argument, so \<open>SYS_ERROR_PREFIX(0008)\<close> is \<open>10000008\<close>.
\<close>

definition ERROR_PEER_CLOSED :: int32 where "ERROR_PEER_CLOSED = 10000000"
definition ERROR_FAILED_CONNECT :: int32 where "ERROR_FAILED_CONNECT = 10000001"
definition ERROR_FAILED_GET_REPLY :: int32 where "ERROR_FAILED_GET_REPLY = 10000002"
definition ERROR_FAILED_DESERIALIZE :: int32 where "ERROR_FAILED_DESERIALIZE = 10000003"
definition ERROR_FAILED_SERIALIZE :: int32 where "ERROR_FAILED_SERIALIZE = 10000004"
definition ERROR_RPC_CALL_TIMEOUT :: int32 where "ERROR_RPC_CALL_TIMEOUT = 10000007"
definition ERROR_SERVICE_NOT_FOUND :: int32 where "ERROR_SERVICE_NOT_FOUND = 10000008"
definition ERROR_METHOD_NOT_FOUND :: int32 where "ERROR_METHOD_NOT_FOUND = 10000009"
definition ERROR_PARSE_SERVICE_NAME :: int32 where "ERROR_PARSE_SERVICE_NAME = 10000010"
definition ERROR_RPC_CHANNEL_INIT :: int32 where "ERROR_RPC_CHANNEL_INIT = 10000011"
definition ERROR_RPC_PEER_ADDR :: int32 where "ERROR_RPC_PEER_ADDR = 10000012"
definition ERROR_RPC_CALL_CANCELLED :: int32 where "ERROR_RPC_CALL_CANCELLED = 10000013"
definition ERROR_RPC_TRANSPORT :: int32 where "ERROR_RPC_TRANSPORT = 10000014"

lemmas err_code_defs = ERROR_PEER_CLOSED_def ERROR_FAILED_CONNECT_def ERROR_FAILED_GET_REPLY_def
  ERROR_FAILED_DESERIALIZE_def ERROR_FAILED_SERIALIZE_def ERROR_RPC_CALL_TIMEOUT_def
  ERROR_SERVICE_NOT_FOUND_def ERROR_METHOD_NOT_FOUND_def ERROR_PARSE_SERVICE_NAME_def
  ERROR_RPC_CHANNEL_INIT_def ERROR_RPC_PEER_ADDR_def ERROR_RPC_CALL_CANCELLED_def ERROR_RPC_TRANSPORT_def

lemma err_code_nonzero [simp]:
  "ERROR_PEER_CLOSED \<noteq> 0" "ERROR_FAILED_CONNECT \<noteq> 0" "ERROR_FAILED_GET_REPLY \<noteq> 0" "ERROR_FAILED_DESERIALIZE \<noteq> 0"
  "ERROR_FAILED_SERIALIZE \<noteq> 0" "ERROR_RPC_CALL_TIMEOUT \<noteq> 0" "ERROR_SERVICE_NOT_FOUND \<noteq> 0" "ERROR_METHOD_NOT_FOUND \<noteq> 0"
  "ERROR_PARSE_SERVICE_NAME \<noteq> 0" "ERROR_RPC_CHANNEL_INIT \<noteq> 0" "ERROR_RPC_PEER_ADDR \<noteq> 0"
  "ERROR_RPC_CALL_CANCELLED \<noteq> 0" "ERROR_RPC_TRANSPORT \<noteq> 0"
  by (simp_all add: err_code_defs)

end
