(* ===== verification/RpcDispatcher.thy ===== *)
theory RpcDispatcher
  imports RequestStream ServiceDiscovery ErrCode
begin

text \<open>
  The dispatcher of the server (\<open>net/rpc/rpc_dispatcher.h\<close>, \<open>net/rpc/rpc_dispatcher.cc\<close>, with the
  reply closure it hands to a service, \<open>RpcClosure::Run\<close> of \<open>net/rpc/rpc_closure.h\<close>). The protobuf library and the business code are not part of the
  sources: a service is a record of functions, a parameter of the dispatcher. Its \<open>call\<close> returns
  the responses with which the business code runs the closure before it returns, one entry per
  run; a service that answers later, from another thread, has no entry.
\<close>

section \<open>State\<close>

record ('m, 'q, 'r) service =
  full_name :: string
  method_names :: "string list"
  FindMethodByName :: "string \<Rightarrow> 'm option"
  ParseRequest :: "'m \<Rightarrow> string \<Rightarrow> 'q option"
  call :: "'m \<Rightarrow> 'q \<Rightarrow> 'r list"
  SerializeToString :: "'r \<Rightarrow> bool \<times> string"

type_synonym ('m, 'q, 'r) dispatcher = "(string, ('m, 'q, 'r) service) std_map"

section \<open>Dispatching\<close>

definition setTinyPBError :: "int32 \<Rightarrow> string \<Rightarrow> tinypb \<Rightarrow> tinypb" where
  "setTinyPBError err_code err_info msg =
     msg\<lparr>m_err_code := err_code, m_err_info := err_info, m_err_info_len := word_of_nat (length err_info)\<rparr>"

definition parseServiceFullName :: "string \<Rightarrow> (string \<times> string) option" where
  "parseServiceFullName name =
     (if name = [] then None
      else
        case find_first_of CHR ''.'' name of
          None \<Rightarrow> None
        | Some i \<Rightarrow> Some (substr name 0 i, substr name (i + 1) (length name - i - 1)))"

text \<open>
  One run of the closure: it stores the response (and the message as \<open>encode\<close> leaves it) in
  \<open>rsp_protocol\<close> and replies on the connection.
\<close>

definition run_closure_reply ::
  "('r \<Rightarrow> bool \<times> string) \<Rightarrow> 'r \<Rightarrow> tinypb \<times> 'd tcp_connection \<Rightarrow> (tinypb \<times> 'd tcp_connection) cpp" where
  "run_closure_reply serialize rsp_msg s =
     (let (rsp_protocol, c) = s;
          (ok, pb_data) = serialize rsp_msg;
          rsp_protocol = rsp_protocol\<lparr>m_pb_data := pb_data\<rparr>;
          rsp_protocol = (if \<not> ok then setTinyPBError ERROR_FAILED_SERIALIZE ''serilize error'' rsp_protocol
                          else rsp_protocol\<lparr>m_err_code := 0, m_err_info := []\<rparr>)
      in bind_cpp (reply [TinyPB rsp_protocol] c) (\<lambda>(ms, c').
           Inr (case ms of [TinyPB m] \<Rightarrow> (m, c') | _ \<Rightarrow> (rsp_protocol, c'))))"

definition dispatch ::
  "('m, 'q, 'r) dispatcher \<Rightarrow> tinypb \<Rightarrow> tinypb \<Rightarrow> 'd tcp_connection \<Rightarrow> (tinypb \<times> 'd tcp_connection) cpp" where
  "dispatch m_service_map req_protocol rsp_protocol c =
     (let rsp_protocol = rsp_protocol\<lparr>m_msg_id := m_msg_id req_protocol, m_method_name := m_method_name req_protocol\<rparr> in
      case parseServiceFullName (m_method_name req_protocol) of
        None \<Rightarrow> Inr (setTinyPBError ERROR_PARSE_SERVICE_NAME ''parse service name error'' rsp_protocol, c)
      | Some (service_name, method_name) \<Rightarrow>
          (case map_find m_service_map service_name of
             None \<Rightarrow> Inr (setTinyPBError ERROR_SERVICE_NOT_FOUND ''service not found'' rsp_protocol, c)
           | Some service \<Rightarrow>
               (case FindMethodByName service method_name of
                  None \<Rightarrow> Inr (setTinyPBError ERROR_SERVICE_NOT_FOUND ''method not found'' rsp_protocol, c)
                | Some meth \<Rightarrow>
                    (case ParseRequest service meth (m_pb_data req_protocol) of
                       None \<Rightarrow> Inr (setTinyPBError ERROR_FAILED_DESERIALIZE ''deserilize error'' rsp_protocol, c)
                     | Some req_msg \<Rightarrow>
                         fold_cpp (run_closure_reply (SerializeToString service)) (call service meth req_msg)
                           (rsp_protocol,
                            emit [SetRunTime (m_msg_id req_protocol) method_name, MethodCalled service_name method_name] c)))))"

text \<open>What \<open>TcpConnection::excute\<close> passes to the dispatcher.\<close>

definition dispatch_request ::
  "('m, 'q, 'r) dispatcher \<Rightarrow> tinypb \<Rightarrow> tinypb \<Rightarrow> 'd tcp_connection \<Rightarrow> 'd tcp_connection cpp" where
  "dispatch_request m_service_map req rsp c = bind_cpp (dispatch m_service_map req rsp c) (\<lambda>(_, c'). Inr c')"

section \<open>Registration\<close>

text \<open>
  \<open>registerService\<close> returns the new service map, the commands sent to the discovery centre, and
  the names the heartbeat thread announces (no thread is started when there are none).
\<close>

definition registerService ::
  "string \<Rightarrow> int \<Rightarrow> ('m, 'q, 'r) service \<Rightarrow> ('m, 'q, 'r) dispatcher \<Rightarrow>
     ('m, 'q, 'r) dispatcher \<times> string list \<times> string list" where
  "registerService local_ip local_port service m_service_map =
     (let service_name = full_name service;
          all_names = map (\<lambda>m. service_name @ ''.'' @ m) (method_names service)
      in (map_assign service_name service m_service_map,
          map (\<lambda>n. add_service n local_ip local_port) all_names, all_names))"

definition heartbeat_round :: "string list \<Rightarrow> string \<Rightarrow> int \<Rightarrow> string list" where
  "heartbeat_round service_names local_ip local_port =
     map (\<lambda>n. heartbeat_service n local_ip local_port) service_names"

section \<open>Lemmas\<close>

lemma parseServiceFullName_dot:
  "CHR ''.'' \<notin> set s \<Longrightarrow> parseServiceFullName (s @ ''.'' @ m) = Some (s, m)"
  by (simp add: parseServiceFullName_def substr_def)

definition response_to :: "tinypb \<Rightarrow> string \<Rightarrow> tinypb" where
  "response_to req data = newTinyPB\<lparr>m_msg_id := m_msg_id req, m_method_name := m_method_name req, m_pb_data := data\<rparr>"

fun is_call :: "'d effect \<Rightarrow> bool" where
  "is_call (MethodCalled s m) = True"
| "is_call e = False"

lemma dispatch_success:
  assumes "parseServiceFullName (m_method_name req) = Some (s, m)" and "map_find services s = Some svc"
    and "FindMethodByName svc m = Some meth" and "ParseRequest svc meth (m_pb_data req) = Some q"
    and "call svc meth q = [r]" and "SerializeToString svc r = (True, data)"
    and "server_open c (length (concat (wire_chunks [TinyPB (response_to req data)])) + k)"
  shows "\<exists>rsp c'. dispatch services req newTinyPB c = Inr (rsp, c') \<and>
           TinyPB rsp = after_encode (TinyPB (response_to req data)) \<and> server_open c' k \<and> sent c' = sent c \<and>
           contents (m_out_buffer c') = contents (m_out_buffer c) @ concat (wire_chunks [TinyPB (response_to req data)]) \<and>
           (\<exists>es. effects c' = effects c @ [SetRunTime (m_msg_id req) m, MethodCalled s m] @ es \<and> filter is_call es = [])"
proof -
  define c1 where "c1 = emit [SetRunTime (m_msg_id req) m, MethodCalled s m] c"
  have "server_open c1 (length (concat (wire_chunks [TinyPB (response_to req data)])) + k)"
    using assms(7) by (simp add: server_open_def c1_def emit_def)
  from reply_ok [OF this] obtain c2 where c2: "reply [TinyPB (response_to req data)] c1 =
        Inr (map after_encode [TinyPB (response_to req data)], c2)" "server_open c2 k" "sent c2 = sent c1"
      "contents (m_out_buffer c2) = contents (m_out_buffer c1) @ concat (wire_chunks [TinyPB (response_to req data)])"
    by blast
  have rsp: "newTinyPB\<lparr>m_msg_id := m_msg_id req, m_method_name := m_method_name req, m_pb_data := data,
      m_err_code := 0, m_err_info := []\<rparr> = response_to req data"
    by (simp add: response_to_def newTinyPB_def)
  have "effects c2 = effects c1 @ (if m_state c1 = Closed \<or> tc_fd c1 < 0 then [] else
      [AddEpollEvent (m_listen_event (listen OUT_EVENT (Some CallOnWrite) (Some CallClear) (m_fd_event c1)))])"
    using c2(1) by (auto simp: reply_def bind_cpp_eq_Inr listenWrite_def addEpoll_def emit_def)
  moreover have "dispatch services req newTinyPB c = Inr
      (case after_encode (TinyPB (response_to req data)) of TinyPB m \<Rightarrow> m | StringP _ \<Rightarrow> response_to req data, c2)"
    using assms(1-6) c2(1) rsp
    by (simp add: dispatch_def run_closure_reply_def c1_def [symmetric] Let_def)
  ultimately show ?thesis
    using c2(2-4) by (simp add: c1_def emit_def)
qed

section \<open>The dispatcher as the request handler of a connection\<close>

lemma listenWrite_frame: "listenWrite (c\<lparr>m_in_buffer := b\<rparr>) = (listenWrite c)\<lparr>m_in_buffer := b\<rparr>"
  by (simp add: listenWrite_def addEpoll_def emit_def)

lemma reply_frame:
  "reply ms (c\<lparr>m_in_buffer := b\<rparr>) = map_cpp (\<lambda>(ms, c). (ms, c\<lparr>m_in_buffer := b\<rparr>)) (reply ms c)"
proof -
  have "listenWrite (c\<lparr>m_in_buffer := b, m_out_buffer := ob\<rparr>) = (listenWrite (c\<lparr>m_out_buffer := ob\<rparr>))\<lparr>m_in_buffer := b\<rparr>" for ob
    using listenWrite_frame [where c = "c\<lparr>m_out_buffer := ob\<rparr>" and b = b] by (cases c) simp
  then show ?thesis
    by (cases "encode ms (m_out_buffer c)") (auto simp: reply_def)
qed

lemma run_closure_reply_frame:
  "run_closure_reply serialize r (map_prod id (\<lambda>c. c\<lparr>m_in_buffer := b\<rparr>) s) =
     map_cpp (map_prod id (\<lambda>c. c\<lparr>m_in_buffer := b\<rparr>)) (run_closure_reply serialize r s)"
  by (auto simp: run_closure_reply_def reply_frame bind_map_cpp map_cpp_bind split_beta Let_def
      intro!: arg_cong2 [where f = bind_cpp] split: list.splits protocol.splits)

lemma dispatch_frame:
  fixes services :: "('m, 'q, 'r) dispatcher"
  shows "dispatch services req rsp (c\<lparr>m_in_buffer := b\<rparr>) =
     map_cpp (map_prod id (\<lambda>c. c\<lparr>m_in_buffer := b\<rparr>)) (dispatch services req rsp c)"
proof -
  have "fold_cpp (run_closure_reply ser) rs (m, c\<lparr>m_in_buffer := b, effects := es\<rparr>) =
      map_cpp (map_prod id (\<lambda>c. c\<lparr>m_in_buffer := b\<rparr>)) (fold_cpp (run_closure_reply ser) rs (m, c\<lparr>effects := es\<rparr>))"
    for ser :: "'r \<Rightarrow> bool \<times> string" and rs m es
    using fold_cpp_frame [of "run_closure_reply ser" "map_prod id (\<lambda>c. c\<lparr>m_in_buffer := b\<rparr>)" rs "(m, c\<lparr>effects := es\<rparr>)"]
    by (cases c) (simp add: run_closure_reply_frame)
  then show ?thesis
    by (simp add: dispatch_def emit_def Let_def split: option.splits)
qed

lemma reply_serving: "serving c \<Longrightarrow> reply ms c = Inr (ms', c') \<Longrightarrow> serving c'"
  by (auto simp: reply_def bind_cpp_eq_Inr serving_def)

lemma run_closure_reply_serving:
  assumes "run_closure_reply ser r s = Inr s'" and "serving (snd s)"
  shows "serving (snd s')"
proof -
  obtain rsp c where s: "s = (rsp, c)" by (cases s)
  define m where "m = (let m = rsp\<lparr>m_pb_data := snd (ser r)\<rparr> in
      if \<not> fst (ser r) then setTinyPBError ERROR_FAILED_SERIALIZE ''serilize error'' m else m\<lparr>m_err_code := 0, m_err_info := []\<rparr>)"
  have "run_closure_reply ser r s = bind_cpp (reply [TinyPB m] c) (\<lambda>(ms, c').
      Inr (case ms of [TinyPB m'] \<Rightarrow> (m', c') | _ \<Rightarrow> (m, c')))"
    by (simp only: run_closure_reply_def s m_def Let_def split_beta fst_conv snd_conv)
  then obtain ms c' where c': "reply [TinyPB m] c = Inr (ms, c')" "s' = (case ms of [TinyPB m'] \<Rightarrow> (m', c') | _ \<Rightarrow> (m, c'))"
    using assms(1) by (cases "reply [TinyPB m] c") auto
  have "snd s' = c'"
    unfolding c'(2) by (simp split: list.splits protocol.splits)
  with reply_serving [OF _ c'(1)] assms(2) s show ?thesis by simp
qed

lemma closures_serving:
  "serving (snd s) \<Longrightarrow> fold_cpp (run_closure_reply ser) rs s = Inr s' \<Longrightarrow> serving (snd s')"
proof (induction rs arbitrary: s)
  case (Cons r rs)
  obtain s1 where s1: "run_closure_reply ser r s = Inr s1" "fold_cpp (run_closure_reply ser) rs s1 = Inr s'"
    using Cons.prems(2) by (auto simp: bind_cpp_eq_Inr)
  have "serving (snd s1)"
    using run_closure_reply_serving [OF s1(1) Cons.prems(1)] .
  with Cons.IH s1(2) show ?case by blast
qed simp

lemma dispatch_serving: "serving c \<Longrightarrow> dispatch services req rsp c = Inr (m, c') \<Longrightarrow> serving c'"
  by (auto simp: dispatch_def Let_def serving_def emit_def split: option.splits
      dest!: closures_serving [rotated])

interpretation rpc: request_handler "dispatch_request services" for services :: "('m, 'q, 'r) dispatcher"
proof unfold_locales
  show "dispatch_request services req rsp (c\<lparr>m_in_buffer := b\<rparr>) =
      map_cpp (\<lambda>c. c\<lparr>m_in_buffer := b\<rparr>) (dispatch_request services req rsp c)" for req rsp c b
    by (simp add: dispatch_request_def dispatch_frame bind_map_cpp map_cpp_bind split_beta)
  show "serving c'" if "serving c" "dispatch_request services req rsp c = Inr c'" for c req rsp c'
    using that by (auto simp: dispatch_request_def bind_cpp_eq_Inr dest: dispatch_serving)
qed

section \<open>Properties\<close>

text \<open>
  C12. A request for a registered method is answered: when the service, the method and the request
  data are good and the business code runs its closure once, the method is called once, one
  packet is appended to the output of the connection, and that packet decodes to a response
  with the request's message id and method name, no error, and the serialized result.
\<close>

theorem request_is_answered:
  assumes "parseServiceFullName (m_method_name req) = Some (s, m)" and "map_find services s = Some svc"
    and "FindMethodByName svc m = Some meth" and "ParseRequest svc meth (m_pb_data req) = Some q"
    and "call svc meth q = [r]" and "SerializeToString svc r = (True, data)"
    and "encodable (response_to req data)"
    and "server_open c (length (packet (with_msg_id (response_to req data))))"
  shows "\<exists>rsp c' out. dispatch services req newTinyPB c = Inr (rsp, c') \<and>
           contents (m_out_buffer c') = contents (m_out_buffer c) @ out \<and> decode_bytes out = ([rsp], []) \<and>
           filter is_call (effects c') =
             filter is_call (effects c) @ [MethodCalled s m] \<and>
           m_method_name rsp = m_method_name req \<and> m_err_code rsp = 0 \<and> m_err_info rsp = [] \<and> m_pb_data rsp = data \<and>
           (m_msg_id req \<noteq> [] \<longrightarrow> m_msg_id rsp = m_msg_id req)"
proof -
  have open0: "server_open c (length (concat (wire_chunks [TinyPB (response_to req data)])) + 0)"
    using assms(7,8) by simp
  obtain rsp c' where d: "dispatch services req newTinyPB c = Inr (rsp, c')"
      "TinyPB rsp = after_encode (TinyPB (response_to req data))"
      "contents (m_out_buffer c') = contents (m_out_buffer c) @ concat (wire_chunks [TinyPB (response_to req data)])"
      "\<exists>es. effects c' = effects c @ [SetRunTime (m_msg_id req) m, MethodCalled s m] @ es \<and>
         filter is_call es = []"
    using dispatch_success [OF assms(1-6) open0] by metis
  have rsp: "rsp = stamped (with_msg_id (response_to req data))"
    using d(2) assms(7) by simp
  have "decode_bytes (concat (wire_chunks [TinyPB (response_to req data)])) = ([rsp], [])"
    using decode_packet [OF assms(7), of "[]"] assms(7) by (simp add: rsp wire.dec_empty)
  moreover have "m_method_name rsp = m_method_name req" "m_err_code rsp = 0" "m_err_info rsp = []" "m_pb_data rsp = data"
    "m_msg_id req \<noteq> [] \<longrightarrow> m_msg_id rsp = m_msg_id req"
    by (simp_all add: rsp stamped_def with_msg_id_def response_to_def newTinyPB_def)
  ultimately show ?thesis
    using d by (intro exI [of _ rsp] exI [of _ c'] exI [of _ "concat (wire_chunks [TinyPB (response_to req data)])"])
      (auto simp del: wire_chunks.simps)
qed

definition echo_service :: "(unit, string, string) service" where
  "echo_service = \<lparr>full_name = ''Echo'', method_names = [''say''],
     FindMethodByName = (\<lambda>n. if n = ''say'' then Some () else None), ParseRequest = (\<lambda>_. Some),
     call = (\<lambda>_ q. [q]), SerializeToString = (\<lambda>r. (True, r))\<rparr>"

definition echo_request :: tinypb where
  "echo_request = newTinyPB\<lparr>m_msg_id := ''7'', m_method_name := ''Echo.say'', m_pb_data := ''hi''\<rparr>"

lemma echo_facts:
  "parseServiceFullName (m_method_name echo_request) = Some (''Echo'', ''say'')"
  "map_find [(''Echo'', echo_service)] ''Echo'' = Some echo_service"
  "FindMethodByName echo_service ''say'' = Some ()" "ParseRequest echo_service () (m_pb_data echo_request) = Some ''hi''"
  "call echo_service () ''hi'' = [''hi'']" "SerializeToString echo_service ''hi'' = (True, ''hi'')"
  "encodable (response_to echo_request ''hi'')" "payload_length (with_msg_id (response_to echo_request ''hi'')) = 11"
  "server_open (opened TcpConnectionByServer 7) 1000"
  by (simp_all add: echo_service_def echo_request_def response_to_def newTinyPB_def parseServiceFullName_def substr_def
      map_find_def encodable_def with_msg_id_def payload_length_def MIN_PACKAGE_SIZE_def MAX_PACKAGE_SIZE_def
      server_open_def opened_def buffer_defs room_def INT_MAX_def)

lemma server_open_mono: "server_open c k \<Longrightarrow> j \<le> k \<Longrightarrow> server_open c j"
  by (auto simp: server_open_def intro: room_mono)

theorem request_is_answered_witness:
  "\<exists>rsp c'. dispatch [(''Echo'', echo_service)] echo_request newTinyPB (opened TcpConnectionByServer 7 :: nat tcp_connection) =
     Inr (rsp, c') \<and> m_msg_id rsp = ''7'' \<and> m_pb_data rsp = ''hi''"
proof -
  have "server_open (opened TcpConnectionByServer 7 :: nat tcp_connection) (length (packet (with_msg_id (response_to echo_request ''hi''))))"
    using server_open_mono [OF echo_facts(9), of 37] echo_facts(8) by simp
  then show ?thesis
    using request_is_answered [OF echo_facts(1-7), of "opened TcpConnectionByServer 7"]
    by (auto simp: echo_request_def newTinyPB_def)
qed

text \<open>
  Requests that cannot be dispatched: a method name without a dot, an unknown service, an
  unknown method and undecodable request data each set their error code and text in the response
  object, call no method and leave the connection as it was. In particular no reply is sent.
\<close>

theorem undispatched_requests:
  assumes "parseServiceFullName (m_method_name req) = None \<and> code = ERROR_PARSE_SERVICE_NAME \<or>
     (\<exists>s m. parseServiceFullName (m_method_name req) = Some (s, m) \<and>
        (map_find services s = None \<and> code = ERROR_SERVICE_NOT_FOUND \<or>
         (\<exists>svc. map_find services s = Some svc \<and>
            (FindMethodByName svc m = None \<and> code = ERROR_SERVICE_NOT_FOUND \<or>
             (\<exists>meth. FindMethodByName svc m = Some meth \<and> ParseRequest svc meth (m_pb_data req) = None \<and>
                code = ERROR_FAILED_DESERIALIZE)))))"
  shows "\<exists>rsp. dispatch services req newTinyPB c = Inr (rsp, c) \<and> m_err_code rsp = code \<and> m_err_info rsp \<noteq> [] \<and>
           sint (m_err_info_len rsp) = int (length (m_err_info rsp)) \<and>
           m_msg_id rsp = m_msg_id req \<and> m_method_name rsp = m_method_name req"
  using assms by (auto simp: dispatch_def setTinyPBError_def sint_small)

theorem undispatched_requests_witness:
  "\<exists>rsp. dispatch [(''Echo'', echo_service)] (newTinyPB\<lparr>m_method_name := ''None.say''\<rparr>) newTinyPB
       (opened TcpConnectionByServer 7 :: nat tcp_connection) = Inr (rsp, opened TcpConnectionByServer 7) \<and>
     m_err_code rsp = ERROR_SERVICE_NOT_FOUND"
  using undispatched_requests [of "newTinyPB\<lparr>m_method_name := ''None.say''\<rparr>" ERROR_SERVICE_NOT_FOUND
      "[(''Echo'', echo_service)]" "opened TcpConnectionByServer 7"]
  by (auto simp: parseServiceFullName_def substr_def map_find_def)

text \<open>
  Registration and dispatch agree on names: after a service with a dot-free full name is
  registered, every name announced to the discovery centre parses to that service and one of its
  methods, the service is found under it, other services stay registered, and the commands sent
  to the centre are exactly the registrations of these names.
\<close>

theorem registered_names_dispatch:
  assumes "map_ok services" and "CHR ''.'' \<notin> set (full_name svc)"
    and "registerService ip port svc services = (services', commands, names)"
  shows "map_ok services' \<and> map_find services' = (map_find services)(full_name svc \<mapsto> svc) \<and>
         commands = map (\<lambda>n. add_service n ip port) names \<and>
         map parseServiceFullName names = map (\<lambda>m. Some (full_name svc, m)) (method_names svc)"
  using assms parseServiceFullName_dot [OF assms(2)]
  by (auto simp: registerService_def map_ok_assign map_find_assign Let_def)

theorem registered_names_dispatch_witness:
  "fst (registerService ''10.0.0.1'' 80 echo_service []) = [(''Echo'', echo_service)] \<and>
   map_find (fst (registerService ''10.0.0.1'' 80 echo_service [])) ''Echo'' = Some echo_service"
  using registered_names_dispatch [of "[]" echo_service "''10.0.0.1''" 80]
  by (simp add: registerService_def echo_service_def Let_def)

text \<open>
  C13. Requests are dispatched once each and in order: however the client's byte stream is cut into
  arrivals, the events leave the connection as if the decoded requests had been dispatched one
  after the other, and the bytes of an unfinished request are kept.
\<close>

theorem requests_dispatched_in_order:
  assumes "serving c" and "in_buffer_ok (m_in_buffer c) (length (concat pieces))" and "[] \<notin> set pieces"
    and "contents (m_in_buffer c) = []" and "decode_bytes (concat pieces) = (reqs, undecoded)"
    and "fold_cpp (\<lambda>req. dispatch_request services req newTinyPB) reqs c = Inr c'"
  shows "\<exists>b. fold_cpp (arrival (dispatch_request services)) pieces c = Inr (c'\<lparr>m_in_buffer := b\<rparr>) \<and>
           buffer_ok b \<and> contents b = undecoded"
  using rpc.stream_ok [OF assms(1-3), of reqs undecoded services c'] assms(4-6) by (simp add: wire.dec_empty)

lemma echo_request_facts:
  "encodable echo_request" "length (packet (with_msg_id echo_request)) = 37" "decode_bytes (packet (with_msg_id echo_request)) = ([stamped (with_msg_id echo_request)], [])"
proof -
  show e: "encodable echo_request" "length (packet (with_msg_id echo_request)) = 37"
    by (simp_all add: echo_request_def newTinyPB_def encodable_def with_msg_id_def payload_length_def
        MIN_PACKAGE_SIZE_def MAX_PACKAGE_SIZE_def)
  show "decode_bytes (packet (with_msg_id echo_request)) = ([stamped (with_msg_id echo_request)], [])"
    using decode_packet [OF e(1), of "[]"] by (simp add: wire.dec_empty)
qed

lemma echo_dispatch:
  "\<exists>c'. dispatch_request [(''Echo'', echo_service)] (stamped (with_msg_id echo_request)) newTinyPB
     (opened TcpConnectionByServer 7 :: nat tcp_connection) = Inr c' \<and> filter is_call (effects c') = [MethodCalled ''Echo'' ''say'']"
proof -
  define req where "req = stamped (with_msg_id echo_request)"
  have "m_method_name req = m_method_name echo_request" "m_pb_data req = m_pb_data echo_request"
    "response_to req ''hi'' = response_to echo_request ''hi''"
    by (simp_all add: req_def stamped_def with_msg_id_def response_to_def echo_request_def)
  moreover have "server_open (opened TcpConnectionByServer 7 :: nat tcp_connection)
      (length (concat (wire_chunks [TinyPB (response_to echo_request ''hi'')])) + 0)"
    using server_open_mono [OF echo_facts(9), of 37] echo_facts(7,8) by simp
  ultimately obtain rsp c' where "dispatch [(''Echo'', echo_service)] req newTinyPB (opened TcpConnectionByServer 7) = Inr (rsp, c')"
      "\<exists>es. effects c' = effects (opened TcpConnectionByServer 7 :: nat tcp_connection) @
         [SetRunTime (m_msg_id req) ''say'', MethodCalled ''Echo'' ''say''] @ es \<and> filter is_call es = []"
    using dispatch_success [of req "''Echo''" "''say''" "[(''Echo'', echo_service)]" echo_service "()" "''hi''" "''hi''" "''hi''"
        "opened TcpConnectionByServer 7" 0] echo_facts(1-6) by metis
  then show ?thesis
    by (auto simp: dispatch_request_def req_def opened_def)
qed

theorem requests_dispatched_in_order_witness:
  "\<exists>c' b. fold_cpp (arrival (dispatch_request [(''Echo'', echo_service)]))
       [take 5 (packet (with_msg_id echo_request)), drop 5 (packet (with_msg_id echo_request))]
       (opened TcpConnectionByServer 7 :: nat tcp_connection) = Inr (c'\<lparr>m_in_buffer := b\<rparr>) \<and> contents b = [] \<and>
     filter is_call (effects c') = [MethodCalled ''Echo'' ''say'']"
proof -
  define p where "p = packet (with_msg_id echo_request)"
  obtain c' where c': "dispatch_request [(''Echo'', echo_service)] (stamped (with_msg_id echo_request)) newTinyPB
      (opened TcpConnectionByServer 7 :: nat tcp_connection) = Inr c'" "filter is_call (effects c') = [MethodCalled ''Echo'' ''say'']"
    using echo_dispatch by blast
  have open7: "serving (opened TcpConnectionByServer 7 :: nat tcp_connection)"
    "in_buffer_ok (m_in_buffer (opened TcpConnectionByServer 7 :: nat tcp_connection)) (length (concat [take 5 p, drop 5 p]))"
    "contents (m_in_buffer (opened TcpConnectionByServer 7 :: nat tcp_connection)) = []" "[] \<notin> set [take 5 p, drop 5 p]"
    using echo_request_facts(2)
    by (auto simp: serving_def opened_def in_buffer_ok_def buffer_defs INT_MAX_def p_def packet_def)
  show ?thesis
    using requests_dispatched_in_order [OF open7(1,2,4,3), of "[stamped (with_msg_id echo_request)]" "[]" "[(''Echo'', echo_service)]" c']
      c' echo_request_facts(3) by (auto simp: p_def)
qed

text \<open>
  A service inside a protobuf package is never found: its full name contains a dot, the dispatcher
  cuts the method name at the first dot, and what is in front of it is shorter than the full name.
\<close>

lemma packaged_service_not_found:
  assumes "CHR ''.'' \<in> set s" and "parseServiceFullName (s @ ''.'' @ m) = Some (s', m')"
  shows "s' \<noteq> s"
proof -
  obtain a b where s: "s = a @ CHR ''.'' # b" "CHR ''.'' \<notin> set a"
    using split_list_first [OF assms(1)] by blast
  then have "parseServiceFullName (s @ ''.'' @ m) = Some (a, b @ ''.'' @ m)"
    using parseServiceFullName_dot [of a "b @ ''.'' @ m"] by simp
  with assms(2) s(1) show ?thesis by auto
qed

end
