(* ===== verification/Timer.thy ===== *)
theory Timer
  imports StdMap
begin

text \<open>
  The timer of an event loop (\<open>net/timer.h\<close>, \<open>net/timer.cc\<close>, \<open>net/timer_event.h\<close>,
  \<open>net/timer_event.cc\<close>): one \<open>timerfd\<close> and a multimap of pending events. Timer events are shared
  objects, so they live in a store indexed by their address; \<open>deleteTimerEvent\<close> and \<open>onTimer\<close>
  change them in place. Callbacks are values of a type \<open>'c\<close>: \<open>onTimer\<close> returns the callbacks
  it invokes at its end, in order. \<open>get_now_ms\<close> reads a clock \<open>nat \<Rightarrow> int\<close> whose argument counts
  the readings, so that every call may see a different time. \<open>m_timerfd\<close> is the setting of the
  descriptor, with the time it was made: armed by \<open>timerfd_settime\<close>, for one expiry only because
  \<open>it_interval\<close> is zero, and disarmed again when an expiry has been read.
\<close>

record 'c timer_event =
  m_arrive_time :: int
  m_interval :: int
  m_is_repeated :: bool
  m_is_cancled :: bool
  m_task :: "'c option"

record timespec =
  tv_sec :: int
  tv_nsec :: int

record 'c timer =
  m_pending_events :: "(int \<times> nat) list"
  timer_events :: "nat \<Rightarrow> 'c timer_event"
  clock_readings :: nat
  m_timerfd :: "(int \<times> timespec) option"

definition get_now_ms :: "(nat \<Rightarrow> int) \<Rightarrow> 'c timer \<Rightarrow> int \<times> 'c timer" where
  "get_now_ms clock t = (clock (clock_readings t), t\<lparr>clock_readings := Suc (clock_readings t)\<rparr>)"

definition newTimerEvent :: "int \<Rightarrow> int \<Rightarrow> bool \<Rightarrow> 'c option \<Rightarrow> 'c timer_event" where
  "newTimerEvent now interval is_repeated cb =
     \<lparr>m_arrive_time = now + interval, m_interval = interval, m_is_repeated = is_repeated,
      m_is_cancled = False, m_task = cb\<rparr>"

definition newTimer :: "(nat \<Rightarrow> 'c timer_event) \<Rightarrow> 'c timer" where
  "newTimer evs = \<lparr>m_pending_events = [], timer_events = evs, clock_readings = 0, m_timerfd = None\<rparr>"

text \<open>\<open>TimerEvent::resetArriveTime\<close> and \<open>TimerEvent::setCancled\<close>.\<close>

definition event_resetArriveTime :: "(nat \<Rightarrow> int) \<Rightarrow> nat \<Rightarrow> 'c timer \<Rightarrow> 'c timer" where
  "event_resetArriveTime clock e t =
     (let (now, t) = get_now_ms clock t; ev = timer_events t e in
      t\<lparr>timer_events := (timer_events t)(e := ev\<lparr>m_arrive_time := now + m_interval ev\<rparr>)\<rparr>)"

definition setCancled :: "bool \<Rightarrow> nat \<Rightarrow> 'c timer \<Rightarrow> 'c timer" where
  "setCancled v e t = t\<lparr>timer_events := (timer_events t)(e := (timer_events t e)\<lparr>m_is_cancled := v\<rparr>)\<rparr>"

text \<open>\<open>Timer::resetArriveTime\<close>: arm the descriptor for the first pending event.\<close>

definition resetArriveTime :: "(nat \<Rightarrow> int) \<Rightarrow> 'c timer \<Rightarrow> 'c timer" where
  "resetArriveTime clock t =
     (case m_pending_events t of
        [] \<Rightarrow> t
      | (_, e) # _ \<Rightarrow>
          let (now, t) = get_now_ms clock t;
              arrive = m_arrive_time (timer_events t e);
              inteval = (if now < arrive then arrive - now else 100)
          in t\<lparr>m_timerfd := Some (now, \<lparr>tv_sec = inteval div 1000, tv_nsec = (inteval mod 1000) * 1000000\<rparr>)\<rparr>)"

definition addTimerEvent :: "(nat \<Rightarrow> int) \<Rightarrow> nat \<Rightarrow> 'c timer \<Rightarrow> 'c timer" where
  "addTimerEvent clock e t =
     (let arrive = m_arrive_time (timer_events t e);
          is_reset_timerfd =
            (case m_pending_events t of
               [] \<Rightarrow> True
             | (_, f) # _ \<Rightarrow> arrive < m_arrive_time (timer_events t f));
          t = t\<lparr>m_pending_events := multimap_emplace arrive e (m_pending_events t)\<rparr>
      in if is_reset_timerfd then resetArriveTime clock t else t)"

text \<open>The search among the entries with the event's arrive time, and the erasure of the match.\<close>

fun erase_in_range :: "int \<Rightarrow> nat \<Rightarrow> (int \<times> nat) list \<Rightarrow> (int \<times> nat) list" where
  "erase_in_range arrive e [] = []"
| "erase_in_range arrive e ((k, f) # m) =
     (if k = arrive \<and> f = e then m else (k, f) # erase_in_range arrive e m)"

definition deleteTimerEvent :: "nat \<Rightarrow> 'c timer \<Rightarrow> 'c timer" where
  "deleteTimerEvent e t =
     (let t = setCancled True e t in
      t\<lparr>m_pending_events := erase_in_range (m_arrive_time (timer_events t e)) e (m_pending_events t)\<rparr>)"

text \<open>
  Draining the descriptor: the loop ends with the first read that fails with \<open>EAGAIN\<close>, and goes
  on after every other result. A list that ends earlier is a loop that has not ended.
\<close>

datatype read_result = ReadBytes int | ReadError int

definition EAGAIN :: int where
  "EAGAIN = 11"

fun drain_timerfd :: "read_result list \<Rightarrow> bool" where
  "drain_timerfd [] = False"
| "drain_timerfd (r # rs) = (r = ReadError EAGAIN \<or> drain_timerfd rs)"

text \<open>A read returned the count of expiries: the timer, armed for one expiry, has expired.\<close>

fun timerfd_expired :: "read_result list \<Rightarrow> bool" where
  "timerfd_expired [] = False"
| "timerfd_expired (ReadBytes n # rs) = True"
| "timerfd_expired (ReadError e # rs) = (e \<noteq> EAGAIN \<and> timerfd_expired rs)"

text \<open>The scan of the multimap: \<open>tmps\<close>, \<open>tasks\<close> and what is left after the erasure.\<close>

fun collect_expired ::
  "(nat \<Rightarrow> 'c timer_event) \<Rightarrow> int \<Rightarrow> (int \<times> nat) list \<Rightarrow>
     nat list \<times> (int \<times> 'c option) list \<times> (int \<times> nat) list" where
  "collect_expired evs now [] = ([], [], [])"
| "collect_expired evs now ((k, e) # m) =
     (if k \<le> now then
        let (tmps, tasks, left) = collect_expired evs now m in
        if \<not> m_is_cancled (evs e)
        then (e # tmps, (m_arrive_time (evs e), m_task (evs e)) # tasks, left)
        else (tmps, tasks, left)
      else ([], [], (k, e) # m))"

definition rearm :: "(nat \<Rightarrow> int) \<Rightarrow> nat \<Rightarrow> 'c timer \<Rightarrow> 'c timer" where
  "rearm clock e t =
     (if m_is_repeated (timer_events t e) then addTimerEvent clock e (event_resetArriveTime clock e t) else t)"

definition onTimer :: "(nat \<Rightarrow> int) \<Rightarrow> read_result list \<Rightarrow> 'c timer \<Rightarrow> ('c timer \<times> 'c list) option" where
  "onTimer clock reads t =
     (if \<not> drain_timerfd reads then None
      else
        let t = (if timerfd_expired reads then t\<lparr>m_timerfd := None\<rparr> else t);
            (now, t) = get_now_ms clock t;
            (tmps, tasks, left) = collect_expired (timer_events t) now (m_pending_events t);
            t = t\<lparr>m_pending_events := left\<rparr>;
            t = fold (rearm clock) tmps t;
            t = resetArriveTime clock t
        in Some (t, [cb. (_, Some cb) \<leftarrow> tasks]))"

text \<open>
  The loop over the tasks at the end of \<open>onTimer\<close>: the callbacks run one after the other, each with the
  calls it makes on the timer.
\<close>

datatype timer_action = AddTimer nat | DeleteTimer nat

fun timer_do :: "(nat \<Rightarrow> int) \<Rightarrow> timer_action \<Rightarrow> 'c timer \<Rightarrow> 'c timer" where
  "timer_do clock (AddTimer e) t = addTimerEvent clock e t"
| "timer_do clock (DeleteTimer e) t = deleteTimerEvent e t"

definition run_callbacks :: "(nat \<Rightarrow> int) \<Rightarrow> ('c \<Rightarrow> timer_action list) \<Rightarrow> 'c list \<Rightarrow> 'c timer \<Rightarrow> 'c timer" where
  "run_callbacks clock behaviour cbs t = fold (\<lambda>cb. fold (timer_do clock) (behaviour cb)) cbs t"

section \<open>Invariant\<close>

text \<open>
  The multimap is ordered, its keys are the arrive times of the events, and no event is pending
  twice. The last point is what the owners of timers keep: they add an event once.
\<close>

definition timer_ok :: "'c timer \<Rightarrow> bool" where
  "timer_ok t \<longleftrightarrow> multimap_ok (m_pending_events t) \<and> distinct (map snd (m_pending_events t)) \<and>
     (\<forall>(k, e) \<in> set (m_pending_events t). k = m_arrive_time (timer_events t e))"

abbreviation pending :: "'c timer \<Rightarrow> nat set" where
  "pending t \<equiv> snd ` set (m_pending_events t)"

lemma timer_okD:
  assumes "timer_ok t"
  shows "multimap_ok (m_pending_events t)" "distinct (map snd (m_pending_events t))"
    "(k, e) \<in> set (m_pending_events t) \<Longrightarrow> k = m_arrive_time (timer_events t e)"
  using assms by (auto simp: timer_ok_def)

lemma distinct_emplace:
  "distinct (map snd (multimap_emplace k v m)) \<longleftrightarrow> v \<notin> snd ` set m \<and> distinct (map snd m)"
  by (induction k v m rule: multimap_emplace.induct) (auto simp: set_multimap_emplace image_iff)

lemma resetArriveTime_simps [simp]:
  "m_pending_events (resetArriveTime clock t) = m_pending_events t"
  "timer_events (resetArriveTime clock t) = timer_events t"
  by (simp_all add: resetArriveTime_def get_now_ms_def Let_def split: list.splits)

lemma addTimerEvent_simps [simp]:
  "m_pending_events (addTimerEvent clock e t) =
     multimap_emplace (m_arrive_time (timer_events t e)) e (m_pending_events t)"
  "timer_events (addTimerEvent clock e t) = timer_events t"
  by (simp_all add: addTimerEvent_def Let_def)

lemma timer_ok_add:
  assumes "timer_ok t" and "e \<notin> pending t"
  shows "timer_ok (addTimerEvent clock e t)" "pending (addTimerEvent clock e t) = insert e (pending t)"
  using assms
  by (auto simp: timer_ok_def multimap_ok_emplace distinct_emplace set_multimap_emplace)

lemma event_reset_simps [simp]:
  "m_pending_events (event_resetArriveTime clock e t) = m_pending_events t"
  "timer_events (event_resetArriveTime clock e t) = (timer_events t)(e :=
     (timer_events t e)\<lparr>m_arrive_time := clock (clock_readings t) + m_interval (timer_events t e)\<rparr>)"
  by (simp_all add: event_resetArriveTime_def get_now_ms_def Let_def)

lemma timer_ok_event_reset:
  "timer_ok t \<Longrightarrow> e \<notin> pending t \<Longrightarrow> timer_ok (event_resetArriveTime clock e t)"
  by (force simp: timer_ok_def)

lemma erase_in_range_props:
  assumes "distinct (map snd m)" and "\<forall>(k, f) \<in> set m. f = e \<longrightarrow> k = arrive"
  shows "erase_in_range arrive e m = filter (\<lambda>x. snd x \<noteq> e) m"
  using assms
proof (induction arrive e m rule: erase_in_range.induct)
  case (2 arrive e k f m)
  then show ?case
    by (auto simp: image_iff intro!: filter_True [symmetric])
qed simp

lemma deleteTimerEvent_pending:
  assumes "timer_ok t"
  shows "m_pending_events (deleteTimerEvent e t) = filter (\<lambda>x. snd x \<noteq> e) (m_pending_events t)"
proof -
  have "\<forall>(k, f) \<in> set (m_pending_events t). f = e \<longrightarrow> k = m_arrive_time (timer_events t e)"
    using timer_okD(3) [OF assms] by auto
  then show ?thesis
    using erase_in_range_props timer_okD(2) [OF assms]
    by (simp add: deleteTimerEvent_def setCancled_def Let_def)
qed

lemma deleteTimerEvent_events:
  "timer_events (deleteTimerEvent e t) = (timer_events t)(e := (timer_events t e)\<lparr>m_is_cancled := True\<rparr>)"
  by (simp add: deleteTimerEvent_def setCancled_def Let_def)

lemma timer_ok_delete:
  assumes "timer_ok t"
  shows "timer_ok (deleteTimerEvent e t)" "pending (deleteTimerEvent e t) = pending t - {e}"
  using assms timer_okD [OF assms]
  by (auto simp: timer_ok_def deleteTimerEvent_pending [OF assms] deleteTimerEvent_events
      multimap_ok_def sorted_filter distinct_map_filter)

section \<open>Expiry\<close>

lemma collect_expired_eq:
  assumes "multimap_ok m"
  shows "collect_expired evs now m =
     (let due = filter (\<lambda>(k, e). k \<le> now \<and> \<not> m_is_cancled (evs e)) m in
      (map snd due, map (\<lambda>(k, e). (m_arrive_time (evs e), m_task (evs e))) due,
       filter (\<lambda>x. now < fst x) m))"
  using assms
proof (induction evs now m rule: collect_expired.induct)
  case (2 evs now k e m)
  have "\<not> k \<le> now \<Longrightarrow> \<forall>x \<in> set m. now < fst x"
    using "2.prems" by (fastforce simp: multimap_ok_def)
  then have "\<not> k \<le> now \<Longrightarrow> filter (\<lambda>(k, e). k \<le> now \<and> \<not> m_is_cancled (evs e)) m = [] \<and>
      filter (\<lambda>x. now < fst x) m = m"
    by (force simp: filter_empty_conv filter_id_conv)
  with 2 show ?case
    by (auto simp: multimap_ok_def Let_def)
qed simp

lemma clock_readings_mono:
  "clock_readings t \<le> clock_readings (resetArriveTime clock t)"
  "clock_readings t \<le> clock_readings (addTimerEvent clock e t)"
  "clock_readings (event_resetArriveTime clock e t) = Suc (clock_readings t)"
  by (auto simp: resetArriveTime_def addTimerEvent_def event_resetArriveTime_def get_now_ms_def Let_def
      split: list.splits)

text \<open>
  \<open>rescheduled\<close> relates an event before and after the expiry: only its arrive time may change,
  and then to its interval after a reading that is not earlier than the given one.
\<close>

definition rescheduled :: "(nat \<Rightarrow> int) \<Rightarrow> nat \<Rightarrow> 'c timer_event \<Rightarrow> 'c timer_event \<Rightarrow> bool" where
  "rescheduled clock r ev ev' \<longleftrightarrow> (\<exists>i \<ge> r. ev' = ev\<lparr>m_arrive_time := clock i + m_interval ev\<rparr>)"

lemma rescheduled_mono:
  assumes "rescheduled clock r ev ev'" and "q \<le> r"
  shows "rescheduled clock q ev ev'"
proof -
  obtain i where "r \<le> i" "ev' = ev\<lparr>m_arrive_time := clock i + m_interval ev\<rparr>"
    using assms(1) by (auto simp: rescheduled_def)
  with assms(2) show ?thesis
    unfolding rescheduled_def by (intro exI [of _ i]) simp
qed

definition fired :: "'c timer \<Rightarrow> int \<Rightarrow> nat \<Rightarrow> bool" where
  "fired t now e \<longleftrightarrow> e \<in> pending t \<and> m_arrive_time (timer_events t e) \<le> now \<and> \<not> m_is_cancled (timer_events t e)"

lemma rearm_all:
  assumes "timer_ok t" and "distinct es" and "set es \<inter> pending t = {}"
  shows "timer_ok (fold (rearm clock) es t) \<and>
     pending (fold (rearm clock) es t) = pending t \<union> {e \<in> set es. m_is_repeated (timer_events t e)} \<and>
     (\<forall>e. if e \<in> set es \<and> m_is_repeated (timer_events t e)
          then rescheduled clock (clock_readings t) (timer_events t e) (timer_events (fold (rearm clock) es t) e)
          else timer_events (fold (rearm clock) es t) e = timer_events t e)"
  using assms
proof (induction es arbitrary: t)
  case (Cons e es)
  show ?case
  proof (cases "m_is_repeated (timer_events t e)")
    case False
    then have "rearm clock e t = t" by (simp add: rearm_def)
    with Cons False show ?thesis by auto
  next
    case True
    define t1 where "t1 = addTimerEvent clock e (event_resetArriveTime clock e t)"
    have e: "e \<notin> pending t" "e \<notin> set es"
      using Cons.prems by auto
    have t1: "timer_ok t1" "pending t1 = insert e (pending t)"
      using timer_ok_add [OF timer_ok_event_reset [OF Cons.prems(1) e(1)], of e clock clock] e(1)
      by (simp_all add: t1_def)
    have ev: "timer_events t1 = (timer_events t)(e := (timer_events t e)\<lparr>m_arrive_time :=
        clock (clock_readings t) + m_interval (timer_events t e)\<rparr>)"
      by (simp add: t1_def)
    have r: "clock_readings t \<le> clock_readings t1"
      using clock_readings_mono(2) [of "event_resetArriveTime clock e t" clock e]
        clock_readings_mono(3) [of clock e t] unfolding t1_def by linarith
    have self: "rescheduled clock (clock_readings t) (timer_events t e) (timer_events t1 e)"
      by (auto simp: rescheduled_def ev)
    have "distinct es" "set es \<inter> pending t1 = {}"
      using Cons.prems t1(2) e(2) by auto
    note IH = Cons.IH [OF t1(1) this]
    have fold: "fold (rearm clock) (e # es) t = fold (rearm clock) es t1"
      using True by (simp add: rearm_def t1_def)
    have other: "f \<noteq> e \<Longrightarrow> timer_events t1 f = timer_events t f" for f
      by (simp add: ev)
    have rest: "if f \<in> set es \<and> m_is_repeated (timer_events t1 f)
        then rescheduled clock (clock_readings t1) (timer_events t1 f) (timer_events (fold (rearm clock) es t1) f)
        else timer_events (fold (rearm clock) es t1) f = timer_events t1 f" for f
      using IH by blast
    have "if f \<in> set (e # es) \<and> m_is_repeated (timer_events t f)
        then rescheduled clock (clock_readings t) (timer_events t f) (timer_events (fold (rearm clock) es t1) f)
        else timer_events (fold (rearm clock) es t1) f = timer_events t f" for f
      using rest [of f] e(2) True self other [of f] r
      by (cases "f = e") (auto split: if_splits intro: rescheduled_mono)
    moreover have "pending t1 \<union> {f \<in> set es. m_is_repeated (timer_events t1 f)} =
        pending t \<union> {f \<in> set (e # es). m_is_repeated (timer_events t f)}"
      using t1(2) True by (auto simp: ev split: if_splits)
    ultimately show ?thesis
      unfolding fold using IH by simp
  qed
qed simp

lemma onTimer_ok:
  assumes "timer_ok t" and "onTimer clock reads t = Some (t', cbs)"
  defines "now \<equiv> clock (clock_readings t)"
  shows "timer_ok t'"
    and "pending t' = {e \<in> pending t. now < m_arrive_time (timer_events t e)} \<union>
           {e. fired t now e \<and> m_is_repeated (timer_events t e)}"
    and "if fired t now e \<and> m_is_repeated (timer_events t e)
         then rescheduled clock (clock_readings t) (timer_events t e) (timer_events t' e)
         else timer_events t' e = timer_events t e"
    and "cbs = [cb. (_, e) \<leftarrow> m_pending_events t, fired t now e, Some cb \<leftarrow> [m_task (timer_events t e)]]"
proof -
  define m where "m = m_pending_events t"
  define due where "due = filter (\<lambda>(k, e). k \<le> now \<and> \<not> m_is_cancled (timer_events t e)) m"
  define t1 where "t1 = t\<lparr>m_timerfd := if timerfd_expired reads then None else m_timerfd t,
    clock_readings := Suc (clock_readings t), m_pending_events := filter (\<lambda>x. now < fst x) m\<rparr>"
  note ok = timer_okD [OF assms(1), folded m_def]
  have key: "(k, e) \<in> set m \<Longrightarrow> k = m_arrive_time (timer_events t e)" for k e
    using ok(3) .
  have t': "t' = resetArriveTime clock (fold (rearm clock) (map snd due) t1)"
    and cbs: "cbs = [cb. (_, Some cb) \<leftarrow> map (\<lambda>(k, e). (m_arrive_time (timer_events t e), m_task (timer_events t e))) due]"
    using assms(2)
    by (auto simp: onTimer_def get_now_ms_def collect_expired_eq [OF ok(1)] m_def [symmetric] now_def [symmetric]
        due_def t1_def Let_def split: if_splits)
  have inj: "inj_on snd (set m)" "distinct m"
    using ok(2) by (simp_all add: distinct_map)
  have "timer_ok t1"
    using assms(1) ok by (auto simp: timer_ok_def t1_def multimap_ok_def sorted_filter distinct_map_filter)
  moreover have "distinct (map snd due)"
    using ok(2) by (simp add: due_def distinct_map_filter)
  moreover have "set (map snd due) \<inter> pending t1 = {}"
    by (auto simp: due_def t1_def dest!: key)
  ultimately have fold: "timer_ok (fold (rearm clock) (map snd due) t1)"
    "pending (fold (rearm clock) (map snd due) t1) = pending t1 \<union> {e \<in> set (map snd due). m_is_repeated (timer_events t1 e)}"
    "if e \<in> set (map snd due) \<and> m_is_repeated (timer_events t1 e)
     then rescheduled clock (clock_readings t1) (timer_events t1 e) (timer_events (fold (rearm clock) (map snd due) t1) e)
     else timer_events (fold (rearm clock) (map snd due) t1) e = timer_events t1 e" for e
    using rearm_all [of t1 "map snd due" clock] by blast+
  have due: "e \<in> set (map snd due) \<longleftrightarrow> fired t now e" for e
    using key by (force simp: due_def fired_def m_def image_iff)
  show "timer_ok t'"
    using fold(1) by (simp add: timer_ok_def t')
  have "pending t1 = {e \<in> pending t. now < m_arrive_time (timer_events t e)}"
    using key by (force simp: t1_def m_def image_iff)
  then show "pending t' = {e \<in> pending t. now < m_arrive_time (timer_events t e)} \<union>
      {e. fired t now e \<and> m_is_repeated (timer_events t e)}"
    using fold(2) due by (auto simp: t' t1_def)
  have "clock_readings t \<le> clock_readings t1"
    by (simp add: t1_def)
  then show "if fired t now e \<and> m_is_repeated (timer_events t e)
      then rescheduled clock (clock_readings t) (timer_events t e) (timer_events t' e)
      else timer_events t' e = timer_events t e"
    using fold(3) [of e] due by (auto simp: t' t1_def intro: rescheduled_mono)
  have "fired t now e \<longleftrightarrow> k \<le> now \<and> \<not> m_is_cancled (timer_events t e)" if "(k, e) \<in> set m" for k e
    using that key by (force simp: fired_def m_def)
  then have "due = filter (\<lambda>(k, e). fired t now e) m"
    unfolding due_def by (intro filter_cong) auto
  moreover have "[cb. (_, Some cb) \<leftarrow> map (\<lambda>(k, e). (a e, f e)) (filter (\<lambda>(k, e). P e) m)] =
      [cb. (_, e) \<leftarrow> m, P e, Some cb \<leftarrow> [f e]]" for P :: "nat \<Rightarrow> bool" and a :: "nat \<Rightarrow> int" and f :: "nat \<Rightarrow> 'a option"
    by (induction m) (auto split: option.splits)
  ultimately show "cbs = [cb. (_, e) \<leftarrow> m_pending_events t, fired t now e, Some cb \<leftarrow> [m_task (timer_events t e)]]"
    by (simp add: cbs m_def)
qed

section \<open>The descriptor is armed\<close>

definition millis :: "timespec \<Rightarrow> int" where
  "millis ts = tv_sec ts * 1000 + tv_nsec ts div 1000000"

text \<open>
  While an event is pending, the descriptor has been armed, with a positive delay (a zero
  \<open>it_value\<close> would disarm it), for a time that is no later than the arrive time of every pending
  event or, for events already due when it was armed, 100 ms after the arming.
\<close>

definition covers :: "(int \<times> timespec) option \<Rightarrow> int \<Rightarrow> bool" where
  "covers fd arrive \<longleftrightarrow> (case fd of None \<Rightarrow> False
     | Some (now, ts) \<Rightarrow> 0 < millis ts \<and> 0 \<le> tv_nsec ts \<and> tv_nsec ts < 1000000000 \<and>
         now + millis ts \<le> max arrive (now + 100))"

definition armed :: "'c timer \<Rightarrow> bool" where
  "armed t \<longleftrightarrow> (\<forall>e \<in> pending t. covers (m_timerfd t) (m_arrive_time (timer_events t e)))"

lemma covers_mono: "covers fd a \<Longrightarrow> a \<le> b \<Longrightarrow> covers fd b"
  by (auto simp: covers_def split: option.splits)

lemma first_is_earliest:
  assumes "timer_ok t" and "m_pending_events t = (k, f) # m" and "e \<in> pending t"
  shows "m_arrive_time (timer_events t f) \<le> m_arrive_time (timer_events t e)"
  using assms timer_okD [OF assms(1)] by (fastforce simp: multimap_ok_def)

lemma resetArriveTime_armed:
  assumes "timer_ok t"
  shows "armed (resetArriveTime clock t)"
proof (cases "m_pending_events t")
  case (Cons x m)
  obtain k f where x: "x = (k, f)" by (cases x)
  define d where "d = m_arrive_time (timer_events t f) - clock (clock_readings t)"
  define i where "i = (if 0 < d then d else 100)"
  have ms: "millis \<lparr>tv_sec = i div 1000, tv_nsec = i mod 1000 * 1000000\<rparr> = i"
    by (simp add: millis_def)
  have fd: "m_timerfd (resetArriveTime clock t) =
      Some (clock (clock_readings t), \<lparr>tv_sec = i div 1000, tv_nsec = i mod 1000 * 1000000\<rparr>)"
    by (simp add: resetArriveTime_def Cons x get_now_ms_def Let_def i_def d_def)
  have "clock (clock_readings t) + i \<le> max (m_arrive_time (timer_events t e)) (clock (clock_readings t) + 100)"
    if "e \<in> pending t" for e
    using first_is_earliest [OF assms Cons [unfolded x] that] by (auto simp: i_def d_def)
  moreover have "0 < i" "0 \<le> i mod 1000 * 1000000" "i mod 1000 * 1000000 < 1000000000"
    by (simp_all add: i_def)
  ultimately show ?thesis
    unfolding armed_def fd resetArriveTime_simps covers_def by (auto simp: ms)
qed (simp add: armed_def)

lemma addTimerEvent_armed:
  assumes "timer_ok t" and "e \<notin> pending t" and "armed t"
  shows "armed (addTimerEvent clock e t)"
proof -
  define t1 where "t1 = t\<lparr>m_pending_events := multimap_emplace (m_arrive_time (timer_events t e)) e (m_pending_events t)\<rparr>"
  have "timer_ok t1"
    using timer_ok_add(1) [OF assms(1,2), of clock] by (simp add: timer_ok_def t1_def)
  then have reset: "armed (resetArriveTime clock t1)"
    by (rule resetArriveTime_armed)
  show ?thesis
  proof (cases "m_pending_events t")
    case Nil
    with reset show ?thesis by (simp add: addTimerEvent_def t1_def Let_def)
  next
    case (Cons x m)
    obtain k f where x: "x = (k, f)" by (cases x)
    show ?thesis
    proof (cases "m_arrive_time (timer_events t e) < m_arrive_time (timer_events t f)")
      case True
      with reset show ?thesis by (simp add: addTimerEvent_def Cons x t1_def Let_def)
    next
      case False
      then have "addTimerEvent clock e t = t1"
        by (simp add: addTimerEvent_def Cons x t1_def Let_def)
      moreover have "covers (m_timerfd t) (m_arrive_time (timer_events t f))"
        using assms(3) by (simp add: armed_def Cons x)
      then have "covers (m_timerfd t) (m_arrive_time (timer_events t e))"
        using False by (auto intro: covers_mono)
      ultimately show ?thesis
        using assms(3) by (simp add: armed_def t1_def set_multimap_emplace)
    qed
  qed
qed

lemma deleteTimerEvent_armed:
  assumes "timer_ok t" and "armed t"
  shows "armed (deleteTimerEvent e t)"
proof -
  have "m_timerfd (deleteTimerEvent e t) = m_timerfd t"
    "m_arrive_time (timer_events (deleteTimerEvent e t) f) = m_arrive_time (timer_events t f)" for f
    by (simp_all add: deleteTimerEvent_def setCancled_def Let_def)
  then show ?thesis
    using assms(2) timer_ok_delete(2) [OF assms(1), of e] unfolding armed_def by auto
qed

lemma onTimer_armed:
  assumes "timer_ok t" and "onTimer clock reads t = Some (t', cbs)"
  shows "armed t'"
proof -
  obtain t1 where "t' = resetArriveTime clock t1"
    using assms(2) by (auto simp: onTimer_def Let_def split_beta split: if_splits)
  moreover from this have "timer_ok t1"
    using onTimer_ok(1) [OF assms] by (simp add: timer_ok_def)
  ultimately show ?thesis by (simp add: resetArriveTime_armed)
qed

section \<open>Runs of a timer\<close>

text \<open>
  What an event loop does to its timer, in any order: it adds an event that is not pending,
  deletes an event, or handles the readable descriptor, which fires a list of events.
\<close>

datatype timer_op = Added nat | Deleted nat | Fired "nat list"

definition fired_events :: "'c timer \<Rightarrow> int \<Rightarrow> nat list" where
  "fired_events t now = filter (fired t now) (map snd (m_pending_events t))"

inductive timer_step :: "(nat \<Rightarrow> int) \<Rightarrow> timer_op \<Rightarrow> 'c timer \<Rightarrow> 'c timer \<Rightarrow> bool"
  for clock :: "nat \<Rightarrow> int" where
  add: "e \<notin> pending t \<Longrightarrow> timer_step clock (Added e) t (addTimerEvent clock e t)"
| delete: "timer_step clock (Deleted e) t (deleteTimerEvent e t)"
| fire: "onTimer clock reads t = Some (t', cbs) \<Longrightarrow>
    timer_step clock (Fired (fired_events t (clock (clock_readings t)))) t t'"

inductive_cases timer_stepE: "timer_step clock a t t'"
inductive_cases timer_step_firedE: "timer_step clock (Fired es) t t'"

inductive timer_run :: "(nat \<Rightarrow> int) \<Rightarrow> timer_op list \<Rightarrow> 'c timer \<Rightarrow> 'c timer \<Rightarrow> bool"
  for clock :: "nat \<Rightarrow> int" where
  run_nil: "timer_run clock [] t t"
| run_step: "timer_step clock a t t1 \<Longrightarrow> timer_run clock as t1 t2 \<Longrightarrow> timer_run clock (a # as) t t2"

lemma timer_step_ok:
  "timer_step clock a t t' \<Longrightarrow> timer_ok t \<Longrightarrow> timer_ok t'"
  by (cases rule: timer_step.cases) (auto intro: timer_ok_add timer_ok_delete onTimer_ok(1))

lemma timer_step_armed:
  "timer_step clock a t t' \<Longrightarrow> timer_ok t \<Longrightarrow> armed t \<Longrightarrow> armed t'"
  by (cases rule: timer_step.cases) (auto intro: addTimerEvent_armed deleteTimerEvent_armed onTimer_armed)

lemma timer_run_invariant:
  "timer_run clock as t t' \<Longrightarrow> timer_ok t \<Longrightarrow> armed t \<Longrightarrow> timer_ok t' \<and> armed t'"
  by (induction rule: timer_run.induct) (auto intro: timer_step_ok timer_step_armed)

lemma timer_step_not_pending:
  assumes "timer_step clock a t t'" and "timer_ok t" and "e \<notin> pending t" and "a \<noteq> Added e"
  shows "e \<notin> pending t'" and "a = Fired es \<Longrightarrow> e \<notin> set es"
proof -
  show "e \<notin> pending t'"
    using assms(1)
  proof (cases rule: timer_step.cases)
    case (add f)
    with assms show ?thesis by (auto simp: set_multimap_emplace)
  next
    case (delete f)
    with assms show ?thesis by (simp add: timer_ok_delete)
  next
    case (fire reads cbs)
    with assms(2,3) show ?thesis by (auto simp: onTimer_ok(2) [OF assms(2)] fired_def)
  qed
  show "a = Fired es \<Longrightarrow> e \<notin> set es"
    using assms by (auto elim!: timer_step_firedE simp: fired_events_def fired_def)
qed

lemma timer_run_not_pending:
  "timer_run clock as t t' \<Longrightarrow> timer_ok t \<Longrightarrow> e \<notin> pending t \<Longrightarrow> Added e \<notin> set as \<Longrightarrow>
     Fired es \<in> set as \<Longrightarrow> e \<notin> set es"
proof (induction arbitrary: es rule: timer_run.induct)
  case (run_step a t t1 as t2)
  have "e \<notin> pending t1"
    using timer_step_not_pending(1) [OF run_step.hyps(1)] run_step.prems by auto
  moreover have "a = Fired es \<Longrightarrow> e \<notin> set es"
    using timer_step_not_pending(2) [OF run_step.hyps(1)] run_step.prems by auto
  moreover have "timer_ok t1"
    using timer_step_ok run_step by blast
  ultimately show ?case
    using run_step by auto
qed simp

section \<open>Properties\<close>

text \<open>What calls on the timer do to the flag of an event that none of them deletes.\<close>

lemma timer_do_cancled:
  "DeleteTimer e \<notin> set calls \<Longrightarrow> m_is_cancled (timer_events (fold (timer_do clock) calls t) e) = m_is_cancled (timer_events t e)"
proof (induction calls arbitrary: t)
  case (Cons c calls)
  have "m_is_cancled (timer_events (timer_do clock c t) e) = m_is_cancled (timer_events t e)"
    using Cons.prems by (cases c) (auto simp: deleteTimerEvent_events)
  with Cons show ?case by simp
qed simp

lemma run_callbacks_cancled:
  "\<forall>cb \<in> set cbs. DeleteTimer e \<notin> set (behaviour cb) \<Longrightarrow>
     m_is_cancled (timer_events (run_callbacks clock behaviour cbs t) e) = m_is_cancled (timer_events t e)"
  by (induction cbs arbitrary: t) (simp_all add: run_callbacks_def timer_do_cancled)

text \<open>
  C17. Handling the readable timer descriptor: the callbacks invoked are those of exactly the
  pending events that are due and not cancelled, in the order of their arrive times; a repeated
  one of them is pending again with its interval counted from a reading no earlier than this
  expiry, every other due event is gone, and events that are not due are untouched. As long as no
  callback of the batch deletes an event of the same batch, no callback runs whose event has been
  cancelled by then, whatever events the callbacks before it add or delete.
\<close>

theorem onTimer_fires_due_events:
  assumes "timer_ok t" and "onTimer clock reads t = Some (t', cbs)" and "now = clock (clock_readings t)"
    and "\<forall>e. fired t now e \<longrightarrow> (\<forall>cb \<in> set cbs. DeleteTimer e \<notin> set (behaviour cb))"
  shows "timer_ok t' \<and>
     cbs = [cb. (_, e) \<leftarrow> m_pending_events t, fired t now e, Some cb \<leftarrow> [m_task (timer_events t e)]] \<and>
     pending t' = {e \<in> pending t. now < m_arrive_time (timer_events t e)} \<union>
       {e. fired t now e \<and> m_is_repeated (timer_events t e)} \<and>
     (\<forall>e. if fired t now e \<and> m_is_repeated (timer_events t e)
          then rescheduled clock (clock_readings t) (timer_events t e) (timer_events t' e)
          else timer_events t' e = timer_events t e) \<and>
     (\<forall>e ran rest. fired t now e \<and> cbs = ran @ rest \<longrightarrow>
        \<not> m_is_cancled (timer_events (run_callbacks clock behaviour ran t') e))"
proof -
  note o = onTimer_ok [OF assms(1,2)]
  have "\<not> m_is_cancled (timer_events t' e)" if "fired t now e" for e
    using o(3) [of e] that unfolding assms(3) by (auto simp: rescheduled_def fired_def split: if_splits)
  then have "\<not> m_is_cancled (timer_events (run_callbacks clock behaviour ran t') e)" if "fired t now e" "cbs = ran @ rest" for e ran rest
    using that assms(4) run_callbacks_cancled [of ran e behaviour clock t'] by auto
  then show ?thesis
    using o unfolding assms(3) by blast
qed

theorem onTimer_fires_due_events_witness:
  "\<exists>t'. onTimer (\<lambda>i. 10) [ReadBytes 8, ReadError EAGAIN]
       (addTimerEvent (\<lambda>i. 0) 0 (newTimer (\<lambda>_. newTimerEvent 0 5 True (Some ''tick'')))) = Some (t', [''tick'']) \<and>
     pending t' = {0} \<and> \<not> m_is_cancled (timer_events (run_callbacks (\<lambda>i. 10) (\<lambda>_. [DeleteTimer 1, AddTimer 2]) [''tick''] t') 0)"
proof -
  define t where "t = addTimerEvent (\<lambda>i. 0) 0 (newTimer (\<lambda>_. newTimerEvent 0 5 True (Some ''tick'')))"
  have t: "timer_ok t" "m_pending_events t = [(5, 0)]" "timer_events t 0 = newTimerEvent 0 5 True (Some ''tick'')"
    by (simp_all add: t_def timer_ok_def newTimer_def newTimerEvent_def multimap_ok_def)
  have f: "fired t 10 e \<longleftrightarrow> e = 0" for e
    using t(2,3) by (auto simp: fired_def newTimerEvent_def)
  obtain t' cbs where o: "onTimer (\<lambda>i. 10) [ReadBytes 8, ReadError EAGAIN] t = Some (t', cbs)"
    by (auto simp: onTimer_def Let_def split_beta)
  have fires: "cbs = [cb. (_, e) \<leftarrow> m_pending_events t, fired t 10 e, Some cb \<leftarrow> [m_task (timer_events t e)]]"
    "pending t' = {e \<in> pending t. 10 < m_arrive_time (timer_events t e)} \<union> {e. fired t 10 e \<and> m_is_repeated (timer_events t e)}"
    "fired t 10 e \<and> cbs = ran @ rest \<Longrightarrow> \<not> m_is_cancled (timer_events (run_callbacks (\<lambda>i. 10) (\<lambda>_. [DeleteTimer 1, AddTimer 2]) ran t') e)" for e ran rest
    using onTimer_fires_due_events [OF t(1) o refl, of "\<lambda>_. [DeleteTimer 1, AddTimer 2]"] f by auto
  have cbs: "cbs = [''tick'']"
    using t f by (simp add: fires(1) newTimerEvent_def)
  moreover have "pending t' = {0}"
    by (simp add: fires(2) t(2,3) f newTimerEvent_def Collect_conv_if cong: conj_cong)
  moreover have "\<not> m_is_cancled (timer_events (run_callbacks (\<lambda>i. 10) (\<lambda>_. [DeleteTimer 1, AddTimer 2]) [''tick''] t') 0)"
    using fires(3) [of 0 "[''tick'']" "[]"] f cbs by simp
  ultimately show ?thesis using o by (simp add: t_def)
qed

text \<open>
  Inside a batch it is different: the callbacks are copied before the first of them runs, so when that
  one deletes the second event, the second callback still runs, with its event cancelled.
\<close>

definition due_pair :: "nat timer" where
  "due_pair = \<lparr>m_pending_events = [(1, 1), (2, 2)], timer_events = (\<lambda>e. newTimerEvent (int e) 0 False (Some e)),
     clock_readings = 0, m_timerfd = None\<rparr>"

lemma cancelled_in_batch_still_runs:
  "\<exists>t'. onTimer (\<lambda>i. 5) [ReadBytes 8, ReadError EAGAIN] due_pair = Some (t', [1] @ [2]) \<and>
     m_is_cancled (timer_events (run_callbacks (\<lambda>i. 5) (\<lambda>cb. if cb = 1 then [DeleteTimer 2] else []) [1] t') 2)"
  by (simp add: onTimer_def due_pair_def newTimerEvent_def get_now_ms_def rearm_def resetArriveTime_def run_callbacks_def
      deleteTimerEvent_events Let_def)

text \<open>
  C18. No pending event is ever left waiting on a descriptor that is not armed: in every run of
  additions, deletions and expiries from a new timer, the multimap stays ordered and consistent
  and, while anything is pending, the descriptor, which each expiry that is read disarms, is armed
  again with a positive delay that ends no later than the earliest arrive time (or 100 ms after the
  arming, for events already due).
\<close>

theorem timer_always_armed:
  assumes "timer_run clock ops (newTimer evs) t"
  shows "timer_ok t \<and> armed t"
  using timer_run_invariant [OF assms] by (simp add: newTimer_def timer_ok_def armed_def multimap_ok_def)

theorem timer_always_armed_witness:
  "\<exists>t. onTimer (\<lambda>i. 0) [ReadBytes 8, ReadError EAGAIN]
     (addTimerEvent (\<lambda>i. 0) 0 (newTimer (\<lambda>_. newTimerEvent 0 5 True (Some ''tick'')))) = Some (t, []) \<and> armed t"
proof -
  define t0 where "t0 = newTimer (\<lambda>_. newTimerEvent 0 5 True (Some ''tick''))"
  obtain t where t: "onTimer (\<lambda>i. 0) [ReadBytes 8, ReadError EAGAIN] (addTimerEvent (\<lambda>i. 0) 0 t0) = Some (t, [])"
    by (simp add: t0_def onTimer_def newTimer_def newTimerEvent_def Let_def split_beta get_now_ms_def)
  have "timer_step (\<lambda>i. 0) (Added 0) t0 (addTimerEvent (\<lambda>i. 0) 0 t0)"
    by (rule add) (simp add: t0_def newTimer_def)
  then obtain ops where "timer_run (\<lambda>i. 0) ops t0 t"
    using run_step [OF _ run_step [OF fire [OF t] run_nil]] by blast
  then show ?thesis
    using timer_always_armed t unfolding t0_def by blast
qed



end
