(* ===== verification/EventLoop.thy ===== *)
theory EventLoop
  imports FdEvent Timer
begin

text \<open>
  The event loop (\<open>net/eventloop.h\<close>, \<open>net/eventloop.cc\<close>, \<open>net/wakeup_fd_event.cc\<close>): a queue
  of tasks, a set of listened descriptors, a timer and an epoll instance. Descriptor events are
  shared objects in a store indexed by address. A user callback is a value of type \<open>'c\<close>; what
  it does to the loop is the list of loop calls that the parameter \<open>behaviour\<close> gives for it. The
  calls of \<open>epoll_ctl\<close> and the writes to the wakeup descriptor are recorded, because the code
  only logs their results and goes on the same way; whether the kernel accepts a call is part of
  the model of the kernel below. The results of \<open>epoll_wait\<close> are inputs, one per iteration. A call is
  made on the loop's thread or on another one; the flag \<open>isInLoopThread\<close> says which.
\<close>

section \<open>State\<close>

text \<open>
  The closures the loop can hold: user code, \<open>Timer::onTimer\<close>, the reader of the wakeup
  descriptor, and the two closures that \<open>addEpollEvent\<close> and \<open>deleteEpollEvent\<close> queue when they
  are called on another thread. An empty \<open>std::function\<close> is \<open>None\<close>.
\<close>

datatype 'c closure = User 'c | OnTimer | DrainWakeup | AddToEpoll nat | DeleteToEpoll nat

datatype epoll_op = EPOLL_CTL_ADD | EPOLL_CTL_MOD | EPOLL_CTL_DEL

record epoll_call =
  ec_op :: epoll_op
  ec_fd :: int
  ec_events :: epoll_mask

record 'c eventloop =
  m_stop_flag :: bool
  m_is_looping :: bool
  m_listen_fds :: "int set"
  m_pending_tasks :: "'c closure option list"
  m_timer :: "'c timer"
  fd_events :: "nat \<Rightarrow> 'c closure fd_event"
  epoll_calls :: "epoll_call list"
  wakeup_writes :: nat

section \<open>Operations\<close>

definition wakeup :: "'c eventloop \<Rightarrow> 'c eventloop" where
  "wakeup l = l\<lparr>wakeup_writes := Suc (wakeup_writes l)\<rparr>"

definition stop :: "'c eventloop \<Rightarrow> 'c eventloop" where
  "stop l = (if \<not> m_stop_flag l then wakeup (l\<lparr>m_stop_flag := True\<rparr>) else l)"

definition addTask :: "'c closure option \<Rightarrow> bool \<Rightarrow> 'c eventloop \<Rightarrow> 'c eventloop" where
  "addTask cb is_wake_up l =
     (if m_stop_flag l then l
      else
        let l = l\<lparr>m_pending_tasks := m_pending_tasks l @ [cb]\<rparr> in
        if is_wake_up then wakeup l else l)"

text \<open>The macros \<open>ADD_TO_EPOLL\<close> and \<open>DELETE_TO_EPOLL\<close>.\<close>

definition ADD_TO_EPOLL :: "nat \<Rightarrow> 'c eventloop \<Rightarrow> 'c eventloop" where
  "ADD_TO_EPOLL event l =
     (let fd = fe_fd (fd_events l event);
          op = (if fd \<in> m_listen_fds l then EPOLL_CTL_MOD else EPOLL_CTL_ADD)
      in l\<lparr>epoll_calls := epoll_calls l @ [\<lparr>ec_op = op, ec_fd = fd, ec_events = m_listen_event (fd_events l event)\<rparr>],
           m_listen_fds := insert fd (m_listen_fds l)\<rparr>)"

definition DELETE_TO_EPOLL :: "nat \<Rightarrow> 'c eventloop \<Rightarrow> 'c eventloop" where
  "DELETE_TO_EPOLL event l =
     (let fd = fe_fd (fd_events l event) in
      if fd \<notin> m_listen_fds l then l
      else l\<lparr>epoll_calls := epoll_calls l @ [\<lparr>ec_op = EPOLL_CTL_DEL, ec_fd = fd, ec_events = 0\<rparr>],
             m_listen_fds := m_listen_fds l - {fd}\<rparr>)"

definition addEpollEvent :: "bool \<Rightarrow> nat option \<Rightarrow> 'c eventloop \<Rightarrow> 'c eventloop" where
  "addEpollEvent isInLoopThread event l =
     (case event of
        None \<Rightarrow> l
      | Some p \<Rightarrow>
          if m_stop_flag l then l
          else if isInLoopThread then ADD_TO_EPOLL p l
          else addTask (Some (AddToEpoll p)) True l)"

definition deleteEpollEvent :: "bool \<Rightarrow> nat \<Rightarrow> 'c eventloop \<Rightarrow> 'c eventloop" where
  "deleteEpollEvent isInLoopThread event l =
     (if isInLoopThread then DELETE_TO_EPOLL event l
      else addTask (Some (DeleteToEpoll event)) True l)"

definition loop_addTimerEvent :: "(nat \<Rightarrow> int) \<Rightarrow> nat option \<Rightarrow> 'c eventloop \<Rightarrow> 'c eventloop" where
  "loop_addTimerEvent clock event l =
     (case event of
        None \<Rightarrow> l
      | Some e \<Rightarrow> if m_stop_flag l then l else l\<lparr>m_timer := addTimerEvent clock e (m_timer l)\<rparr>)"

definition loop_deleteTimerEvent :: "nat option \<Rightarrow> 'c eventloop \<Rightarrow> 'c eventloop" where
  "loop_deleteTimerEvent event l =
     (case event of None \<Rightarrow> l | Some e \<Rightarrow> l\<lparr>m_timer := deleteTimerEvent e (m_timer l)\<rparr>)"

text \<open>Calls that user code makes on the loop and on its descriptor events.\<close>

datatype 'c loop_call =
    CallStop
  | CallAddTask "'c closure option" bool
  | CallAddEpoll "nat option"
  | CallDeleteEpoll nat
  | CallAddTimer "nat option"
  | CallDeleteTimer "nat option"
  | CallListen nat trigger_event "'c closure option" "'c closure option"
  | CallCancle nat trigger_event

fun call_loop :: "(nat \<Rightarrow> int) \<Rightarrow> bool \<Rightarrow> 'c loop_call \<Rightarrow> 'c eventloop \<Rightarrow> 'c eventloop" where
  "call_loop clock inloop CallStop l = stop l"
| "call_loop clock inloop (CallAddTask cb w) l = addTask cb w l"
| "call_loop clock inloop (CallAddEpoll p) l = addEpollEvent inloop p l"
| "call_loop clock inloop (CallDeleteEpoll p) l = deleteEpollEvent inloop p l"
| "call_loop clock inloop (CallAddTimer e) l = loop_addTimerEvent clock e l"
| "call_loop clock inloop (CallDeleteTimer e) l = loop_deleteTimerEvent e l"
| "call_loop clock inloop (CallListen p e cb ecb) l =
     l\<lparr>fd_events := (fd_events l)(p := listen e cb ecb (fd_events l p))\<rparr>"
| "call_loop clock inloop (CallCancle p e) l =
     l\<lparr>fd_events := (fd_events l)(p := cancle e (fd_events l p))\<rparr>"

definition run_user :: "(nat \<Rightarrow> int) \<Rightarrow> ('c \<Rightarrow> 'c loop_call list) \<Rightarrow> 'c \<Rightarrow> 'c eventloop \<Rightarrow> 'c eventloop" where
  "run_user clock behaviour c l = fold (call_loop clock True) (behaviour c) l"

text \<open>The non-blocking timer descriptor: one expiry count, then \<open>EAGAIN\<close>.\<close>

definition timer_reads :: "read_result list" where
  "timer_reads = [ReadBytes 8, ReadError EAGAIN]"

fun run_closure ::
  "(nat \<Rightarrow> int) \<Rightarrow> ('c \<Rightarrow> 'c loop_call list) \<Rightarrow> 'c closure option \<Rightarrow> 'c eventloop \<Rightarrow> 'c eventloop" where
  "run_closure clock behaviour None l = l"
| "run_closure clock behaviour (Some (User c)) l = run_user clock behaviour c l"
| "run_closure clock behaviour (Some DrainWakeup) l = l"
| "run_closure clock behaviour (Some (AddToEpoll p)) l = ADD_TO_EPOLL p l"
| "run_closure clock behaviour (Some (DeleteToEpoll p)) l = DELETE_TO_EPOLL p l"
| "run_closure clock behaviour (Some OnTimer) l =
     (case onTimer clock timer_reads (m_timer l) of
        None \<Rightarrow> l
      | Some (t, cbs) \<Rightarrow> fold (run_user clock behaviour) cbs (l\<lparr>m_timer := t\<rparr>))"

text \<open>\<open>while (!tmp_tasks.empty() && !m_stop_flag.load())\<close>\<close>

fun run_tasks ::
  "(nat \<Rightarrow> int) \<Rightarrow> ('c \<Rightarrow> 'c loop_call list) \<Rightarrow> 'c closure option list \<Rightarrow> 'c eventloop \<Rightarrow> 'c eventloop" where
  "run_tasks clock behaviour [] l = l"
| "run_tasks clock behaviour (cb # tmp_tasks) l =
     (if m_stop_flag l then l
      else run_tasks clock behaviour tmp_tasks (run_closure clock behaviour cb l))"

text \<open>The handling of one triggered event.\<close>

definition dispatch_event :: "nat option \<times> epoll_mask \<Rightarrow> 'c eventloop \<Rightarrow> 'c eventloop" where
  "dispatch_event trigger l =
     (case trigger of
        (None, _) \<Rightarrow> l
      | (Some p, events) \<Rightarrow>
          let is_terminal = events AND (EPOLLERR OR EPOLLHUP OR EPOLLRDHUP) \<noteq> 0;
              l = (if events AND EPOLLIN \<noteq> 0 then addTask (handler IN_EVENT (fd_events l p)) False l else l);
              l = (if events AND EPOLLOUT \<noteq> 0 \<and> \<not> is_terminal
                   then addTask (handler OUT_EVENT (fd_events l p)) False l else l)
          in if is_terminal then
               let error_callback = handler ERROR_EVENT (fd_events l p);
                   l = deleteEpollEvent True p l
               in if error_callback \<noteq> None then addTask error_callback False l else l
             else l)"

datatype wait_result = WaitError | WaitEvents "(nat option \<times> epoll_mask) list"

definition loop_iteration ::
  "(nat \<Rightarrow> int) \<Rightarrow> ('c \<Rightarrow> 'c loop_call list) \<Rightarrow> wait_result \<Rightarrow> 'c eventloop \<Rightarrow> 'c eventloop" where
  "loop_iteration clock behaviour wait l =
     (let tmp_tasks = m_pending_tasks l;
          l = run_tasks clock behaviour tmp_tasks (l\<lparr>m_pending_tasks := []\<rparr>)
      in case wait of
           WaitError \<Rightarrow> l
         | WaitEvents result_events \<Rightarrow> fold dispatch_event result_events l)"

text \<open>\<open>None\<close> is a loop that is still running when the list of \<open>epoll_wait\<close> results ends.\<close>

fun loop_while ::
  "(nat \<Rightarrow> int) \<Rightarrow> ('c \<Rightarrow> 'c loop_call list) \<Rightarrow> wait_result list \<Rightarrow> 'c eventloop \<Rightarrow> 'c eventloop option" where
  "loop_while clock behaviour waits l =
     (if m_stop_flag l then Some (l\<lparr>m_is_looping := False\<rparr>)
      else case waits of
             [] \<Rightarrow> None
           | w # ws \<Rightarrow> loop_while clock behaviour ws (loop_iteration clock behaviour w l))"

declare loop_while.simps [simp del]

definition loop ::
  "(nat \<Rightarrow> int) \<Rightarrow> ('c \<Rightarrow> 'c loop_call list) \<Rightarrow> wait_result list \<Rightarrow> 'c eventloop \<Rightarrow> 'c eventloop option" where
  "loop clock behaviour waits l =
     (if m_stop_flag l then Some (l\<lparr>m_is_looping := False\<rparr>)
      else loop_while clock behaviour waits (l\<lparr>m_is_looping := True\<rparr>))"

text \<open>
  The constructor; \<open>None\<close> is the \<open>exit(0)\<close> when the thread already has a loop or a descriptor
  cannot be created. The addresses and descriptors of the wakeup event and of the timer are
  arguments.
\<close>

definition initWakeUpFdEevent :: "nat \<times> int \<Rightarrow> 'c eventloop \<Rightarrow> 'c eventloop option" where
  "initWakeUpFdEevent wake l =
     (if snd wake < 0 then None
      else Some (addEpollEvent True (Some (fst wake))
             (l\<lparr>fd_events := (fd_events l)(fst wake := listen IN_EVENT (Some DrainWakeup) None (newFd_Event (snd wake)))\<rparr>)))"

definition initTimer :: "nat \<times> int \<Rightarrow> (nat \<Rightarrow> 'c timer_event) \<Rightarrow> 'c eventloop \<Rightarrow> 'c eventloop" where
  "initTimer timer tevs l =
     addEpollEvent True (Some (fst timer))
       (l\<lparr>m_timer := newTimer tevs,
          fd_events := (fd_events l)(fst timer := listen IN_EVENT (Some OnTimer) None (newFd_Event (snd timer)))\<rparr>)"

definition newEventloop ::
  "bool \<Rightarrow> int \<Rightarrow> nat \<times> int \<Rightarrow> nat \<times> int \<Rightarrow> (nat \<Rightarrow> 'c closure fd_event) \<Rightarrow> (nat \<Rightarrow> 'c timer_event) \<Rightarrow> 'c eventloop option" where
  "newEventloop created epoll_fd wake timer evs tevs =
     (if created \<or> epoll_fd = - 1 then None
      else
        let l = \<lparr>m_stop_flag = False, m_is_looping = False, m_listen_fds = {}, m_pending_tasks = [],
                 m_timer = newTimer tevs, fd_events = evs, epoll_calls = [], wakeup_writes = 0\<rparr>
        in map_option (initTimer timer tevs) (initWakeUpFdEevent wake l))"

text \<open>
  The loop of a thread: \<open>t_current_Eventloop\<close> with the descriptors it owns. \<open>GetCurrentEventLoop\<close> creates it on
  the first call; the destructor stops it, closes its three descriptors and forgets it.
\<close>

record 'c thread_loop =
  t_current_Eventloop :: "'c eventloop option"
  own_fds :: "int list"
  closed_fds :: "int list"

definition GetCurrentEventLoop ::
  "int \<Rightarrow> nat \<times> int \<Rightarrow> nat \<times> int \<Rightarrow> (nat \<Rightarrow> 'c closure fd_event) \<Rightarrow> (nat \<Rightarrow> 'c timer_event) \<Rightarrow> 'c thread_loop \<Rightarrow>
     'c thread_loop option" where
  "GetCurrentEventLoop epoll_fd wake timer evs tevs th =
     (case t_current_Eventloop th of
        Some l \<Rightarrow> Some th
      | None \<Rightarrow> map_option (\<lambda>l. th\<lparr>t_current_Eventloop := Some l, own_fds := [epoll_fd, snd wake, snd timer]\<rparr>)
                  (newEventloop False epoll_fd wake timer evs tevs))"

definition destroyEventloop :: "'c thread_loop \<Rightarrow> 'c eventloop option \<times> 'c thread_loop" where
  "destroyEventloop th =
     (map_option stop (t_current_Eventloop th),
      th\<lparr>t_current_Eventloop := None, own_fds := [], closed_fds := closed_fds th @ filter (\<lambda>fd. 0 \<le> fd) (own_fds th)\<rparr>)"

text \<open>A loop that has nothing to do, for examples.\<close>

definition idle_loop :: "nat eventloop" where
  "idle_loop = \<lparr>m_stop_flag = False, m_is_looping = False, m_listen_fds = {}, m_pending_tasks = [],
     m_timer = newTimer (\<lambda>_. newTimerEvent 0 0 False None), fd_events = (\<lambda>_. newFd_Event 0), epoll_calls = [], wakeup_writes = 0\<rparr>"

section \<open>What the operations keep\<close>

text \<open>
  A relation between loop states that the elementary operations respect is respected by user
  callbacks, queued tasks and the dispatch of events.
\<close>

locale loop_relation =
  fixes R :: "'c eventloop \<Rightarrow> 'c eventloop \<Rightarrow> bool"
  assumes R_refl: "R l l"
    and R_trans: "R l l1 \<Longrightarrow> R l1 l2 \<Longrightarrow> R l l2"
    and R_stop: "R l (stop l)"
    and R_addTask: "R l (addTask cb w l)"
    and R_add: "R l (ADD_TO_EPOLL p l)"
    and R_delete: "R l (DELETE_TO_EPOLL p l)"
    and R_timer: "R l (l\<lparr>m_timer := t\<rparr>)"
    and R_events: "R l (l\<lparr>fd_events := evs\<rparr>)"
begin

lemma R_call: "R l (call_loop clock inloop call l)"
  by (cases call)
    (auto simp: addEpollEvent_def deleteEpollEvent_def loop_addTimerEvent_def loop_deleteTimerEvent_def
      R_refl R_stop R_addTask R_add R_delete R_timer R_events split: option.splits)

lemma R_fold: "(\<And>x l. R l (f x l)) \<Longrightarrow> R l (fold f xs l)"
  by (induction xs arbitrary: l) (auto intro: R_refl R_trans)

lemma R_user: "R l (run_user clock behaviour c l)"
  by (simp add: run_user_def R_fold R_call)

lemma R_closure: "R l (run_closure clock behaviour cb l)"
proof (cases cb)
  case (Some x)
  then show ?thesis
  proof (cases x)
    case OnTimer
    have "R l (fold (run_user clock behaviour) cbs (l\<lparr>m_timer := t\<rparr>))" for cbs t
      by (rule R_trans [OF R_timer R_fold]) (rule R_user)
    then show ?thesis
      by (auto simp: Some OnTimer R_refl split: option.splits)
  qed (simp_all add: Some R_refl R_user R_add R_delete)
qed (simp add: R_refl)

lemma R_tasks: "R l (run_tasks clock behaviour tasks l)"
proof (induction tasks arbitrary: l)
  case (Cons cb tasks)
  show ?case
    using R_trans [OF R_closure Cons.IH] by (simp add: R_refl)
qed (simp add: R_refl)

lemma R_dispatch: "R l (dispatch_event trigger l)"
proof (cases trigger)
  case (Pair p events)
  have i: "R l (if b then addTask cb w l else l)" for b cb w and l :: "'c eventloop"
    by (simp add: R_refl R_addTask)
  have d: "R l (if ecb \<noteq> None then addTask ecb False (deleteEpollEvent True q l) else deleteEpollEvent True q l)"
    for ecb q and l :: "'c eventloop"
    by (auto simp: deleteEpollEvent_def R_delete intro: R_trans [OF R_delete R_addTask])
  have e: "R l (if b then (if ecb \<noteq> None then addTask ecb False (deleteEpollEvent True q l) else deleteEpollEvent True q l) else l)"
    for b ecb q and l :: "'c eventloop"
    using d by (simp add: R_refl)
  show ?thesis
  proof (cases p)
    case (Some q)
    show ?thesis
      unfolding dispatch_event_def Pair Some prod.case option.case Let_def
      by (rule R_trans [OF R_trans [OF i i] e])
  qed (simp add: dispatch_event_def Pair R_refl)
qed

end

lemma stop_simps [simp]:
  "m_listen_fds (stop l) = m_listen_fds l" "m_pending_tasks (stop l) = m_pending_tasks l"
  "epoll_calls (stop l) = epoll_calls l" "m_stop_flag (stop l)" "fd_events (stop l) = fd_events l"
  by (simp_all add: stop_def wakeup_def)

lemma addTask_simps [simp]:
  "m_listen_fds (addTask cb w l) = m_listen_fds l" "epoll_calls (addTask cb w l) = epoll_calls l"
  "m_stop_flag (addTask cb w l) = m_stop_flag l" "fd_events (addTask cb w l) = fd_events l"
  "m_pending_tasks (addTask cb w l) = m_pending_tasks l @ (if m_stop_flag l then [] else [cb])"
  by (simp_all add: addTask_def wakeup_def Let_def)

lemma epoll_simps [simp]:
  "m_stop_flag (ADD_TO_EPOLL p l) = m_stop_flag l" "m_pending_tasks (ADD_TO_EPOLL p l) = m_pending_tasks l"
  "m_stop_flag (DELETE_TO_EPOLL p l) = m_stop_flag l" "m_pending_tasks (DELETE_TO_EPOLL p l) = m_pending_tasks l"
  by (simp_all add: ADD_TO_EPOLL_def DELETE_TO_EPOLL_def Let_def)

lemma dispatch_event_stop [simp]: "m_stop_flag (dispatch_event e l) = m_stop_flag l"
  by (auto simp: dispatch_event_def deleteEpollEvent_def Let_def split: prod.splits option.splits)

lemma dispatch_events_stop [simp]: "m_stop_flag (fold dispatch_event evs l) = m_stop_flag l"
  by (induction evs arbitrary: l) simp_all

text \<open>The stop flag is never reset, and tasks are only appended.\<close>

interpretation stopping: loop_relation "\<lambda>l l'. m_stop_flag l \<longrightarrow> m_stop_flag l'"
  by unfold_locales auto

interpretation queueing: loop_relation "\<lambda>l l'. \<exists>new. m_pending_tasks l' = m_pending_tasks l @ new"
  by unfold_locales auto

section \<open>The interest set of the kernel\<close>

text \<open>
  The documented behaviour of \<open>epoll_ctl\<close> on the set of registered descriptors: adding a
  registered one, or modifying or deleting an unregistered one, fails.
\<close>

fun epoll_ctl :: "epoll_call \<Rightarrow> int set \<Rightarrow> int set option" where
  "epoll_ctl c S =
     (case ec_op c of
        EPOLL_CTL_ADD \<Rightarrow> if ec_fd c \<in> S then None else Some (insert (ec_fd c) S)
      | EPOLL_CTL_MOD \<Rightarrow> if ec_fd c \<in> S then Some S else None
      | EPOLL_CTL_DEL \<Rightarrow> if ec_fd c \<in> S then Some (S - {ec_fd c}) else None)"

fun replay :: "epoll_call list \<Rightarrow> int set \<Rightarrow> int set option" where
  "replay [] S = Some S"
| "replay (c # cs) S = (case epoll_ctl c S of None \<Rightarrow> None | Some S' \<Rightarrow> replay cs S')"

lemma replay_append:
  "replay (cs @ ds) S = (case replay cs S of None \<Rightarrow> None | Some S' \<Rightarrow> replay ds S')"
  by (induction cs arbitrary: S) (auto split: option.splits)

definition mirrors_kernel :: "'c eventloop \<Rightarrow> bool" where
  "mirrors_kernel l \<longleftrightarrow> replay (epoll_calls l) {} = Some (m_listen_fds l)"

interpretation mirroring: loop_relation "\<lambda>l l'. mirrors_kernel l \<longrightarrow> mirrors_kernel l'"
  by unfold_locales
    (auto simp: mirrors_kernel_def ADD_TO_EPOLL_def DELETE_TO_EPOLL_def Let_def replay_append)

text \<open>The calls issued between two states of the loop, by a kernel that knows exactly the listened descriptors.\<close>

definition issued :: "'c eventloop \<Rightarrow> 'c eventloop \<Rightarrow> epoll_call list" where
  "issued l l' = drop (length (epoll_calls l)) (epoll_calls l')"

definition accepted_calls :: "'c eventloop \<Rightarrow> 'c eventloop \<Rightarrow> bool" where
  "accepted_calls l l' \<longleftrightarrow> epoll_calls l' = epoll_calls l @ issued l l' \<and> replay (issued l l') (m_listen_fds l) = Some (m_listen_fds l')"

lemma accepted_callsI:
  "epoll_calls l' = epoll_calls l @ new \<Longrightarrow> replay new (m_listen_fds l) = Some (m_listen_fds l') \<Longrightarrow> accepted_calls l l'"
  by (simp add: accepted_calls_def issued_def)

lemma accepted_calls_trans:
  assumes "accepted_calls l l1" and "accepted_calls l1 l2"
  shows "accepted_calls l l2"
  by (rule accepted_callsI [of _ _ "issued l l1 @ issued l1 l2"]) (use assms in \<open>simp_all add: accepted_calls_def replay_append\<close>)

interpretation accepting: loop_relation accepted_calls
  by unfold_locales
    (auto simp: ADD_TO_EPOLL_def DELETE_TO_EPOLL_def Let_def intro: accepted_calls_trans accepted_callsI)

lemma run_tasks_all:
  assumes "\<not> m_stop_flag (run_tasks clock behaviour tasks l)"
  shows "run_tasks clock behaviour tasks l = fold (run_closure clock behaviour) tasks l"
  using assms by (induction tasks arbitrary: l) (auto split: if_splits)

lemma loop_iteration_accepted:
  fixes l :: "'c eventloop"
  shows "accepted_calls l (loop_iteration clock behaviour w l)"
proof -
  have "accepted_calls l' (fold dispatch_event evs l')" for evs and l' :: "'c eventloop"
    by (rule accepting.R_fold) (rule accepting.R_dispatch)
  note dispatched = accepted_calls_trans [OF _ this]
  have "accepted_calls l (l\<lparr>m_pending_tasks := []\<rparr>)"
    by (rule accepted_callsI [of _ _ "[]"]) simp_all
  then have "accepted_calls l (run_tasks clock behaviour (m_pending_tasks l) (l\<lparr>m_pending_tasks := []\<rparr>))"
    using accepting.R_tasks accepted_calls_trans by blast
  then show ?thesis
    using dispatched by (simp add: loop_iteration_def Let_def split: wait_result.splits)
qed

section \<open>Runs\<close>

text \<open>
  A loop and its clients, with the kernel: iterations of the loop and calls made on other threads. The calls that a step issues reach the kernel, and \<open>None\<close> is a kernel that
  has refused one of them. A descriptor may be closed while the loop does not listen on it; closing
  removes a descriptor from the interest set.
\<close>

inductive kernel_reach ::
  "(nat \<Rightarrow> int) \<Rightarrow> ('c \<Rightarrow> 'c loop_call list) \<Rightarrow> 'c eventloop \<Rightarrow> 'c eventloop \<Rightarrow> int set option \<Rightarrow> bool"
  for clock :: "nat \<Rightarrow> int" and behaviour :: "'c \<Rightarrow> 'c loop_call list" and l0 :: "'c eventloop" where
  k_start: "kernel_reach clock behaviour l0 l0 (replay (epoll_calls l0) {})"
| k_foreign: "kernel_reach clock behaviour l0 l K \<Longrightarrow> l' = call_loop clock False call l \<Longrightarrow>
    kernel_reach clock behaviour l0 l' (Option.bind K (replay (issued l l')))"
| k_iterate: "kernel_reach clock behaviour l0 l K \<Longrightarrow> \<not> m_stop_flag l \<Longrightarrow> l' = loop_iteration clock behaviour w l \<Longrightarrow>
    kernel_reach clock behaviour l0 l' (Option.bind K (replay (issued l l')))"
| k_close: "kernel_reach clock behaviour l0 l K \<Longrightarrow> fd \<notin> m_listen_fds l \<Longrightarrow>
    kernel_reach clock behaviour l0 l (map_option (\<lambda>S. S - {fd}) K)"

lemma kernel_reach_mirrors:
  assumes "kernel_reach clock behaviour l0 l K" and "mirrors_kernel l0"
  shows "K = Some (m_listen_fds l)"
  using assms
proof (induction rule: kernel_reach.induct)
  case k_start
  then show ?case by (simp add: mirrors_kernel_def)
next
  case (k_foreign l K l' call)
  then show ?case using accepting.R_call [of l clock False call] by (simp add: accepted_calls_def)
next
  case (k_iterate l K l' w)
  then show ?case using loop_iteration_accepted [of l clock behaviour w] by (simp add: accepted_calls_def)
next
  case (k_close l K fd)
  then show ?case by simp
qed

text \<open>
  A registration that the kernel refuses for a reason of its own is never made up for: the code listens
  from then on, so that every later registration of the descriptor is a modification, which the kernel
  refuses too.
\<close>

lemma refused_registration_is_final:
  assumes "fe_fd (fd_events l p) \<notin> S" and "fe_fd (fd_events l p) \<in> m_listen_fds l"
  shows "replay (issued l (ADD_TO_EPOLL p l)) S = None"
  using assms by (simp add: issued_def ADD_TO_EPOLL_def Let_def)

text \<open>
  A thread has one loop: a second call returns the first one's result, and what it opened is
  closed with it.
\<close>

lemma GetCurrentEventLoop_once:
  assumes "GetCurrentEventLoop epoll_fd wake timer evs tevs th = Some th'"
  shows "GetCurrentEventLoop epoll_fd' wake' timer' evs' tevs' th' = Some th'"
    and "t_current_Eventloop th = None \<Longrightarrow> 0 \<le> epoll_fd \<Longrightarrow> 0 \<le> snd timer \<Longrightarrow>
           closed_fds (snd (destroyEventloop th')) = closed_fds th @ [epoll_fd, snd wake, snd timer]"
  using assms
  by (auto simp: GetCurrentEventLoop_def destroyEventloop_def newEventloop_def initWakeUpFdEevent_def Let_def
      split: option.splits if_splits)

lemma newEventloop_mirrors:
  "newEventloop created epoll_fd wake timer evs tevs = Some l \<Longrightarrow> mirrors_kernel l"
  by (auto simp: newEventloop_def initWakeUpFdEevent_def initTimer_def mirrors_kernel_def addEpollEvent_def ADD_TO_EPOLL_def
      Let_def split: if_splits)

lemma loop_iteration_stopped:
  assumes "m_stop_flag (run_tasks clock behaviour (m_pending_tasks l) (l\<lparr>m_pending_tasks := []\<rparr>))"
  shows "m_stop_flag (loop_iteration clock behaviour w l)"
  using assms stopping.R_fold [of dispatch_event, OF stopping.R_dispatch]
  by (auto simp: loop_iteration_def Let_def split: wait_result.splits)

section \<open>Properties\<close>

text \<open>
  C29. The loop and the kernel agree on what is registered: however calls from other threads, user
  callbacks, loop iterations and the closing of descriptors interleave, as long as a descriptor is
  closed only while the loop does not listen on it and the kernel refuses a call for no other reason
  than the documented ones, every \<open>epoll_ctl\<close> the loop issues is accepted (no second \<open>ADD\<close>, no
  \<open>MOD\<close> or \<open>DEL\<close> of an unregistered descriptor), and the interest set of the kernel is \<open>m_listen_fds\<close>.
\<close>

theorem listen_fds_mirror_kernel:
  assumes "newEventloop created epoll_fd wake timer evs tevs = Some l0" and "kernel_reach clock behaviour l0 l K"
  shows "K = Some (m_listen_fds l)"
  using kernel_reach_mirrors [OF assms(2) newEventloop_mirrors [OF assms(1)]] .

theorem listen_fds_mirror_kernel_witness:
  "\<exists>l0 l K. newEventloop False 3 (0, 4) (1, 5) (\<lambda>_. newFd_Event 9) (\<lambda>_. newTimerEvent 0 0 False None) = Some l0 \<and>
     l = loop_iteration (\<lambda>_. 0) (\<lambda>c :: nat. []) WaitError (addEpollEvent False (Some 2) l0) \<and>
     kernel_reach (\<lambda>_. 0) (\<lambda>c. []) l0 l K \<and> K = Some (m_listen_fds l) \<and> 9 \<in> the K"
proof -
  obtain l0 :: "nat eventloop" where l0: "newEventloop False 3 (0, 4) (1, 5) (\<lambda>_. newFd_Event 9) (\<lambda>_. newTimerEvent 0 0 False None) = Some l0"
    by (auto simp: newEventloop_def initWakeUpFdEevent_def Let_def)
  have s: "\<not> m_stop_flag l0" "m_pending_tasks l0 = []" "fe_fd (fd_events l0 2) = 9"
    using l0 by (auto simp: newEventloop_def initWakeUpFdEevent_def initTimer_def addEpollEvent_def ADD_TO_EPOLL_def Let_def)
  define l where "l = loop_iteration (\<lambda>_. 0) (\<lambda>c :: nat. []) WaitError (addEpollEvent False (Some 2) l0)"
  have "kernel_reach (\<lambda>_. 0) (\<lambda>c. []) l0 (addEpollEvent False (Some 2) l0)
      (Option.bind (replay (epoll_calls l0) {}) (replay (issued l0 (addEpollEvent False (Some 2) l0))))"
    by (rule kernel_reach.k_foreign [OF kernel_reach.k_start, where call = "CallAddEpoll (Some 2)"]) simp
  then obtain K where k: "kernel_reach (\<lambda>_. 0) (\<lambda>c. []) l0 l K"
    using kernel_reach.k_iterate [OF _ _ l_def] s(1) by (fastforce simp: addEpollEvent_def)
  moreover have "9 \<in> m_listen_fds l"
    using s by (simp add: l_def loop_iteration_def addEpollEvent_def ADD_TO_EPOLL_def addTask_def wakeup_def Let_def)
  ultimately show ?thesis
    using listen_fds_mirror_kernel [OF l0 k] l0 l_def by auto
qed

text \<open>
  Every task of the queue runs exactly once and in order: unless the loop has been stopped by
  the end of the iteration, an iteration runs the tasks queued before it, first to last, and
  afterwards the queue holds nothing but what these tasks and the triggered events have queued.
\<close>

theorem iteration_runs_all_tasks:
  assumes "\<not> m_stop_flag (loop_iteration clock behaviour (WaitEvents evs) l)"
  shows "loop_iteration clock behaviour (WaitEvents evs) l =
           fold dispatch_event evs (fold (run_closure clock behaviour) (m_pending_tasks l) (l\<lparr>m_pending_tasks := []\<rparr>)) \<and>
         (\<exists>new. m_pending_tasks (loop_iteration clock behaviour (WaitEvents evs) l) =
            m_pending_tasks (fold (run_closure clock behaviour) (m_pending_tasks l) (l\<lparr>m_pending_tasks := []\<rparr>)) @ new)"
proof -
  have "\<not> m_stop_flag (run_tasks clock behaviour (m_pending_tasks l) (l\<lparr>m_pending_tasks := []\<rparr>))"
    using assms loop_iteration_stopped by blast
  then have "run_tasks clock behaviour (m_pending_tasks l) (l\<lparr>m_pending_tasks := []\<rparr>) =
      fold (run_closure clock behaviour) (m_pending_tasks l) (l\<lparr>m_pending_tasks := []\<rparr>)"
    by (rule run_tasks_all)
  then show ?thesis
    using queueing.R_fold [of dispatch_event, OF queueing.R_dispatch] by (simp add: loop_iteration_def)
qed

theorem iteration_runs_all_tasks_witness:
  "\<exists>l :: nat eventloop. m_pending_tasks l = [Some (User 0), Some (User 1)] \<and>
     loop_iteration (\<lambda>_. 0) (\<lambda>c. [CallAddTask (Some (User (c + 2))) False]) (WaitEvents []) l =
     fold (run_closure (\<lambda>_. 0) (\<lambda>c. [CallAddTask (Some (User (c + 2))) False])) [Some (User 0), Some (User 1)]
       (l\<lparr>m_pending_tasks := []\<rparr>)"
proof -
  obtain l :: "nat eventloop" where l: "m_pending_tasks l = [Some (User 0), Some (User 1)]" "\<not> m_stop_flag l"
    by (rule that [of "\<lparr>m_stop_flag = False, m_is_looping = True, m_listen_fds = {}, m_pending_tasks = [Some (User 0), Some (User 1)],
          m_timer = newTimer (\<lambda>_. newTimerEvent 0 0 False None), fd_events = \<lambda>_. newFd_Event 0, epoll_calls = [], wakeup_writes = 0\<rparr>"]) simp_all
  then have "\<not> m_stop_flag (loop_iteration (\<lambda>_. 0) (\<lambda>c. [CallAddTask (Some (User (c + 2))) False]) (WaitEvents []) l)"
    by (simp add: loop_iteration_def run_user_def)
  from iteration_runs_all_tasks [OF this] l show ?thesis by auto
qed

text \<open>
  A terminal event (error, hang-up, peer shutdown) on a descriptor: pending input is still
  handled first, the write handler is not queued, the descriptor leaves the interest set, and the
  error callback, if there is one, is queued last.
\<close>

theorem terminal_event_dispatch:
  assumes "events AND (EPOLLERR OR EPOLLHUP OR EPOLLRDHUP) \<noteq> 0" and "\<not> m_stop_flag l"
  shows "m_pending_tasks (dispatch_event (Some p, events) l) = m_pending_tasks l @
           (if events AND EPOLLIN \<noteq> 0 then [handler IN_EVENT (fd_events l p)] else []) @
           (if handler ERROR_EVENT (fd_events l p) \<noteq> None then [handler ERROR_EVENT (fd_events l p)] else []) \<and>
         m_listen_fds (dispatch_event (Some p, events) l) = m_listen_fds l - {fe_fd (fd_events l p)}"
  using assms by (auto simp: dispatch_event_def deleteEpollEvent_def DELETE_TO_EPOLL_def Let_def)

theorem terminal_event_dispatch_witness:
  "m_pending_tasks (dispatch_event (Some 0, EPOLLHUP OR EPOLLIN)
      \<lparr>m_stop_flag = False, m_is_looping = True, m_listen_fds = {7}, m_pending_tasks = [],
       m_timer = newTimer (\<lambda>_. newTimerEvent 0 0 False None),
       fd_events = \<lambda>_. listen IN_EVENT (Some (User ''r'')) (Some (User ''e'')) (newFd_Event 7),
       epoll_calls = [], wakeup_writes = 0\<rparr>) = [Some (User ''r''), Some (User ''e'')]"
proof -
  have t: "(EPOLLHUP OR EPOLLIN) AND (EPOLLERR OR EPOLLHUP OR EPOLLRDHUP) \<noteq> 0"
    and i: "(EPOLLHUP OR EPOLLIN) AND EPOLLIN \<noteq> 0"
    by (simp_all add: EPOLLHUP_def EPOLLIN_def EPOLLERR_def EPOLLRDHUP_def)
  show ?thesis
    by (subst terminal_event_dispatch [OF t, THEN conjunct1])
      (use i in \<open>simp_all add: handler_listen\<close>)
qed

text \<open>
  Stopping ends the loop: once a task of the batch has set the stop flag, no later task of
  the batch runs, no new task can be queued, and the loop returns after the current
  \<open>epoll_wait\<close> at the latest, with the looping flag cleared.
\<close>

theorem stop_ends_loop:
  assumes "\<not> m_stop_flag l" and "m_pending_tasks l = pre @ cb # post"
    and "\<not> m_stop_flag (fold (run_closure clock behaviour) pre (l\<lparr>m_is_looping := True, m_pending_tasks := []\<rparr>))"
    and "l1 = fold (run_closure clock behaviour) (pre @ [cb]) (l\<lparr>m_is_looping := True, m_pending_tasks := []\<rparr>)"
    and "m_stop_flag l1"
  shows "\<exists>l'. loop clock behaviour (WaitEvents evs # waits) l = Some (l'\<lparr>m_is_looping := False\<rparr>) \<and>
           l' = fold dispatch_event evs l1 \<and> m_pending_tasks l' = m_pending_tasks l1"
proof -
  define l2 where "l2 = l\<lparr>m_is_looping := True, m_pending_tasks := []\<rparr>"
  have split: "\<not> m_stop_flag (fold (run_closure clock behaviour) xs a) \<Longrightarrow>
      run_tasks clock behaviour (xs @ ys) a = run_tasks clock behaviour ys (fold (run_closure clock behaviour) xs a)"
    for xs ys and a :: "'a eventloop"
  proof (induction xs arbitrary: a)
    case (Cons x xs)
    have "\<not> m_stop_flag a"
      using Cons.prems stopping.R_fold [of "run_closure clock behaviour" a "x # xs", OF stopping.R_closure] by blast
    with Cons show ?case by simp
  qed simp
  have halted: "m_stop_flag a \<Longrightarrow> run_tasks clock behaviour ys a = a" for ys and a :: "'a eventloop"
    by (cases ys) simp_all
  have run: "run_tasks clock behaviour (m_pending_tasks l) l2 = l1"
    using assms(2-5) split [of pre l2 "cb # post"] halted by (simp add: l2_def)
  have disp: "m_stop_flag a \<Longrightarrow> m_pending_tasks (fold dispatch_event xs a) = m_pending_tasks a \<and>
      m_stop_flag (fold dispatch_event xs a)" for xs and a :: "'a eventloop"
  proof (induction xs arbitrary: a)
    case (Cons x xs)
    have "m_stop_flag (dispatch_event x a)"
      using stopping.R_dispatch Cons.prems by blast
    moreover have "m_pending_tasks (dispatch_event x a) = m_pending_tasks a"
      using Cons.prems by (auto simp: dispatch_event_def deleteEpollEvent_def Let_def split: prod.splits option.splits)
    ultimately show ?case using Cons.IH by simp
  qed simp
  have "loop clock behaviour (WaitEvents evs # waits) l =
      loop_while clock behaviour waits (fold dispatch_event evs l1)"
    using assms(1) run by (simp add: loop_def loop_while.simps [of _ _ "WaitEvents evs # waits"] loop_iteration_def l2_def)
  then show ?thesis
    using disp [OF assms(5), of evs] by (simp add: loop_while.simps [of _ _ waits])
qed

theorem stop_ends_loop_witness:
  "\<exists>l l' :: nat eventloop. loop (\<lambda>_. 0) (\<lambda>c. [CallStop]) [WaitEvents []] l = Some (l'\<lparr>m_is_looping := False\<rparr>) \<and>
     m_pending_tasks l = [Some (User 0), Some (User 1)] \<and> m_pending_tasks l' = []"
proof -
  obtain l :: "nat eventloop" where l: "m_pending_tasks l = [Some (User 0), Some (User 1)]" "\<not> m_stop_flag l"
    by (rule that [of "\<lparr>m_stop_flag = False, m_is_looping = True, m_listen_fds = {}, m_pending_tasks = [Some (User 0), Some (User 1)],
          m_timer = newTimer (\<lambda>_. newTimerEvent 0 0 False None), fd_events = \<lambda>_. newFd_Event 0, epoll_calls = [], wakeup_writes = 0\<rparr>"]) simp_all
  have "\<exists>l'. loop (\<lambda>_. 0) (\<lambda>c. [CallStop]) [WaitEvents []] l = Some (l'\<lparr>m_is_looping := False\<rparr>) \<and> m_pending_tasks l' = []"
    using stop_ends_loop [of l "[]" "Some (User 0)" "[Some (User 1)]" "\<lambda>_. 0" "\<lambda>c. [CallStop]" _ "[]" "[]", OF l(2) _ _ refl] l
    by (auto simp: run_user_def)
  with l(1) show ?thesis by blast
qed

text \<open>
  Registration from another thread: \<open>addEpollEvent\<close> called on another thread queues the
  registration behind everything already queued and wakes the loop, and unless the loop is
  stopped the next iteration has registered the descriptor by the time it waits.
\<close>

theorem foreign_registration_takes_effect:
  assumes "\<not> m_stop_flag l"
    and "l' = loop_iteration clock behaviour (WaitEvents []) (addEpollEvent False (Some p) l)" and "\<not> m_stop_flag l'"
  shows "wakeup_writes (addEpollEvent False (Some p) l) = Suc (wakeup_writes l) \<and>
         fe_fd (fd_events l' p) \<in> m_listen_fds l'"
proof -
  define l1 where "l1 = addEpollEvent False (Some p) l"
  have q: "m_pending_tasks l1 = m_pending_tasks l @ [Some (AddToEpoll p)]"
    using assms(1) by (simp add: l1_def addEpollEvent_def)
  have "\<not> m_stop_flag (run_tasks clock behaviour (m_pending_tasks l1) (l1\<lparr>m_pending_tasks := []\<rparr>))"
    using assms(2,3) by (simp add: l1_def loop_iteration_def)
  from run_tasks_all [OF this] have "l' = ADD_TO_EPOLL p
      (fold (run_closure clock behaviour) (m_pending_tasks l) (l1\<lparr>m_pending_tasks := []\<rparr>))"
    by (simp add: assms(2) l1_def [symmetric] loop_iteration_def q)
  then show ?thesis
    using assms(1) by (simp add: ADD_TO_EPOLL_def Let_def addEpollEvent_def addTask_def wakeup_def)
qed

theorem foreign_registration_takes_effect_witness:
  "\<exists>l :: nat eventloop. 7 \<in> m_listen_fds (loop_iteration (\<lambda>_. 0) (\<lambda>c. []) (WaitEvents []) (addEpollEvent False (Some 2) l))"
proof -
  define l :: "nat eventloop" where "l = \<lparr>m_stop_flag = False, m_is_looping = True, m_listen_fds = {}, m_pending_tasks = [],
     m_timer = newTimer (\<lambda>_. newTimerEvent 0 0 False None), fd_events = \<lambda>_. newFd_Event 7, epoll_calls = [], wakeup_writes = 0\<rparr>"
  define l' where "l' = loop_iteration (\<lambda>_. 0) (\<lambda>c. []) (WaitEvents []) (addEpollEvent False (Some 2) l)"
  have s: "\<not> m_stop_flag l" "\<not> m_stop_flag l'" "fe_fd (fd_events l' 2) = 7"
    by (simp_all add: l_def l'_def loop_iteration_def addEpollEvent_def ADD_TO_EPOLL_def addTask_def wakeup_def Let_def)
  then show ?thesis
    using foreign_registration_takes_effect [OF s(1) l'_def s(2)] unfolding l'_def by metis
qed

end
