(* ===== verification/ServedLoop.thy ===== *)
theory ServedLoop
  imports RpcDispatcher EventLoop
begin

text \<open>
  The event loop of an IO thread together with the connections it serves. The closures that
  \<open>listenRead\<close> and \<open>listenWrite\<close> install (\<open>net/tcp/tcp_connection.cc\<close>) are closures of the loop
  (\<open>net/eventloop.cc\<close>), and what a connection asks of its loop is carried out on that loop. A
  connection object has an address; its descriptor event is the entry of the event group for its
  descriptor. Arrivals and the results of \<open>write\<close> and \<open>epoll_wait\<close> are inputs. A weak reference
  yields the connection as long as the server keeps it.
\<close>

section \<open>State and operations\<close>

record 'd served =
  sv_loop :: "(nat \<times> conn_callback) eventloop"
  sv_conn :: "nat \<rightharpoonup> 'd tcp_connection"
  sv_arrivals :: "nat \<Rightarrow> sys_read list"

text \<open>The event of a connection as the loop sees it: its callbacks name the connection.\<close>

definition map_event :: "('a \<Rightarrow> 'b) \<Rightarrow> 'a fd_event \<Rightarrow> 'b fd_event" where
  "map_event f ev = \<lparr>fe_fd = fe_fd ev, m_listen_event = m_listen_event ev, m_read_callback = map_option f (m_read_callback ev),
     m_write_callback = map_option f (m_write_callback ev), m_error_callback = map_option f (m_error_callback ev)\<rparr>"

definition lift_event :: "nat \<Rightarrow> conn_callback fd_event \<Rightarrow> (nat \<times> conn_callback) closure fd_event" where
  "lift_event k = map_event (\<lambda>cb. User (k, cb))"

definition event_addr :: "'d tcp_connection \<Rightarrow> nat" where
  "event_addr c = nat (fe_fd (m_fd_event c))"

text \<open>What one effect of a connection does to its loop; the mask is the one at the time of the call.\<close>

fun apply_effect :: "bool \<Rightarrow> nat \<Rightarrow> 'd effect \<Rightarrow> 'e eventloop \<Rightarrow> 'e eventloop" where
  "apply_effect inloop a (AddEpollEvent events) l =
     addEpollEvent inloop (Some a) (l\<lparr>fd_events := (fd_events l)(a := (fd_events l a)\<lparr>m_listen_event := events\<rparr>)\<rparr>)"
| "apply_effect inloop a DeleteEpollEvent l = deleteEpollEvent inloop a l"
| "apply_effect inloop a _ l = l"

definition carry_out :: "bool \<Rightarrow> nat \<Rightarrow> 'd tcp_connection \<Rightarrow> 'd tcp_connection \<Rightarrow> 'd served \<Rightarrow> 'd served" where
  "carry_out inloop k c c' s =
     (let a = event_addr c;
          l = fold (apply_effect inloop a) (drop (length (effects c)) (effects c')) (sv_loop s)
      in s\<lparr>sv_conn := (sv_conn s)(k \<mapsto> c'),
           sv_loop := l\<lparr>fd_events := (fd_events l)(a := lift_event k (m_fd_event c'))\<rparr>\<rparr>)"

text \<open>
  The closures of \<open>listenRead\<close> and \<open>listenWrite\<close>, run by the loop. Each of them returns at once
  when the connection is gone or closed.
\<close>

definition is_closed :: "'d tcp_connection \<Rightarrow> bool" where
  "is_closed c \<longleftrightarrow> m_state c = Closed \<and> tc_fd c < 0"

definition run_connection ::
  "(tinypb \<Rightarrow> tinypb \<Rightarrow> 'd tcp_connection \<Rightarrow> 'd tcp_connection cpp) \<Rightarrow> sys_write list \<Rightarrow> nat \<Rightarrow> conn_callback \<Rightarrow>
     'd served \<Rightarrow> 'd served cpp" where
  "run_connection disp writes k cb s =
     (case sv_conn s k of
        None \<Rightarrow> Inr s
      | Some c \<Rightarrow>
          if is_closed c then Inr s
          else
            case cb of
              CallOnRead \<Rightarrow>
                map_cpp (\<lambda>(c', rest). carry_out True k c c' (s\<lparr>sv_arrivals := (sv_arrivals s)(k := rest)\<rparr>))
                  (onRead disp (sv_arrivals s k) c)
            | CallOnWrite \<Rightarrow> map_cpp (\<lambda>c'. carry_out True k c c' s) (onWrite writes c)
            | CallClear \<Rightarrow> Inr (carry_out True k c (clear c) s)
            | CallConnect \<Rightarrow> Inr s)"

text \<open>Other closures act on the loop alone; the timer of an IO thread has no callbacks of connections.\<close>

definition run_served_closure ::
  "(tinypb \<Rightarrow> tinypb \<Rightarrow> 'd tcp_connection \<Rightarrow> 'd tcp_connection cpp) \<Rightarrow> (nat \<Rightarrow> int) \<Rightarrow> (nat \<Rightarrow> sys_write list) \<Rightarrow>
     (nat \<times> conn_callback) closure option \<Rightarrow> 'd served \<Rightarrow> 'd served cpp" where
  "run_served_closure disp clock wr cb s =
     (case cb of
        Some (User (k, ccb)) \<Rightarrow> run_connection disp (wr k) k ccb s
      | _ \<Rightarrow> Inr (s\<lparr>sv_loop := run_closure clock (\<lambda>_. []) cb (sv_loop s)\<rparr>))"

fun run_served_tasks ::
  "(tinypb \<Rightarrow> tinypb \<Rightarrow> 'd tcp_connection \<Rightarrow> 'd tcp_connection cpp) \<Rightarrow> (nat \<Rightarrow> int) \<Rightarrow> (nat \<Rightarrow> sys_write list) \<Rightarrow>
     (nat \<times> conn_callback) closure option list \<Rightarrow> 'd served \<Rightarrow> 'd served cpp" where
  "run_served_tasks disp clock wr [] s = Inr s"
| "run_served_tasks disp clock wr (cb # tmp_tasks) s =
     (if m_stop_flag (sv_loop s) then Inr s
      else bind_cpp (run_served_closure disp clock wr cb s) (run_served_tasks disp clock wr tmp_tasks))"

fun dispatch_events :: "wait_result \<Rightarrow> 'd served \<Rightarrow> 'd served" where
  "dispatch_events WaitError s = s"
| "dispatch_events (WaitEvents evs) s = s\<lparr>sv_loop := fold dispatch_event evs (sv_loop s)\<rparr>"

definition take_tasks :: "'d served \<Rightarrow> 'd served" where
  "take_tasks s = s\<lparr>sv_loop := (sv_loop s)\<lparr>m_pending_tasks := []\<rparr>\<rparr>"

definition served_iteration ::
  "(tinypb \<Rightarrow> tinypb \<Rightarrow> 'd tcp_connection \<Rightarrow> 'd tcp_connection cpp) \<Rightarrow> (nat \<Rightarrow> int) \<Rightarrow> (nat \<Rightarrow> sys_write list) \<Rightarrow>
     wait_result \<Rightarrow> 'd served \<Rightarrow> 'd served cpp" where
  "served_iteration disp clock wr wait s =
     map_cpp (dispatch_events wait) (run_served_tasks disp clock wr (m_pending_tasks (sv_loop s)) (take_tasks s))"

text \<open>
  The end of \<open>TcpServer::onAccept\<close>, on the main thread: a new connection object at the address \<open>k\<close>
  is created, connected and registered for reading with the loop of the IO thread.
\<close>

definition serve_new :: "nat \<Rightarrow> int \<Rightarrow> 'd served \<Rightarrow> 'd served cpp" where
  "serve_new k fd s =
     bind_cpp (newTcpConnection (newFd_Event fd) fd 128 TcpConnectionByServer) (\<lambda>c0.
       let c = setState Connected c0 in Inr (carry_out False k c (listenRead c) s))"

section \<open>What the kernel watches\<close>

fun epoll_update :: "epoll_call \<Rightarrow> (int \<rightharpoonup> epoll_mask) \<Rightarrow> (int \<rightharpoonup> epoll_mask)" where
  "epoll_update ec M =
     (if ec_op ec = EPOLL_CTL_DEL then M(ec_fd ec := None) else M(ec_fd ec \<mapsto> ec_events ec))"

definition kernel_mask :: "'c eventloop \<Rightarrow> int \<rightharpoonup> epoll_mask" where
  "kernel_mask l = fold epoll_update (epoll_calls l) Map.empty"

lemma kernel_mask_ADD [simp]:
  "kernel_mask (ADD_TO_EPOLL p l) = (kernel_mask l)(fe_fd (fd_events l p) \<mapsto> m_listen_event (fd_events l p))"
  by (simp add: kernel_mask_def ADD_TO_EPOLL_def Let_def)

lemma kernel_mask_DELETE:
  "fd \<noteq> fe_fd (fd_events l p) \<Longrightarrow> kernel_mask (DELETE_TO_EPOLL p l) fd = kernel_mask l fd"
  by (simp add: kernel_mask_def DELETE_TO_EPOLL_def Let_def)

lemma kernel_mask_simps [simp]:
  "kernel_mask (l\<lparr>fd_events := evs\<rparr>) = kernel_mask l" "kernel_mask (l\<lparr>m_pending_tasks := ts\<rparr>) = kernel_mask l"
  "kernel_mask (l\<lparr>m_timer := t\<rparr>) = kernel_mask l" "kernel_mask (addTask cb w l) = kernel_mask l"
  "kernel_mask (stop l) = kernel_mask l"
  by (simp_all add: kernel_mask_def)

lemma epoll_events_simps [simp]:
  "fd_events (ADD_TO_EPOLL p l) = fd_events l" "fd_events (DELETE_TO_EPOLL p l) = fd_events l"
  by (simp_all add: ADD_TO_EPOLL_def DELETE_TO_EPOLL_def Let_def)

section \<open>Open connections\<close>

text \<open>
  An open connection of the server: it asks for input, and for output as long as it has some, with
  the callbacks that \<open>listenRead\<close> and \<open>listenWrite\<close> install.
\<close>

definition watching :: "'d tcp_connection \<Rightarrow> bool" where
  "watching c \<longleftrightarrow> serving c \<and> fe_fd (m_fd_event c) = tc_fd c \<and>
     m_listen_event (m_fd_event c) AND EPOLLIN \<noteq> 0 \<and>
     handler IN_EVENT (m_fd_event c) = Some CallOnRead \<and> handler ERROR_EVENT (m_fd_event c) = Some CallClear \<and>
     (readAble (m_out_buffer c) \<noteq> 0 \<longrightarrow>
        m_listen_event (m_fd_event c) AND EPOLLOUT \<noteq> 0 \<and> handler OUT_EVENT (m_fd_event c) = Some CallOnWrite)"

text \<open>
  A step of a connection that stays open: every change of its mask is passed on to the loop.
\<close>

fun mask_after :: "'d effect \<Rightarrow> epoll_mask \<Rightarrow> epoll_mask" where
  "mask_after (AddEpollEvent events) m = events"
| "mask_after _ m = m"

definition keeps_watching :: "'d tcp_connection \<Rightarrow> 'd tcp_connection \<Rightarrow> bool" where
  "keeps_watching c c' \<longleftrightarrow> watching c' \<and> tc_fd c' = tc_fd c \<and>
     (\<exists>new. effects c' = effects c @ new \<and> DeleteEpollEvent \<notin> set new \<and>
        m_listen_event (m_fd_event c') = fold mask_after new (m_listen_event (m_fd_event c)))"

lemma keeps_watching_refl: "watching c \<Longrightarrow> keeps_watching c c"
  by (auto simp: keeps_watching_def)

lemma keeps_watching_trans: "keeps_watching c c1 \<Longrightarrow> keeps_watching c1 c2 \<Longrightarrow> keeps_watching c c2"
  by (force simp: keeps_watching_def)

lemma watching_in_buffer [simp]: "watching (c\<lparr>m_in_buffer := b\<rparr>) = watching c"
  by (simp add: watching_def serving_def)

lemma keeps_watching_in_buffer: "watching c \<Longrightarrow> keeps_watching c (c\<lparr>m_in_buffer := b\<rparr>)"
  by (auto simp: keeps_watching_def)

lemma mask_bits:
  "(m OR interest OUT_EVENT) AND EPOLLIN = m AND EPOLLIN" "(m OR interest OUT_EVENT) AND EPOLLOUT = EPOLLOUT"
  "(m AND NOT (interest OUT_EVENT)) AND EPOLLIN = m AND EPOLLIN" "EPOLLOUT \<noteq> 0"
proof -
  have d: "EPOLLOUT AND EPOLLIN = 0" by (simp add: EPOLLIN_def EPOLLOUT_def)
  show "(m OR interest OUT_EVENT) AND EPOLLIN = m AND EPOLLIN" "(m AND NOT (interest OUT_EVENT)) AND EPOLLIN = m AND EPOLLIN"
    using d by (auto simp: interest_def bit_eq_iff bit_simps)
  show "(m OR interest OUT_EVENT) AND EPOLLOUT = EPOLLOUT"
    by (simp add: interest_def bit_eq_iff bit_simps)
  show "EPOLLOUT \<noteq> 0" by (simp add: EPOLLOUT_def)
qed

lemma reply_keeps_watching:
  assumes "watching c" and "reply ms c = Inr (ms', c')"
  shows "keeps_watching c c'"
  using assms
  by (auto simp: reply_def bind_cpp_eq_Inr keeps_watching_def watching_def serving_def listenWrite_def addEpoll_def emit_def
      handler_listen mask_bits simp del: handler.simps)

lemma run_closure_reply_keeps_watching:
  assumes "watching (snd s)" and "run_closure_reply ser r s = Inr s'"
  shows "keeps_watching (snd s) (snd s')"
proof -
  obtain p c where s: "s = (p, c)" by (cases s)
  obtain m ms c' where c': "reply [TinyPB m] c = Inr (ms, c')" "s' = (case ms of [TinyPB m'] \<Rightarrow> (m', c') | _ \<Rightarrow> (m, c'))"
    using assms(2) by (auto simp: run_closure_reply_def s Let_def bind_cpp_eq_Inr split: prod.splits)
  have "snd s' = c'"
    unfolding c'(2) by (simp split: list.splits protocol.splits)
  with reply_keeps_watching [OF _ c'(1)] assms(1) show ?thesis by (simp add: s)
qed

lemma closures_keep_watching:
  "watching (snd s) \<Longrightarrow> fold_cpp (run_closure_reply ser) rs s = Inr s' \<Longrightarrow> keeps_watching (snd s) (snd s')"
proof (induction rs arbitrary: s)
  case (Cons r rs)
  obtain s1 where s1: "run_closure_reply ser r s = Inr s1" "fold_cpp (run_closure_reply ser) rs s1 = Inr s'"
    using Cons.prems(2) by (auto simp: bind_cpp_eq_Inr)
  have "keeps_watching (snd s) (snd s1)"
    using run_closure_reply_keeps_watching [OF Cons.prems(1) s1(1)] .
  moreover from this have "keeps_watching (snd s1) (snd s')"
    using Cons.IH [OF _ s1(2)] by (simp add: keeps_watching_def)
  ultimately show ?case by (rule keeps_watching_trans)
qed (simp add: keeps_watching_refl)

lemma watching_emit [simp]: "watching (emit es c) = watching c"
  by (simp add: watching_def serving_def emit_def)

lemma dispatch_keeps_watching:
  assumes "watching c" and "dispatch services req rsp c = Inr (m, c')"
  shows "keeps_watching c c'"
proof -
  have e: "keeps_watching c (emit [SetRunTime i n, MethodCalled sn n] c)" for i n sn
    using assms(1) by (auto simp: keeps_watching_def watching_def serving_def emit_def)
  have "keeps_watching c c'" if "fold_cpp (run_closure_reply ser) rs (p, emit [SetRunTime i n, MethodCalled sn n] c) = Inr (m, c')"
    for ser rs p i n sn
    using keeps_watching_trans [OF e] closures_keep_watching [OF _ that] assms(1) by simp
  with assms show ?thesis
    by (auto simp: dispatch_def Let_def keeps_watching_refl split: option.splits)
qed

text \<open>A handler of requests that leaves an open connection watched, which every dispatcher is.\<close>

locale loop_handler = request_handler disp
  for disp :: "tinypb \<Rightarrow> tinypb \<Rightarrow> 'd tcp_connection \<Rightarrow> 'd tcp_connection cpp" +
  assumes handler_watching: "watching c \<Longrightarrow> disp req rsp c = Inr c' \<Longrightarrow> keeps_watching c c'"

interpretation rpc_loop: loop_handler "dispatch_request services" for services :: "('m, 'q, 'r) dispatcher"
  by unfold_locales (auto simp: dispatch_request_def bind_cpp_eq_Inr dest: dispatch_keeps_watching)

text \<open>Closing: the descriptor is unregistered and its event is as new.\<close>

definition closes :: "'d tcp_connection \<Rightarrow> 'd tcp_connection \<Rightarrow> bool" where
  "closes c c' \<longleftrightarrow> is_closed c' \<and> m_fd_event c' = newFd_Event (tc_fd c) \<and>
     (\<exists>new. effects c' = effects c @ DeleteEpollEvent # new \<and> DeleteEpollEvent \<notin> set new \<and>
        (\<forall>m. AddEpollEvent m \<notin> set new))"

lemma clear_closes: "watching c \<Longrightarrow> closes c (clear c)"
  by (auto simp: closes_def is_closed_def clear_def watching_def serving_def emit_def newFd_Event_def fe_reset_def Let_def
      split: option.splits)

lemma write_loop_drained: "write_loop writes b = Inr (WroteAll, b', out) \<Longrightarrow> readAble b' = 0"
proof (induction writes arbitrary: b out)
  case Nil
  then show ?case by (simp add: write_loop.simps [of "[]"] split: if_splits)
next
  case (Cons w ws)
  show ?case
  proof (cases w)
    case (WriteErrno e)
    with Cons show ?thesis
      by (auto simp: write_loop.simps [of "WriteErrno e # ws"] split: if_splits)
  next
    case (WriteAccepts n)
    with Cons show ?thesis
      by (auto simp: write_loop.simps [of "WriteAccepts n # ws"] bind_cpp_eq_Inr Let_def split: if_splits)
  qed
qed

lemma write_loop_idle: "write_loop writes b = Inr (e, b', out) \<Longrightarrow> e \<noteq> WroteAll \<Longrightarrow> readAble b \<noteq> 0"
  by (auto simp: write_loop.simps [of writes b])

lemma cancle_callbacks [simp]:
  "m_read_callback (cancle e ev) = m_read_callback ev" "m_error_callback (cancle e ev) = m_error_callback ev"
  by (cases e; simp)+

lemma onWrite_keeps_watching:
  assumes "watching c" and "onWrite writes c = Inr c'"
  shows "keeps_watching c c' \<or> closes c c'"
proof -
  have srv: "m_state c = Connected" "0 \<le> tc_fd c" "m_connection_type c = TcpConnectionByServer"
    using assms(1) by (simp_all add: watching_def serving_def)
  obtain ending b out where w: "write_loop writes (m_out_buffer c) = Inr (ending, b, out)"
    using assms(2) srv by (auto simp: onWrite_def bind_cpp_eq_Inr)
  define c1 where "c1 = c\<lparr>m_out_buffer := b, sent := sent c @ out\<rparr>"
  have c': "c' = (if ending = WroteAll then addEpoll (c1\<lparr>m_fd_event := cancle OUT_EVENT (m_fd_event c1)\<rparr>)
                  else if ending = WriteFailed then clear c1 else c1)"
    using assms(2) srv w by (cases ending) (auto simp: onWrite_def Let_def c1_def zip_map_fst_snd addEpoll_def emit_def clear_def split: option.splits)
  show ?thesis
  proof (cases ending)
    case WroteAll
    then have "readAble b = 0" using write_loop_drained w by blast
    then have "keeps_watching c c'"
      using assms(1) WroteAll unfolding c'
      by (auto simp: c1_def keeps_watching_def watching_def serving_def addEpoll_def emit_def mask_bits
          simp del: cancle.simps)
    then show ?thesis ..
  next
    case WriteAgain
    then have "watching c1"
      using assms(1) write_loop_idle [OF w] by (auto simp: c1_def watching_def serving_def)
    then show ?thesis
      using WriteAgain unfolding c' by (auto simp: c1_def keeps_watching_def)
  next
    case WriteFailed
    have "closes c1 (clear c1) \<longrightarrow> closes c (clear c1)"
      by (auto simp: closes_def c1_def)
    moreover have "watching c1"
      using assms(1) write_loop_idle [OF w] WriteFailed by (auto simp: c1_def watching_def serving_def)
    ultimately show ?thesis
      using WriteFailed clear_closes unfolding c' by auto
  qed
qed

context loop_handler
begin

lemma requests_keep_watching:
  "watching c \<Longrightarrow> fold_cpp (\<lambda>req. disp req newTinyPB) reqs c = Inr c' \<Longrightarrow> keeps_watching c c'"
proof (induction reqs arbitrary: c)
  case (Cons req reqs)
  obtain c1 where c1: "disp req newTinyPB c = Inr c1" "fold_cpp (\<lambda>req. disp req newTinyPB) reqs c1 = Inr c'"
    using Cons.prems(2) by (auto simp: bind_cpp_eq_Inr)
  have k: "keeps_watching c c1" using handler_watching [OF Cons.prems(1) c1(1)] .
  then show ?case using Cons.IH [OF _ c1(2)] by (auto simp: keeps_watching_def intro: keeps_watching_trans [OF k])
qed (simp add: keeps_watching_refl)

lemma onRead_keeps_watching:
  assumes "watching c" and "onRead disp reads c = Inr (c', rest)"
  shows "keeps_watching c c' \<or> closes c c'"
proof -
  have srv: "m_state c = Connected" "0 \<le> tc_fd c" "m_connection_type c = TcpConnectionByServer"
    using assms(1) by (simp_all add: watching_def serving_def)
  obtain is_close b where rd: "read_loop reads (m_in_buffer c) = Inr (is_close, b, rest)"
    using assms(2) srv by (auto simp: onRead_def bind_cpp_eq_Inr Let_def split: if_splits)
  have w: "watching (c\<lparr>m_in_buffer := b\<rparr>)" for b using assms(1) by simp
  show ?thesis
  proof (cases is_close)
    case True
    then show ?thesis
      using assms(2) srv rd clear_closes [OF w] by (auto simp: onRead_def closes_def)
  next
    case False
    then obtain ms b2 where "fold_cpp (\<lambda>req. disp req newTinyPB) ms (c\<lparr>m_in_buffer := b2\<rparr>) = Inr c'"
      using assms(2) srv rd by (auto simp: onRead_def excute_def bind_cpp_eq_Inr)
    then show ?thesis
      using requests_keep_watching [OF w] keeps_watching_in_buffer [OF assms(1)] keeps_watching_trans by blast
  qed
qed

end

section \<open>The invariant\<close>

definition is_open :: "'d served \<Rightarrow> nat \<Rightarrow> 'd tcp_connection \<Rightarrow> bool" where
  "is_open s k c \<longleftrightarrow> sv_conn s k = Some c \<and> \<not> is_closed c"

lemma is_open_unique: "is_open s k c \<Longrightarrow> is_open s k x \<Longrightarrow> x = c"
  by (simp add: is_open_def)

text \<open>The kernel watches for exactly what the connection asks for, or a queued task will see to it.\<close>

definition registered ::
  "(nat \<times> conn_callback) closure option list \<Rightarrow> (nat \<times> conn_callback) eventloop \<Rightarrow> nat \<Rightarrow> 'd tcp_connection \<Rightarrow> bool" where
  "registered ts l k c \<longleftrightarrow> kernel_mask l (tc_fd c) = Some (m_listen_event (m_fd_event c)) \<or>
     Some (AddToEpoll (event_addr c)) \<in> set ts \<or> Some (User (k, CallClear)) \<in> set ts"

definition conn_ok ::
  "(nat \<times> conn_callback) closure option list \<Rightarrow> (nat \<times> conn_callback) eventloop \<Rightarrow> nat \<Rightarrow> 'd tcp_connection \<Rightarrow> bool" where
  "conn_ok ts l k c \<longleftrightarrow> watching c \<and> fd_events l (event_addr c) = lift_event k (m_fd_event c) \<and> registered ts l k c"

text \<open>
  \<open>own\<close> are the addresses of the loop's own events; the event of any other descriptor that no open
  connection has is as new, so the next connection that gets the descriptor starts with a clean one.
\<close>

definition events_ok :: "nat set \<Rightarrow> 'd served \<Rightarrow> bool" where
  "events_ok own s \<longleftrightarrow>
     (\<forall>p. fe_fd (fd_events (sv_loop s) p) = int p) \<and>
     (\<forall>p e q. handler e (fd_events (sv_loop s) p) \<noteq> Some (DeleteToEpoll q)) \<and>
     (\<forall>p. p \<notin> own \<longrightarrow> (\<forall>k c. is_open s k c \<longrightarrow> event_addr c \<noteq> p) \<longrightarrow> fd_events (sv_loop s) p = newFd_Event (int p))"

definition served_ok :: "nat set \<Rightarrow> (nat \<times> conn_callback) closure option list \<Rightarrow> 'd served \<Rightarrow> bool" where
  "served_ok own ts s \<longleftrightarrow> events_ok own s \<and> (\<forall>q. Some (DeleteToEpoll q) \<notin> set ts) \<and>
     (\<forall>k c. is_open s k c \<longrightarrow> conn_ok ts (sv_loop s) k c \<and> event_addr c \<notin> own) \<and>
     (\<forall>k c k' c'. is_open s k c \<longrightarrow> is_open s k' c' \<longrightarrow> tc_fd c = tc_fd c' \<longrightarrow> k = k')"

lemma served_okD:
  assumes "served_ok own ts s"
  shows "fe_fd (fd_events (sv_loop s) p) = int p" "handler e (fd_events (sv_loop s) p) \<noteq> Some (DeleteToEpoll q)"
    "Some (DeleteToEpoll q) \<notin> set ts"
    "is_open s k c \<Longrightarrow> watching c" "is_open s k c \<Longrightarrow> fd_events (sv_loop s) (event_addr c) = lift_event k (m_fd_event c)"
    "is_open s k c \<Longrightarrow> registered ts (sv_loop s) k c" "is_open s k c \<Longrightarrow> event_addr c \<notin> own"
    "is_open s k c \<Longrightarrow> is_open s k' c' \<Longrightarrow> tc_fd c = tc_fd c' \<Longrightarrow> k = k'"
    "p \<notin> own \<Longrightarrow> (\<And>k c. is_open s k c \<Longrightarrow> event_addr c \<noteq> p) \<Longrightarrow> fd_events (sv_loop s) p = newFd_Event (int p)"
  using assms unfolding served_ok_def events_ok_def conn_ok_def by blast+

lemma served_okI:
  assumes "\<And>p. fe_fd (fd_events (sv_loop s) p) = int p" and "\<And>p e q. handler e (fd_events (sv_loop s) p) \<noteq> Some (DeleteToEpoll q)"
    and "\<And>q. Some (DeleteToEpoll q) \<notin> set ts"
    and "\<And>k c. is_open s k c \<Longrightarrow> conn_ok ts (sv_loop s) k c \<and> event_addr c \<notin> own"
    and "\<And>k c k' c'. is_open s k c \<Longrightarrow> is_open s k' c' \<Longrightarrow> tc_fd c = tc_fd c' \<Longrightarrow> k = k'"
    and "\<And>p. p \<notin> own \<Longrightarrow> (\<And>k c. is_open s k c \<Longrightarrow> event_addr c \<noteq> p) \<Longrightarrow> fd_events (sv_loop s) p = newFd_Event (int p)"
  shows "served_ok own ts s"
  using assms unfolding served_ok_def events_ok_def by meson

lemma watching_addr: "watching c \<Longrightarrow> fe_fd (m_fd_event c) = tc_fd c \<and> int (event_addr c) = tc_fd c"
  by (simp add: watching_def serving_def event_addr_def)

lemma is_open_addr:
  assumes "served_ok own ts s" and "is_open s k c"
  shows "int (event_addr c) = tc_fd c"
  using watching_addr served_okD(4) [OF assms] by blast

text \<open>Tasks may be added, and a task may go once it has done its work for the connection it was for.\<close>

lemma served_ok_drop:
  assumes "served_ok own (cb # ts) s"
    and "\<And>k c. is_open s k c \<Longrightarrow> cb = Some (AddToEpoll (event_addr c)) \<or> cb = Some (User (k, CallClear)) \<Longrightarrow>
           kernel_mask (sv_loop s) (tc_fd c) = Some (m_listen_event (m_fd_event c))"
  shows "served_ok own ts s"
proof -
  have "registered ts (sv_loop s) k c" if "is_open s k c" for k c
    using served_okD(6) [OF assms(1) that] assms(2) [OF that] by (auto simp: registered_def)
  then show ?thesis
    using assms(1) by (auto simp: served_ok_def conn_ok_def)
qed

lemma served_ok_weaken:
  assumes "served_ok own ts s" and "set ts \<subseteq> set ts'" and "\<And>q. Some (DeleteToEpoll q) \<notin> set ts'"
  shows "served_ok own ts' s"
proof -
  have "conn_ok ts' (sv_loop s) k c" if "is_open s k c" for k c
    using served_okD(4-6) [OF assms(1) that] assms(2) by (auto simp: conn_ok_def registered_def)
  then show ?thesis
    using assms(1,3) by (simp add: served_ok_def)
qed

text \<open>
  The loop left the events alone, and what the kernel watches for an open connection is either as
  before or what the connection asks for, or the connection is about to be closed.
\<close>

lemma served_ok_loop:
  assumes "served_ok own ts s" and "fd_events l = fd_events (sv_loop s)"
    and "\<And>k c. is_open s k c \<Longrightarrow> kernel_mask l (tc_fd c) = kernel_mask (sv_loop s) (tc_fd c) \<or>
           kernel_mask l (tc_fd c) = Some (m_listen_event (m_fd_event c)) \<or> Some (User (k, CallClear)) \<in> set ts"
  shows "served_ok own ts (s\<lparr>sv_loop := l\<rparr>)"
proof -
  have is_open: "is_open (s\<lparr>sv_loop := l\<rparr>) = is_open s" by (simp add: is_open_def fun_eq_iff)
  have "conn_ok ts l k c" if "is_open s k c" for k c
    using served_okD(4-6) [OF assms(1) that] assms(2) assms(3) [OF that] by (auto simp: conn_ok_def registered_def)
  then show ?thesis
    using assms(1,2) by (simp add: served_ok_def events_ok_def is_open)
qed

section \<open>Effects of a connection on its loop\<close>

lemma apply_effect_in_loop:
  assumes "\<not> m_stop_flag l" and "fe_fd (fd_events l a) = fd" and "l' = fold (apply_effect True a) es l"
  shows "\<not> m_stop_flag l'" "m_pending_tasks l' = m_pending_tasks l" "p \<noteq> a \<Longrightarrow> fd_events l' p = fd_events l p"
    "x \<noteq> fd \<Longrightarrow> kernel_mask l' x = kernel_mask l x"
    "DeleteEpollEvent \<notin> set es \<Longrightarrow> kernel_mask l fd = Some m \<Longrightarrow> kernel_mask l' fd = Some (fold mask_after es m)"
proof -
  have "\<not> m_stop_flag l' \<and> m_pending_tasks l' = m_pending_tasks l \<and> (\<forall>p. p \<noteq> a \<longrightarrow> fd_events l' p = fd_events l p) \<and>
      (\<forall>x. x \<noteq> fd \<longrightarrow> kernel_mask l' x = kernel_mask l x) \<and>
      (DeleteEpollEvent \<notin> set es \<longrightarrow> kernel_mask l fd = Some m \<longrightarrow> kernel_mask l' fd = Some (fold mask_after es m))"
    using assms
  proof (induction es arbitrary: l m)
    case (Cons e es)
    define l1 where "l1 = apply_effect True a e l"
    have "\<not> m_stop_flag l1 \<and> fe_fd (fd_events l1 a) = fd \<and> m_pending_tasks l1 = m_pending_tasks l \<and>
        (\<forall>p. p \<noteq> a \<longrightarrow> fd_events l1 p = fd_events l p) \<and> (\<forall>x. x \<noteq> fd \<longrightarrow> kernel_mask l1 x = kernel_mask l x) \<and>
        (e \<noteq> DeleteEpollEvent \<longrightarrow> kernel_mask l fd = Some m \<longrightarrow> kernel_mask l1 fd = Some (mask_after e m))"
      using Cons.prems(1,2) by (cases e) (auto simp: l1_def addEpollEvent_def deleteEpollEvent_def kernel_mask_DELETE)
    with Cons.IH [of l1 "mask_after e m"] Cons.prems(3) show ?case
      by (auto simp: l1_def)
  qed simp
  then show "\<not> m_stop_flag l'" "m_pending_tasks l' = m_pending_tasks l" "p \<noteq> a \<Longrightarrow> fd_events l' p = fd_events l p"
    "x \<noteq> fd \<Longrightarrow> kernel_mask l' x = kernel_mask l x"
    "DeleteEpollEvent \<notin> set es \<Longrightarrow> kernel_mask l fd = Some m \<Longrightarrow> kernel_mask l' fd = Some (fold mask_after es m)"
    by auto
qed

lemma map_event_simps [simp]:
  "fe_fd (map_event f ev) = fe_fd ev" "m_listen_event (map_event f ev) = m_listen_event ev"
  "handler e (map_event f ev) = map_option f (handler e ev)" "map_event f (newFd_Event fd) = newFd_Event fd"
  by (simp_all add: map_event_def newFd_Event_def fe_reset_def) (cases e; simp)

lemma lift_event_simps [simp]:
  "fe_fd (lift_event k ev) = fe_fd ev" "m_listen_event (lift_event k ev) = m_listen_event ev"
  "handler e (lift_event k ev) = map_option (\<lambda>cb. User (k, cb)) (handler e ev)"
  "lift_event k (newFd_Event fd) = newFd_Event fd"
  by (simp_all add: lift_event_def)

lemma newFd_Event_handler [simp]: "handler e (newFd_Event fd) = None"
  by (cases e) (simp_all add: newFd_Event_def fe_reset_def)

lemma carry_out_loop:
  assumes "served_ok own ts s" and "\<not> m_stop_flag (sv_loop s)" and "is_open s k c" and "effects c' = effects c @ new"
  shows "\<not> m_stop_flag (sv_loop (carry_out True k c c' s))"
    "m_pending_tasks (sv_loop (carry_out True k c c' s)) = m_pending_tasks (sv_loop s)"
    "fd_events (sv_loop (carry_out True k c c' s)) = (fd_events (sv_loop s))(event_addr c := lift_event k (m_fd_event c'))"
    "x \<noteq> tc_fd c \<Longrightarrow> kernel_mask (sv_loop (carry_out True k c c' s)) x = kernel_mask (sv_loop s) x"
    "DeleteEpollEvent \<notin> set new \<Longrightarrow> kernel_mask (sv_loop s) (tc_fd c) = Some m \<Longrightarrow>
       kernel_mask (sv_loop (carry_out True k c c' s)) (tc_fd c) = Some (fold mask_after new m)"
    "is_open (carry_out True k c c' s) k' x' \<longleftrightarrow> (if k' = k then x' = c' \<and> \<not> is_closed c' else is_open s k' x')"
proof -
  have fd: "fe_fd (fd_events (sv_loop s) (event_addr c)) = tc_fd c"
    using served_okD(1) [OF assms(1)] is_open_addr [OF assms(1,3)] by simp
  note eff = apply_effect_in_loop [OF assms(2) fd refl]
  show "\<not> m_stop_flag (sv_loop (carry_out True k c c' s))"
    "m_pending_tasks (sv_loop (carry_out True k c c' s)) = m_pending_tasks (sv_loop s)"
    "fd_events (sv_loop (carry_out True k c c' s)) = (fd_events (sv_loop s))(event_addr c := lift_event k (m_fd_event c'))"
    "x \<noteq> tc_fd c \<Longrightarrow> kernel_mask (sv_loop (carry_out True k c c' s)) x = kernel_mask (sv_loop s) x"
    using eff(1-4) by (auto simp: carry_out_def Let_def assms(4) fun_eq_iff)
  show "kernel_mask (sv_loop (carry_out True k c c' s)) (tc_fd c) = Some (fold mask_after new m)"
    if "DeleteEpollEvent \<notin> set new" "kernel_mask (sv_loop s) (tc_fd c) = Some m"
    using eff(5) [OF that] by (simp add: carry_out_def Let_def assms(4))
  show "is_open (carry_out True k c c' s) k' x' \<longleftrightarrow> (if k' = k then x' = c' \<and> \<not> is_closed c' else is_open s k' x')"
    by (auto simp: carry_out_def is_open_def Let_def)
qed

text \<open>The other connections do not notice.\<close>

lemma carry_out_others:
  assumes "served_ok own ts s" and "\<not> m_stop_flag (sv_loop s)" and "is_open s k c" and "effects c' = effects c @ new"
    and "is_open s k' x" and "k' \<noteq> k"
  shows "conn_ok ts (sv_loop (carry_out True k c c' s)) k' x" "event_addr x \<noteq> event_addr c" "tc_fd x \<noteq> tc_fd c"
proof -
  note c = carry_out_loop [OF assms(1-4)]
  show fd: "tc_fd x \<noteq> tc_fd c"
    using served_okD(8) [OF assms(1,3,5)] assms(6) by auto
  then show "event_addr x \<noteq> event_addr c"
    using is_open_addr [OF assms(1,3)] is_open_addr [OF assms(1,5)] by auto
  then show "conn_ok ts (sv_loop (carry_out True k c c' s)) k' x"
    using served_okD(4-6) [OF assms(1,5)] c(3) c(4) [OF fd] by (auto simp: conn_ok_def registered_def)
qed

lemma carry_out_kept:
  assumes ok: "served_ok own ts s" "\<not> m_stop_flag (sv_loop s)" "is_open s k c" and kept: "keeps_watching c c'"
  shows "served_ok own ts (carry_out True k c c' s)"
proof -
  obtain new where new: "effects c' = effects c @ new" "DeleteEpollEvent \<notin> set new"
      "m_listen_event (m_fd_event c') = fold mask_after new (m_listen_event (m_fd_event c))" "watching c'" "tc_fd c' = tc_fd c"
    using kept by (auto simp: keeps_watching_def)
  note loop = carry_out_loop [OF ok new(1)] and others = carry_out_others [OF ok new(1)]
  have addr: "event_addr c' = event_addr c" "int (event_addr c) = tc_fd c" "fe_fd (m_fd_event c') = tc_fd c"
    using watching_addr [OF new(4)] is_open_addr [OF ok(1,3)] new(5) by auto
  have "registered ts (sv_loop s) k c" by (rule served_okD(6) [OF ok(1,3)])
  then have self: "conn_ok ts (sv_loop (carry_out True k c c' s)) k c'"
    using loop(5) [OF new(2)] loop(3) new(3-5) addr by (auto simp: conn_ok_def registered_def)
  show ?thesis
  proof (rule served_okI)
    show "fe_fd (fd_events (sv_loop (carry_out True k c c' s)) p) = int p" for p
      using served_okD(1) [OF ok(1)] addr by (simp add: loop(3))
    show "handler e (fd_events (sv_loop (carry_out True k c c' s)) p) \<noteq> Some (DeleteToEpoll q)" for p e q
      using served_okD(2) [OF ok(1)] by (auto simp: loop(3))
    show "Some (DeleteToEpoll q) \<notin> set ts" for q by (rule served_okD(3) [OF ok(1)])
    show "conn_ok ts (sv_loop (carry_out True k c c' s)) k' x \<and> event_addr x \<notin> own"
      if "is_open (carry_out True k c c' s) k' x" for k' x
      using that self others(1) served_okD(7) [OF ok(1)] ok(3) addr(1) by (cases "k' = k") (auto simp: loop(6))
    show "k1 = k2" if "is_open (carry_out True k c c' s) k1 x1" "is_open (carry_out True k c c' s) k2 x2" "tc_fd x1 = tc_fd x2" for k1 x1 k2 x2
      using that others(3) [of k1 x1] others(3) [of k2 x2] served_okD(8) [OF ok(1), of k1 x1 k2 x2] new(5)
      by (cases "k1 = k"; cases "k2 = k") (simp_all add: loop(6))
    show "fd_events (sv_loop (carry_out True k c c' s)) p = newFd_Event (int p)"
      if p: "p \<notin> own" "\<And>k' x. is_open (carry_out True k c c' s) k' x \<Longrightarrow> event_addr x \<noteq> p" for p
    proof -
      have nc: "\<not> is_closed c'" using new(4) by (auto simp: watching_def serving_def is_closed_def)
      then have "event_addr c \<noteq> p" using p(2) [of k c'] addr(1) by (simp add: loop(6))
      moreover have "event_addr x \<noteq> p" if "is_open s k' x" for k' x
        using p(2) [of k' x] that \<open>event_addr c \<noteq> p\<close> is_open_unique [OF ok(3)] by (cases "k' = k") (auto simp: loop(6))
      ultimately show ?thesis
        using served_okD(9) [OF ok(1) p(1)] by (simp add: loop(3))
    qed
  qed
qed

lemma carry_out_closed:
  assumes ok: "served_ok own ts s" "\<not> m_stop_flag (sv_loop s)" "is_open s k c" and closed: "closes c c'"
  shows "served_ok own ts (carry_out True k c c' s)"
proof -
  obtain new where new: "effects c' = effects c @ DeleteEpollEvent # new" "is_closed c'" "m_fd_event c' = newFd_Event (tc_fd c)"
    using closed by (auto simp: closes_def)
  note loop = carry_out_loop [OF ok new(1)] and others = carry_out_others [OF ok new(1)]
  have addr: "int (event_addr c) = tc_fd c" by (rule is_open_addr [OF ok(1,3)])
  have ev: "fd_events (sv_loop (carry_out True k c c' s)) = (fd_events (sv_loop s))(event_addr c := newFd_Event (tc_fd c))"
    using loop(3) by (simp add: new(3))
  have is_open': "is_open (carry_out True k c c' s) k' x \<longleftrightarrow> k' \<noteq> k \<and> is_open s k' x" for k' x
    using new(2) by (simp add: loop(6))
  show ?thesis
  proof (rule served_okI)
    show "fe_fd (fd_events (sv_loop (carry_out True k c c' s)) p) = int p" for p
      using served_okD(1) [OF ok(1)] addr by (simp add: ev)
    show "handler e (fd_events (sv_loop (carry_out True k c c' s)) p) \<noteq> Some (DeleteToEpoll q)" for p e q
      using served_okD(2) [OF ok(1)] by (simp add: ev)
    show "Some (DeleteToEpoll q) \<notin> set ts" for q by (rule served_okD(3) [OF ok(1)])
    show "conn_ok ts (sv_loop (carry_out True k c c' s)) k' x \<and> event_addr x \<notin> own"
      if "is_open (carry_out True k c c' s) k' x" for k' x
      using that others(1) served_okD(7) [OF ok(1)] by (auto simp: is_open')
    show "k1 = k2" if "is_open (carry_out True k c c' s) k1 x1" "is_open (carry_out True k c c' s) k2 x2" "tc_fd x1 = tc_fd x2" for k1 x1 k2 x2
      using that served_okD(8) [OF ok(1)] by (auto simp: is_open')
    show "fd_events (sv_loop (carry_out True k c c' s)) p = newFd_Event (int p)"
      if p: "p \<notin> own" "\<And>k' x. is_open (carry_out True k c c' s) k' x \<Longrightarrow> event_addr x \<noteq> p" for p
    proof (cases "p = event_addr c")
      case False
      have "event_addr x \<noteq> p" if "is_open s k' x" for k' x
        using p(2) [of k' x] that False is_open_unique [OF ok(3)] by (cases "k' = k") (auto simp: is_open')
      then show ?thesis
        using served_okD(9) [OF ok(1) p(1)] False by (simp add: ev)
    qed (simp add: ev addr)
  qed
qed

section \<open>Steps\<close>

text \<open>
  The loop thread alternates between running the tasks it has taken and waiting; the main thread
  accepts, the network delivers and any thread may stop the loop at any time. Addresses of
  connection objects are not reused: a destroyed connection is closed, and the callbacks that still
  name it do nothing.
\<close>

datatype phase = Top | RunTasks "(nat \<times> conn_callback) closure option list"

fun taken :: "phase \<Rightarrow> (nat \<times> conn_callback) closure option list" where
  "taken Top = []"
| "taken (RunTasks ts) = ts"

inductive served_step ::
  "(tinypb \<Rightarrow> tinypb \<Rightarrow> 'd tcp_connection \<Rightarrow> 'd tcp_connection cpp) \<Rightarrow> (nat \<Rightarrow> int) \<Rightarrow> nat set \<Rightarrow>
     phase \<times> 'd served \<Rightarrow> phase \<times> 'd served \<Rightarrow> bool"
  for disp :: "tinypb \<Rightarrow> tinypb \<Rightarrow> 'd tcp_connection \<Rightarrow> 'd tcp_connection cpp" and clock :: "nat \<Rightarrow> int" and own :: "nat set" where
  take_batch: "\<not> m_stop_flag (sv_loop s) \<Longrightarrow>
    served_step disp clock own (Top, s) (RunTasks (m_pending_tasks (sv_loop s)), take_tasks s)"
| run_task: "\<not> m_stop_flag (sv_loop s) \<Longrightarrow> run_served_closure disp clock wr cb s = Inr s' \<Longrightarrow>
    served_step disp clock own (RunTasks (cb # ts), s) (RunTasks ts, s')"
| wait_events: "ts = [] \<or> m_stop_flag (sv_loop s) \<Longrightarrow>
    served_step disp clock own (RunTasks ts, s) (Top, dispatch_events w s)"
| accept: "0 \<le> fd \<Longrightarrow> nat fd \<notin> own \<Longrightarrow> sv_conn s k = None \<Longrightarrow> (\<And>k' c. is_open s k' c \<Longrightarrow> tc_fd c \<noteq> fd) \<Longrightarrow>
    serve_new k fd s = Inr s' \<Longrightarrow> served_step disp clock own (ph, s) (ph, s')"
| arrive: "served_step disp clock own (ph, s) (ph, s\<lparr>sv_arrivals := (sv_arrivals s)(k := sv_arrivals s k @ [r])\<rparr>)"
| halt: "served_step disp clock own (ph, s) (ph, s\<lparr>sv_loop := stop (sv_loop s)\<rparr>)"

inductive served_reach ::
  "(tinypb \<Rightarrow> tinypb \<Rightarrow> 'd tcp_connection \<Rightarrow> 'd tcp_connection cpp) \<Rightarrow> (nat \<Rightarrow> int) \<Rightarrow> nat set \<Rightarrow>
     phase \<times> 'd served \<Rightarrow> phase \<times> 'd served \<Rightarrow> bool"
  for disp :: "tinypb \<Rightarrow> tinypb \<Rightarrow> 'd tcp_connection \<Rightarrow> 'd tcp_connection cpp" and clock :: "nat \<Rightarrow> int" and own :: "nat set"
    and x0 :: "phase \<times> 'd served" where
  served_start: "served_reach disp clock own x0 x0"
| served_next: "served_reach disp clock own x0 x \<Longrightarrow> served_step disp clock own x y \<Longrightarrow> served_reach disp clock own x0 y"

text \<open>
  What every operation of the loop respects is respected by the loop with its connections.
\<close>

locale served_relation = loop_relation R
  for R :: "(nat \<times> conn_callback) eventloop \<Rightarrow> (nat \<times> conn_callback) eventloop \<Rightarrow> bool" +
  assumes R_take: "R l (l\<lparr>m_pending_tasks := ts\<rparr>)"
begin

lemma R_effect: "R l (apply_effect inloop a e l)"
  by (cases e)
    (auto simp: addEpollEvent_def deleteEpollEvent_def R_refl R_delete R_addTask R_events
      intro: R_trans [OF R_events R_add] R_trans [OF R_events R_addTask])

lemma R_carry: "R (sv_loop s) (sv_loop (carry_out inloop k c c' s))"
  using R_trans [OF R_fold R_events, OF R_effect] by (simp add: carry_out_def Let_def)

lemma R_connection: "run_connection disp writes k cb s = Inr s' \<Longrightarrow> R (sv_loop s) (sv_loop s')"
  using R_carry [of "s\<lparr>sv_arrivals := f\<rparr>" for f] R_carry [of s]
  by (auto simp: run_connection_def map_cpp_eq_Inr R_refl split: option.splits if_splits conn_callback.splits)

lemma R_task: "run_served_closure disp clock wr cb s = Inr s' \<Longrightarrow> R (sv_loop s) (sv_loop s')"
  unfolding run_served_closure_def
  by (auto simp: R_closure R_refl R_add R_delete split: option.splits closure.splits prod.splits dest: R_connection
      simp del: run_closure.simps)

lemma R_step: "served_step disp clock own x y \<Longrightarrow> R (sv_loop (snd x)) (sv_loop (snd y))"
proof (induction rule: served_step.induct)
  case (wait_events ts s w)
  show ?case by (cases w) (simp_all add: R_refl R_fold R_dispatch)
next
  case (accept fd s k s' ph)
  then show ?case by (auto simp: serve_new_def bind_cpp_eq_Inr Let_def R_carry)
qed (simp_all add: take_tasks_def R_take R_refl R_stop, erule R_task)

lemma R_reach: "served_reach disp clock own x0 x \<Longrightarrow> R (sv_loop (snd x0)) (sv_loop (snd x))"
  by (induction rule: served_reach.induct) (auto intro: R_refl R_trans R_step)

end

interpretation served_mirroring: served_relation "\<lambda>l l'. mirrors_kernel l \<longrightarrow> mirrors_kernel l'"
  by unfold_locales (simp add: mirrors_kernel_def)

interpretation served_stopping: served_relation "\<lambda>l l'. m_stop_flag l \<longrightarrow> m_stop_flag l'"
  by unfold_locales simp

definition config_ok :: "nat set \<Rightarrow> phase \<times> 'd served \<Rightarrow> bool" where
  "config_ok own x \<longleftrightarrow> m_stop_flag (sv_loop (snd x)) \<or>
     served_ok own (taken (fst x) @ m_pending_tasks (sv_loop (snd x))) (snd x)"

lemma dispatch_event_ok:
  assumes ok: "served_ok own (ts @ m_pending_tasks l) (s\<lparr>sv_loop := l\<rparr>)" and run: "\<not> m_stop_flag l"
  shows "served_ok own (ts @ m_pending_tasks (dispatch_event e l)) (s\<lparr>sv_loop := dispatch_event e l\<rparr>)"
proof (cases e)
  case (Pair po events)
  show ?thesis
  proof (cases po)
    case None
    then show ?thesis using ok by (simp add: Pair dispatch_event_def)
  next
    case (Some p)
    define l' where "l' = dispatch_event e l"
    define ev where "ev = fd_events l p"
    define terminal where "terminal \<longleftrightarrow> events AND (EPOLLERR OR EPOLLHUP OR EPOLLRDHUP) \<noteq> 0"
    have q: "m_pending_tasks l' = m_pending_tasks l @ (if events AND EPOLLIN \<noteq> 0 then [handler IN_EVENT ev] else []) @
        (if events AND EPOLLOUT \<noteq> 0 \<and> \<not> terminal then [handler OUT_EVENT ev] else []) @
        (if terminal \<and> handler ERROR_EVENT ev \<noteq> None then [handler ERROR_EVENT ev] else [])"
      and evs: "fd_events l' = fd_events l" and m: "x \<noteq> fe_fd ev \<or> \<not> terminal \<Longrightarrow> kernel_mask l' x = kernel_mask l x" for x
      using run by (auto simp: l'_def Pair Some dispatch_event_def deleteEpollEvent_def terminal_def ev_def Let_def kernel_mask_DELETE
          simp del: handler.simps)
    have "Some (DeleteToEpoll z) \<notin> set (ts @ m_pending_tasks l')" for z
      using served_okD(2) [OF ok, of _ p z] served_okD(3) [OF ok, of z]
      by (auto simp: q ev_def dest: sym simp del: handler.simps)
    then have ok': "served_ok own (ts @ m_pending_tasks l') (s\<lparr>sv_loop := l\<rparr>)"
      by (rule served_ok_weaken [OF ok, rotated]) (auto simp: q)
    have m': "kernel_mask l' (tc_fd c) = kernel_mask l (tc_fd c) \<or> Some (User (k, CallClear)) \<in> set (ts @ m_pending_tasks l')"
      if "is_open (s\<lparr>sv_loop := l\<rparr>) k c" for k c
    proof (cases "event_addr c = p \<and> terminal")
      case True
      then have "handler ERROR_EVENT ev = Some (User (k, CallClear))"
        using served_okD(4,5) [OF ok that] by (auto simp: ev_def watching_def simp del: handler.simps)
      then show ?thesis using True by (simp add: q del: handler.simps)
    next
      case False
      have "int (event_addr c) = tc_fd c" "fe_fd ev = int p"
        using is_open_addr [OF ok that] served_okD(1) [OF ok] by (simp_all add: ev_def)
      with False m show ?thesis by auto
    qed
    have "served_ok own (ts @ m_pending_tasks l') ((s\<lparr>sv_loop := l\<rparr>)\<lparr>sv_loop := l'\<rparr>)"
      by (rule served_ok_loop [OF ok']) (use evs m' in auto)
    then show ?thesis by (simp add: l'_def)
  qed
qed

lemma dispatch_events_ok:
  assumes "served_ok own (ts @ m_pending_tasks (sv_loop s)) s" and "\<not> m_stop_flag (sv_loop s)"
  shows "served_ok own (ts @ m_pending_tasks (sv_loop (dispatch_events w s))) (dispatch_events w s)"
proof (cases w)
  case (WaitEvents evs)
  have "served_ok own (ts @ m_pending_tasks (fold dispatch_event evs l)) (s\<lparr>sv_loop := fold dispatch_event evs l\<rparr>)"
    if "served_ok own (ts @ m_pending_tasks l) (s\<lparr>sv_loop := l\<rparr>)" "\<not> m_stop_flag l" for l
    using that
  proof (induction evs arbitrary: l)
    case (Cons e evs)
    have "\<not> m_stop_flag (dispatch_event e l)"
      using Cons.prems(2) by (auto simp: dispatch_event_def deleteEpollEvent_def Let_def split: prod.splits option.splits)
    with Cons.IH [OF dispatch_event_ok [OF Cons.prems]] show ?case by simp
  qed simp
  from this [of "sv_loop s"] show ?thesis using assms by (simp add: WaitEvents)
qed (simp add: assms)

lemma serve_new_ok:
  assumes ok: "served_ok own (ts @ m_pending_tasks (sv_loop s)) s" and run: "\<not> m_stop_flag (sv_loop s)"
    and fd: "0 \<le> fd" "nat fd \<notin> own" "sv_conn s k = None" "\<And>k' c. is_open s k' c \<Longrightarrow> tc_fd c \<noteq> fd"
    and new: "serve_new k fd s = Inr s'"
  shows "served_ok own (ts @ m_pending_tasks (sv_loop s')) s'"
proof -
  define c :: "'a tcp_connection" where "c = listenRead (opened TcpConnectionByServer fd)"
  obtain c0 :: "'a tcp_connection" where c0: "newTcpConnection (newFd_Event fd) fd 128 TcpConnectionByServer = Inr c0"
    by (simp add: newTcpConnection_def newTcpBuffer_def new_vector_def)
  have s': "s' = carry_out False k (opened TcpConnectionByServer fd) c s"
    using new c0 opened_new [OF c0] by (simp add: serve_new_def c_def Let_def)
  have w: "watching c" "tc_fd c = fd" "event_addr c = nat fd" "\<not> is_closed c" "fe_fd (m_fd_event c) = fd"
    "effects c = [AddEpollEvent (m_listen_event (m_fd_event c))]"
    using fd(1) by (simp_all add: c_def listenRead_def opened_def watching_def serving_def addEpoll_def emit_def is_closed_def
        event_addr_def readAble_def newFd_Event_def fe_reset_def handler_listen interest_def EPOLLIN_def EPOLLRDHUP_def
        del: handler.simps)
  have l: "m_pending_tasks (sv_loop s') = m_pending_tasks (sv_loop s) @ [Some (AddToEpoll (nat fd))]"
    "fd_events (sv_loop s') = (fd_events (sv_loop s))(nat fd := lift_event k (m_fd_event c))"
    "kernel_mask (sv_loop s') = kernel_mask (sv_loop s)"
    using run w by (auto simp: s' carry_out_def Let_def opened_def event_addr_def addEpollEvent_def)
  have is_open': "is_open s' k' x \<longleftrightarrow> (if k' = k then x = c else is_open s k' x)" for k' x
    using w(4) by (auto simp: s' carry_out_def Let_def is_open_def)
  have none: "\<not> is_open s k x" for x
    using fd(3) by (simp add: is_open_def)
  have addr: "event_addr x \<noteq> nat fd" if "is_open s k' x" for k' x
    using is_open_addr [OF ok that] fd(4) [OF that] fd(1) by auto
  have other: "conn_ok (ts @ m_pending_tasks (sv_loop s')) (sv_loop s') k' x" if "is_open s k' x" for k' x
    using served_okD(4-6) [OF ok that] addr [OF that] l by (auto simp: conn_ok_def registered_def)
  have self: "conn_ok (ts @ m_pending_tasks (sv_loop s')) (sv_loop s') k c"
    using w l by (simp add: conn_ok_def registered_def)
  show ?thesis
  proof (rule served_okI)
    show "fe_fd (fd_events (sv_loop s') p) = int p" for p
      using served_okD(1) [OF ok] fd(1) w(5) by (simp add: l(2))
    show "handler e (fd_events (sv_loop s') p) \<noteq> Some (DeleteToEpoll q)" for p e q
      using served_okD(2) [OF ok] by (auto simp: l(2) simp del: handler.simps)
    show "Some (DeleteToEpoll q) \<notin> set (ts @ m_pending_tasks (sv_loop s'))" for q
      using served_okD(3) [OF ok] by (auto simp: l(1))
    show "conn_ok (ts @ m_pending_tasks (sv_loop s')) (sv_loop s') k' x \<and> event_addr x \<notin> own" if "is_open s' k' x" for k' x
      using that self other served_okD(7) [OF ok] w(3) fd(2) by (cases "k' = k") (auto simp: is_open')
    show "k1 = k2" if "is_open s' k1 x1" "is_open s' k2 x2" "tc_fd x1 = tc_fd x2" for k1 x1 k2 x2
      using that fd(4) [of k1 x1] fd(4) [of k2 x2] served_okD(8) [OF ok, of k1 x1 k2 x2] w(2)
      by (cases "k1 = k"; cases "k2 = k") (simp_all add: is_open')
    show "fd_events (sv_loop s') p = newFd_Event (int p)"
      if p: "p \<notin> own" "\<And>k' x. is_open s' k' x \<Longrightarrow> event_addr x \<noteq> p" for p
    proof -
      have "p \<noteq> nat fd" using p(2) [of k c] w(3) by (auto simp: is_open')
      moreover have "event_addr x \<noteq> p" if "is_open s k' x" for k' x
        using p(2) [of k' x] that none by (cases "k' = k") (auto simp: is_open')
      ultimately show ?thesis
        using served_okD(9) [OF ok p(1)] by (simp add: l(2))
    qed
  qed
qed

lemma is_open_arrivals [simp]: "is_open (s\<lparr>sv_arrivals := f\<rparr>) = is_open s"
  by (simp add: is_open_def fun_eq_iff)

lemma served_ok_arrivals [simp]: "served_ok own ts (s\<lparr>sv_arrivals := f\<rparr>) = served_ok own ts s"
  by (simp add: served_ok_def events_ok_def)

context loop_handler
begin

text \<open>A callback of an open connection keeps it watched or closes it.\<close>

lemma run_open:
  assumes "served_ok own ts s" and "is_open s k c" and "run_connection disp writes k cb s = Inr s'" and "cb \<noteq> CallConnect"
  shows "\<exists>c' f. s' = carry_out True k c c' (s\<lparr>sv_arrivals := f\<rparr>) \<and> (if cb = CallClear then closes c c' else keeps_watching c c' \<or> closes c c')"
proof -
  have w: "watching c" by (rule served_okD(4) [OF assms(1,2)])
  have k: "sv_conn s k = Some c" "\<not> is_closed c" using assms(2) by (simp_all add: is_open_def)
  show ?thesis
  proof (cases cb)
    case CallOnRead
    then obtain c' rest where "onRead disp (sv_arrivals s k) c = Inr (c', rest)"
        "s' = carry_out True k c c' (s\<lparr>sv_arrivals := (sv_arrivals s)(k := rest)\<rparr>)"
      using assms(3) k by (auto simp: run_connection_def map_cpp_eq_Inr)
    then show ?thesis
      using onRead_keeps_watching [OF w] CallOnRead
      by (intro exI [of _ c'] exI [of _ "(sv_arrivals s)(k := rest)"]) simp
  next
    case CallOnWrite
    then obtain c' where "onWrite writes c = Inr c'" "s' = carry_out True k c c' (s\<lparr>sv_arrivals := sv_arrivals s\<rparr>)"
      using assms(3) k by (auto simp: run_connection_def map_cpp_eq_Inr)
    then show ?thesis
      using onWrite_keeps_watching [OF w] CallOnWrite by (intro exI [of _ c'] exI [of _ "sv_arrivals s"]) simp
  next
    case CallClear
    then have "s' = carry_out True k c (clear c) (s\<lparr>sv_arrivals := sv_arrivals s\<rparr>)"
      using assms(3) k by (simp add: run_connection_def)
    then show ?thesis
      using clear_closes [OF w] CallClear by (intro exI [of _ "clear c"] exI [of _ "sv_arrivals s"]) simp
  qed (use assms(4) in simp)
qed

lemma run_connection_ok:
  assumes ok: "served_ok own (Some (User (k, cb)) # ts) s" and run: "\<not> m_stop_flag (sv_loop s)"
    and res: "run_connection disp writes k cb s = Inr s'"
  shows "served_ok own ts s' \<and> \<not> m_stop_flag (sv_loop s') \<and> m_pending_tasks (sv_loop s') = m_pending_tasks (sv_loop s)"
proof (cases "(\<exists>c. is_open s k c) \<and> cb \<noteq> CallConnect")
  case True
  then obtain c where c: "is_open s k c" "cb \<noteq> CallConnect" by blast
  obtain c' f where c': "s' = carry_out True k c c' (s\<lparr>sv_arrivals := f\<rparr>)"
      "if cb = CallClear then closes c c' else keeps_watching c c' \<or> closes c c'"
    using run_open [OF ok c(1) res c(2)] by blast
  define s1 where "s1 = s\<lparr>sv_arrivals := f\<rparr>"
  have s1: "served_ok own (Some (User (k, cb)) # ts) s1" "\<not> m_stop_flag (sv_loop s1)" "is_open s1 k c"
    using ok run c(1) by (simp_all add: s1_def)
  have ok': "served_ok own (Some (User (k, cb)) # ts) s'"
    using carry_out_kept [OF s1] carry_out_closed [OF s1] c' by (auto simp: s1_def split: if_splits)
  obtain new where new: "effects c' = effects c @ new"
    using c'(2) by (auto simp: keeps_watching_def closes_def split: if_splits)
  note loop = carry_out_loop [OF s1 new]
  have gone: "\<not> is_open s' k x" if "cb = CallClear" for x
    using that c' loop(6) by (simp add: closes_def s1_def)
  have "served_ok own ts s'"
  proof (rule served_ok_drop [OF ok'])
    show "kernel_mask (sv_loop s') (tc_fd x) = Some (m_listen_event (m_fd_event x))"
      if "is_open s' k' x" "Some (User (k, cb)) = Some (AddToEpoll (event_addr x)) \<or> Some (User (k, cb)) = Some (User (k', CallClear))"
      for k' x
      using that gone by simp
  qed
  then show ?thesis using loop(1,2) by (simp add: c'(1) s1_def)
next
  case False
  then have "s' = s"
    using res by (auto simp: run_connection_def is_open_def split: option.splits if_splits conn_callback.splits)
  moreover have "served_ok own ts s"
    using False by (intro served_ok_drop [OF ok]) auto
  ultimately show ?thesis using run by simp
qed

lemma run_closure_ok:
  assumes ok: "served_ok own (cb # ts) s" and run: "\<not> m_stop_flag (sv_loop s)"
    and res: "run_served_closure disp clock wr cb s = Inr s'"
  shows "served_ok own ts s' \<and> \<not> m_stop_flag (sv_loop s') \<and> m_pending_tasks (sv_loop s') = m_pending_tasks (sv_loop s)"
proof (cases "\<exists>k ccb. cb = Some (User (k, ccb))")
  case True
  then obtain k ccb where cb: "cb = Some (User (k, ccb))" by blast
  with res have "run_connection disp (wr k) k ccb s = Inr s'" by (simp add: run_served_closure_def)
  from run_connection_ok [OF _ run this] ok show ?thesis by (simp add: cb)
next
  case False
  define l where "l = run_closure clock (\<lambda>_. []) cb (sv_loop s)"
  have s': "s' = s\<lparr>sv_loop := l\<rparr>"
    using res False unfolding run_served_closure_def l_def [symmetric] by (simp split: option.splits closure.splits prod.splits)
  have noop: "fold (run_user clock (\<lambda>_. [])) cbs l = l" for cbs and l :: "(nat \<times> conn_callback) eventloop"
    by (induction cbs) (simp_all add: run_user_def)
  have "fd_events l = fd_events (sv_loop s) \<and> \<not> m_stop_flag l \<and> m_pending_tasks l = m_pending_tasks (sv_loop s) \<and>
      (if \<exists>p. cb = Some (AddToEpoll p) then \<exists>p. cb = Some (AddToEpoll p) \<and> l = ADD_TO_EPOLL p (sv_loop s)
       else kernel_mask l = kernel_mask (sv_loop s))"
  proof (cases cb)
    case (Some x)
    then show ?thesis
      using False run served_okD(3) [OF ok] by (cases x) (auto simp: l_def noop split: option.splits)
  qed (use run in \<open>simp add: l_def\<close>)
  then have l: "fd_events l = fd_events (sv_loop s)" "\<not> m_stop_flag l" "m_pending_tasks l = m_pending_tasks (sv_loop s)"
    "cb = Some (AddToEpoll p) \<Longrightarrow> l = ADD_TO_EPOLL p (sv_loop s)"
    "\<nexists>p. cb = Some (AddToEpoll p) \<Longrightarrow> kernel_mask l = kernel_mask (sv_loop s)" for p
    by (auto split: if_splits)
  have added: "kernel_mask l (tc_fd c) = Some (m_listen_event (m_fd_event c))"
    if "is_open s k c" "cb = Some (AddToEpoll (event_addr c))" for k c
    using l(4) [OF that(2)] served_okD(4,5) [OF ok that(1)] by (simp add: watching_def)
  have same: "kernel_mask l (tc_fd c) = kernel_mask (sv_loop s) (tc_fd c)"
    if c: "is_open s k c" "cb \<noteq> Some (AddToEpoll (event_addr c))" for k c
  proof (cases "\<exists>p. cb = Some (AddToEpoll p)")
    case True
    then obtain p where p: "cb = Some (AddToEpoll p)" "p \<noteq> event_addr c" using c(2) by auto
    then have "fe_fd (fd_events (sv_loop s) p) \<noteq> tc_fd c"
      using served_okD(1) [OF ok] is_open_addr [OF ok c(1)] by auto
    then show ?thesis using l(4) [OF p(1)] by simp
  qed (simp add: l(5))
  have ok1: "served_ok own (cb # ts) s'"
    unfolding s' using served_ok_loop [OF ok l(1)] added same by blast
  have "served_ok own ts s'"
  proof (rule served_ok_drop [OF ok1])
    show "kernel_mask (sv_loop s') (tc_fd c) = Some (m_listen_event (m_fd_event c))"
      if "is_open s' k c" "cb = Some (AddToEpoll (event_addr c)) \<or> cb = Some (User (k, CallClear))" for k c
      using that False added [of k c] by (auto simp: s' is_open_def)
  qed
  with l(2,3) show ?thesis by (simp add: s')
qed

lemma step_ok:
  assumes "served_step disp clock own x y" and "config_ok own x"
  shows "config_ok own y"
  using assms
proof (induction rule: served_step.induct)
  case (take_batch s)
  have l: "served_ok own (m_pending_tasks (sv_loop s)) (s\<lparr>sv_loop := (sv_loop s)\<lparr>m_pending_tasks := []\<rparr>\<rparr>)"
    by (rule served_ok_loop) (use take_batch in \<open>simp_all add: config_ok_def\<close>)
  then show ?case by (simp add: config_ok_def take_tasks_def)
next
  case (run_task s wr cb s' ts)
  then show ?case
    using run_closure_ok [of own cb "ts @ m_pending_tasks (sv_loop s)" s] by (auto simp: config_ok_def)
next
  case (wait_events ts s w)
  have "m_stop_flag (sv_loop s) \<longrightarrow> m_stop_flag (sv_loop (dispatch_events w s))"
    using served_stopping.R_step [OF served_step.wait_events [OF wait_events(1)]] by simp
  then show ?case
    using dispatch_events_ok [of own "[]" s w] wait_events by (auto simp: config_ok_def)
next
  case (accept fd s k s' ph)
  have "m_stop_flag (sv_loop s) \<longrightarrow> m_stop_flag (sv_loop s')"
    using served_stopping.R_step [OF served_step.accept [OF accept(1-5)]] by simp
  then show ?case
    using serve_new_ok [of own "taken ph" s fd k s'] accept by (auto simp: config_ok_def)
next
  case (arrive ph s k r)
  then show ?case by (simp add: config_ok_def)
next
  case (halt ph s)
  then show ?case by (simp add: config_ok_def)
qed

lemma reach_ok: "served_reach disp clock own x0 x \<Longrightarrow> config_ok own x0 \<Longrightarrow> config_ok own x"
  by (induction rule: served_reach.induct) (auto intro: step_ok)

end

section \<open>The start of an IO thread\<close>

text \<open>A fresh loop whose events are those of a fresh event group, and no connection yet.\<close>

definition served_init :: "(nat \<times> conn_callback) eventloop \<Rightarrow> 'd served" where
  "served_init l = \<lparr>sv_loop = l, sv_conn = Map.empty, sv_arrivals = (\<lambda>_. [])\<rparr>"

lemma served_init_ok:
  assumes "newEventloop created epoll_fd (nat wfd, wfd) (nat tfd, tfd) (\<lambda>p. newFd_Event (int p)) tevs = Some l"
    and "0 \<le> tfd" and "wfd \<noteq> tfd"
  shows "config_ok {nat wfd, nat tfd} (Top, served_init l :: 'd served)"
proof -
  have w: "0 \<le> wfd" and l: "m_pending_tasks l = []" "fd_events l = (\<lambda>p. newFd_Event (int p))
      (nat wfd := listen IN_EVENT (Some DrainWakeup) None (newFd_Event wfd),
       nat tfd := listen IN_EVENT (Some OnTimer) None (newFd_Event tfd))"
    using assms(1) by (auto simp: newEventloop_def initWakeUpFdEevent_def initTimer_def addEpollEvent_def Let_def split: if_splits)
  have none: "\<not> is_open (served_init l :: 'd served) k c" for k c
    by (simp add: is_open_def served_init_def)
  have "served_ok {nat wfd, nat tfd} [] (served_init l :: 'd served)"
  proof (rule served_okI)
    show "fe_fd (fd_events (sv_loop (served_init l :: 'd served)) p) = int p" for p
      using w assms(2) by (auto simp: l served_init_def)
    show "handler e (fd_events (sv_loop (served_init l :: 'd served)) p) \<noteq> Some (DeleteToEpoll q)" for p e q
      by (auto simp: l served_init_def handler_listen simp del: handler.simps)
    show "fd_events (sv_loop (served_init l :: 'd served)) p = newFd_Event (int p)" if "p \<notin> {nat wfd, nat tfd}" for p
      using that by (auto simp: l served_init_def)
  qed (simp_all add: none)
  then show ?thesis by (simp add: config_ok_def served_init_def l)
qed

end
