(* ===== verification/TcpClient.thy ===== *)
theory TcpClient
  imports ConnectionProps EventLoop NetAddr ErrCode
begin

text \<open>
  The client end of a connection (\<open>net/tcp/tcp_client.h\<close>, \<open>net/tcp/tcp_client.cc\<close>): opening it
  without blocking, the calls it passes on to the connection and to the loop of its thread. The
  client shares the descriptor event with its connection, so \<open>m_fd_event->...\<close> acts on the
  connection's copy; \<open>cl_fd_event\<close> says whether the client's pointer to it is set. The results of
  \<open>connect(2)\<close> and \<open>getsockname(2)\<close> are inputs, \<open>strerror\<close> and \<open>inet_ntoa\<close> parameters. The calls of
  \<open>done\<close> and the entries into \<open>loop()\<close> are counted.
\<close>

section \<open>State\<close>

record ('d, 'e) tcp_client =
  cl_connection :: "'d tcp_connection option"
  cl_event_loop :: "'e eventloop"
  cl_fd :: int
  cl_fd_event :: bool
  cl_local_addr :: "ip_net_addr option"
  m_connect_error_code :: int32
  m_connect_error_info :: string
  connect_dones :: nat
  loop_entries :: nat

text \<open>The constructor, given the result of \<open>socket(2)\<close> and the group's event for that descriptor.\<close>

definition newTcpClient :: "int \<Rightarrow> conn_callback fd_event \<Rightarrow> 'e eventloop \<Rightarrow> ('d, 'e) tcp_client cpp" where
  "newTcpClient fd fd_event l =
     (let l = (if m_stop_flag l then l\<lparr>m_stop_flag := False, m_is_looping := False\<rparr> else l);
          cl = \<lparr>cl_connection = None, cl_event_loop = l, cl_fd = fd, cl_fd_event = False, cl_local_addr = None,
                m_connect_error_code = 0, m_connect_error_info = [], connect_dones = 0, loop_entries = 0\<rparr>
      in if fd < 0 then Inr cl
         else
           bind_cpp (newTcpConnection fd_event fd 128 TcpConnectionByClient) (\<lambda>c.
             Inr (cl\<lparr>cl_fd_event := True, cl_connection := Some (setConnectionType TcpConnectionByClient c)\<rparr>)))"

section \<open>Access through the pointers\<close>

definition with_connection ::
  "('d tcp_connection \<Rightarrow> 'd tcp_connection) \<Rightarrow> ('d, 'e) tcp_client \<Rightarrow> ('d, 'e) tcp_client cpp" where
  "with_connection f cl =
     (case cl_connection cl of None \<Rightarrow> Inl NullPointer | Some c \<Rightarrow> Inr (cl\<lparr>cl_connection := Some (f c)\<rparr>))"

definition with_fd_event ::
  "('d tcp_connection \<Rightarrow> 'd tcp_connection) \<Rightarrow> ('d, 'e) tcp_client \<Rightarrow> ('d, 'e) tcp_client cpp" where
  "with_fd_event f cl = (if cl_fd_event cl then with_connection f cl else Inl NullPointer)"

definition if_connection ::
  "('d tcp_connection \<Rightarrow> 'd tcp_connection) \<Rightarrow> ('d, 'e) tcp_client \<Rightarrow> ('d, 'e) tcp_client" where
  "if_connection f cl = cl\<lparr>cl_connection := map_option f (cl_connection cl)\<rparr>"

section \<open>Connecting\<close>

datatype connect_result = ConnectOk | ConnectErrno int

definition EINPROGRESS :: int where "EINPROGRESS = 115"
definition EISCONN :: int where "EISCONN = 106"
definition ECONNREFUSED :: int where "ECONNREFUSED = 111"

definition initLocalAddr ::
  "(int32 \<Rightarrow> string) \<Rightarrow> sockaddr_in option \<Rightarrow> ('d, 'e) tcp_client \<Rightarrow> ('d, 'e) tcp_client" where
  "initLocalAddr ntoa name cl =
     (case name of None \<Rightarrow> cl | Some a \<Rightarrow> cl\<lparr>cl_local_addr := Some (IPNetAddr_sockaddr ntoa a)\<rparr>)"

definition run_done :: "bool \<Rightarrow> ('d, 'e) tcp_client \<Rightarrow> ('d, 'e) tcp_client" where
  "run_done has_done cl = (if has_done then cl\<lparr>connect_dones := Suc (connect_dones cl)\<rparr> else cl)"

definition set_connect_error :: "int32 \<Rightarrow> string \<Rightarrow> ('d, 'e) tcp_client \<Rightarrow> ('d, 'e) tcp_client" where
  "set_connect_error code info cl = cl\<lparr>m_connect_error_code := code, m_connect_error_info := info\<rparr>"

text \<open>
  \<open>connect\<close>: success, an attempt in progress (the descriptor is watched for writability, and the
  loop is entered unless it is running), or a failure.
\<close>

definition connect ::
  "(int \<Rightarrow> string) \<Rightarrow> (int32 \<Rightarrow> string) \<Rightarrow> connect_result \<Rightarrow> sockaddr_in option \<Rightarrow> bool \<Rightarrow>
     ('d, 'e) tcp_client \<Rightarrow> ('d, 'e) tcp_client cpp" where
  "connect strerror ntoa rt name has_done cl =
     (case rt of
        ConnectOk \<Rightarrow>
          bind_cpp (with_connection (setState Connected) cl) (\<lambda>cl.
            Inr (run_done has_done (initLocalAddr ntoa name cl)))
      | ConnectErrno e \<Rightarrow>
          if e = EINPROGRESS then
            bind_cpp (with_fd_event (\<lambda>c. c\<lparr>m_fd_event := listen OUT_EVENT (Some CallConnect) (Some CallConnect) (m_fd_event c)\<rparr>) cl) (\<lambda>cl.
            bind_cpp (with_connection addEpoll cl) (\<lambda>cl.
              Inr (if \<not> m_is_looping (cl_event_loop cl) then cl\<lparr>loop_entries := Suc (loop_entries cl)\<rparr> else cl)))
          else
            Inr (run_done has_done (set_connect_error ERROR_FAILED_CONNECT (''connect error, sys error = '' @ strerror e) cl)))"

text \<open>\<open>connect_callback\<close>, with the result of its second \<open>connect(2)\<close>.\<close>

definition connect_callback ::
  "(int \<Rightarrow> string) \<Rightarrow> (int32 \<Rightarrow> string) \<Rightarrow> connect_result \<Rightarrow> sockaddr_in option \<Rightarrow> bool \<Rightarrow>
     ('d, 'e) tcp_client \<Rightarrow> ('d, 'e) tcp_client cpp" where
  "connect_callback strerror ntoa rt name has_done cl =
     bind_cpp (with_fd_event (\<lambda>c. emit [DeleteEpollEvent] (c\<lparr>m_fd_event := cancle OUT_EVENT (m_fd_event c)\<rparr>)) cl) (\<lambda>cl.
     bind_cpp
       (if rt = ConnectErrno EISCONN \<or> rt = ConnectOk then
          with_connection (setState Connected) (initLocalAddr ntoa name cl)
        else
          let e = (case rt of ConnectErrno e \<Rightarrow> e | ConnectOk \<Rightarrow> 0);
              cl = (if e = ECONNREFUSED
                    then set_connect_error ERROR_PEER_CLOSED (''connect refused, sys error = '' @ strerror e) cl
                    else set_connect_error ERROR_FAILED_CONNECT (''connect unkonwn error, sys error = '' @ strerror e) cl)
          in bind_cpp (with_connection (clear \<circ> setDisconnectCallback None) cl) (\<lambda>cl.
               Inr (cl\<lparr>cl_fd := - 1, cl_fd_event := False\<rparr>))) (\<lambda>cl.
       Inr (run_done has_done cl)))"

section \<open>Messages, closing, and the loop\<close>

definition client_stop :: "('d, 'e) tcp_client \<Rightarrow> ('d, 'e) tcp_client" where
  "client_stop cl =
     (if m_is_looping (cl_event_loop cl) then cl\<lparr>cl_event_loop := stop (cl_event_loop cl)\<rparr> else cl)"

definition writeMessage :: "protocol \<Rightarrow> 'd \<Rightarrow> ('d, 'e) tcp_client \<Rightarrow> ('d, 'e) tcp_client cpp" where
  "writeMessage message cb = with_connection (listenWrite \<circ> pushSendMessage message cb)"

definition readMessage :: "string \<Rightarrow> 'd \<Rightarrow> ('d, 'e) tcp_client \<Rightarrow> ('d, 'e) tcp_client cpp" where
  "readMessage msg_id cb = with_connection (listenRead \<circ> pushReadMessage msg_id cb)"

definition client_removeReadMessage :: "string \<Rightarrow> ('d, 'e) tcp_client \<Rightarrow> ('d, 'e) tcp_client" where
  "client_removeReadMessage msg_id = if_connection (removeReadMessage msg_id)"

definition client_setDisconnectCallback :: "'d option \<Rightarrow> ('d, 'e) tcp_client \<Rightarrow> ('d, 'e) tcp_client" where
  "client_setDisconnectCallback cb = if_connection (setDisconnectCallback cb)"

definition disconnect :: "('d, 'e) tcp_client \<Rightarrow> ('d, 'e) tcp_client" where
  "disconnect cl = (if_connection (clear \<circ> setDisconnectCallback None) cl)\<lparr>cl_fd := - 1, cl_fd_event := False\<rparr>"

definition destroyTcpClient :: "('d, 'e) tcp_client \<Rightarrow> ('d, 'e) tcp_client" where
  "destroyTcpClient cl = (if_connection clear cl)\<lparr>cl_fd := - 1, cl_fd_event := False\<rparr>"

definition client_addTimerEvent :: "(nat \<Rightarrow> int) \<Rightarrow> nat option \<Rightarrow> ('d, 'e) tcp_client \<Rightarrow> ('d, 'e) tcp_client" where
  "client_addTimerEvent clock event cl = cl\<lparr>cl_event_loop := loop_addTimerEvent clock event (cl_event_loop cl)\<rparr>"

definition client_deleteTimerEvent :: "nat option \<Rightarrow> ('d, 'e) tcp_client \<Rightarrow> ('d, 'e) tcp_client" where
  "client_deleteTimerEvent event cl = cl\<lparr>cl_event_loop := loop_deleteTimerEvent event (cl_event_loop cl)\<rparr>"

definition client_addTask :: "'e closure option \<Rightarrow> ('d, 'e) tcp_client \<Rightarrow> ('d, 'e) tcp_client" where
  "client_addTask task cl = cl\<lparr>cl_event_loop := addTask task True (cl_event_loop cl)\<rparr>"

section \<open>Lemmas\<close>

lemmas client_access_defs = with_connection_def with_fd_event_def if_connection_def

lemmas connect_defs = connect_def connect_callback_def initLocalAddr_def run_done_def set_connect_error_def client_access_defs

lemma newTcpClient_opened:
  assumes "newTcpClient fd (newFd_Event fd) l = Inr cl" and "0 \<le> fd"
  obtains c where "cl_connection cl = Some c" "setState Connected c = opened TcpConnectionByClient fd"
    "m_state c = NotConnected" "cl_fd cl = fd" "cl_fd_event cl" "connect_dones cl = 0" "m_connect_error_code cl = 0"
    "m_stop_flag (cl_event_loop cl) = False"
proof -
  obtain c where c: "newTcpConnection (newFd_Event fd) fd 128 TcpConnectionByClient = Inr c"
    "cl = \<lparr>cl_connection = Some (setConnectionType TcpConnectionByClient c),
       cl_event_loop = (if m_stop_flag l then l\<lparr>m_stop_flag := False, m_is_looping := False\<rparr> else l),
       cl_fd = fd, cl_fd_event = True, cl_local_addr = None,
       m_connect_error_code = 0, m_connect_error_info = [], connect_dones = 0, loop_entries = 0\<rparr>"
    using assms by (auto simp: newTcpClient_def bind_cpp_eq_Inr Let_def)
  have "setConnectionType TcpConnectionByClient c = c" "m_state c = NotConnected"
    using c(1) by (auto simp: newTcpConnection_def setConnectionType_def bind_cpp_eq_Inr)
  with c that [of c] opened_new [OF c(1)] show ?thesis by simp
qed

section \<open>Properties\<close>

text \<open>A whole attempt: \<open>connect\<close>, and its callback when the attempt is in progress.\<close>

definition connect_attempt ::
  "(int \<Rightarrow> string) \<Rightarrow> (int32 \<Rightarrow> string) \<Rightarrow> connect_result \<Rightarrow> connect_result \<Rightarrow> sockaddr_in option \<Rightarrow> bool \<Rightarrow>
     ('d, 'e) tcp_client \<Rightarrow> ('d, 'e) tcp_client cpp" where
  "connect_attempt strerror ntoa r1 r2 name has_done cl =
     bind_cpp (connect strerror ntoa r1 name has_done cl) (\<lambda>cl.
       if r1 = ConnectErrno EINPROGRESS then connect_callback strerror ntoa r2 name has_done cl else Inr cl)"

definition established :: "connect_result \<Rightarrow> connect_result \<Rightarrow> bool" where
  "established r1 r2 \<longleftrightarrow>
     r1 = ConnectOk \<or> r1 = ConnectErrno EINPROGRESS \<and> (r2 = ConnectOk \<or> r2 = ConnectErrno EISCONN)"

text \<open>
  C28. Connecting ends in one of two ways: whatever the two calls of \<open>connect(2)\<close> return, the
  attempt does not fault and runs \<open>done\<close> exactly once. If the connection is established there is
  no error, the state is connected and the disconnect callback is in place. Otherwise the error
  says whether the peer refused, the connection is not in the connected state, and a failed
  attempt in progress has unregistered and closed its descriptor without running the disconnect
  callback. Interest in writability is withdrawn in every case.
\<close>

theorem connect_outcome:
  assumes "newTcpClient fd (newFd_Event fd) l = Inr cl" and "0 \<le> fd"
  shows "\<exists>cl' c. connect_attempt strerror ntoa r1 r2 name True (client_setDisconnectCallback cb cl) = Inr cl' \<and>
     connect_dones cl' = 1 \<and> cl_connection cl' = Some c \<and> m_listen_event (m_fd_event c) = 0 \<and>
     (if established r1 r2
      then m_connect_error_code cl' = 0 \<and> m_state c = Connected \<and> tc_fd c = fd \<and> cl_fd cl' = fd \<and>
           m_disconnect_callback c = cb
      else m_connect_error_code cl' =
             (if r1 = ConnectErrno EINPROGRESS \<and> r2 = ConnectErrno ECONNREFUSED then ERROR_PEER_CLOSED else ERROR_FAILED_CONNECT) \<and>
           m_state c \<noteq> Connected) \<and>
     effects c =
       (if r1 \<noteq> ConnectErrno EINPROGRESS then []
        else [AddEpollEvent EPOLLOUT, DeleteEpollEvent] @ (if established r1 r2 then [] else [DeleteEpollEvent, CloseFd fd]))"
proof -
  obtain c where c: "cl_connection cl = Some c" "setState Connected c = opened TcpConnectionByClient fd"
    "m_state c = NotConnected" "cl_fd cl = fd" "cl_fd_event cl" "connect_dones cl = 0" "m_connect_error_code cl = 0"
    using newTcpClient_opened [OF assms] by metis
  have f: "tc_fd c = fd" "effects c = []" "m_fd_event c = newFd_Event fd"
    using arg_cong [OF c(2), of tc_fd] arg_cong [OF c(2), of effects] arg_cong [OF c(2), of m_fd_event]
    by (simp_all add: setState_def opened_def)
  have mask: "m_listen_event (newFd_Event fd :: conn_callback fd_event) = 0"
    by (simp add: newFd_Event_def fe_reset_def)
  note simps = connect_attempt_def connect_defs client_setDisconnectCallback_def setDisconnectCallback_def setState_def
    addEpoll_def emit_def established_def c f mask interest_def
  show ?thesis
  proof (cases "r1 = ConnectErrno EINPROGRESS")
    case True
    then show ?thesis
    proof (cases "r2 = ConnectOk \<or> r2 = ConnectErrno EISCONN")
      case True
      with \<open>r1 = ConnectErrno EINPROGRESS\<close> show ?thesis
        by (auto simp: simps split: option.splits)
    next
      case False
      with \<open>r1 = ConnectErrno EINPROGRESS\<close> assms(2) show ?thesis
        by (cases r2) (auto simp: simps clear_def fe_reset_def Let_def EISCONN_def ECONNREFUSED_def)
    qed
  next
    case False
    with c(3) show ?thesis
      by (cases r1) (auto simp: simps split: option.splits)
  qed
qed

lemma newTcpClient_defined:
  "0 \<le> fd \<Longrightarrow> \<exists>cl. newTcpClient fd (newFd_Event fd) l = Inr cl"
  by (simp add: newTcpClient_def newTcpConnection_def newTcpBuffer_def new_vector_def Let_def)

theorem connect_outcome_witness:
  "\<exists>cl cl'. newTcpClient 7 (newFd_Event 7) idle_loop = Inr cl \<and>
     connect_attempt (\<lambda>_. ''refused'') (\<lambda>_. ''0.0.0.0'') (ConnectErrno EINPROGRESS) (ConnectErrno ECONNREFUSED) None True
       (client_setDisconnectCallback (Some ''lost'') cl) = Inr cl' \<and>
     connect_dones cl' = 1 \<and> m_connect_error_code cl' = ERROR_PEER_CLOSED"
proof -
  obtain cl :: "(string, nat) tcp_client" where cl: "newTcpClient 7 (newFd_Event 7) idle_loop = Inr cl"
    using newTcpClient_defined [of 7 idle_loop] by auto
  then show ?thesis
    using connect_outcome [OF cl, of "\<lambda>_. ''refused''" "\<lambda>_. ''0.0.0.0''" "ConnectErrno EINPROGRESS" "ConnectErrno ECONNREFUSED"]
    by (auto simp: established_def EISCONN_def ECONNREFUSED_def)
qed

datatype 'd client_op =
    WriteOp protocol 'd
  | ReadOp string 'd
  | RemoveOp string
  | CallbackOp "'d option"
  | DisconnectOp
  | DestroyOp

fun client_step :: "'d client_op \<Rightarrow> ('d, 'e) tcp_client \<Rightarrow> ('d, 'e) tcp_client cpp" where
  "client_step (WriteOp m cb) cl = writeMessage m cb cl"
| "client_step (ReadOp k cb) cl = readMessage k cb cl"
| "client_step (RemoveOp k) cl = Inr (client_removeReadMessage k cl)"
| "client_step (CallbackOp cb) cl = Inr (client_setDisconnectCallback cb cl)"
| "client_step DisconnectOp cl = Inr (disconnect cl)"
| "client_step DestroyOp cl = Inr (destroyTcpClient cl)"

definition client_closed :: "'d effect list \<Rightarrow> ('d, 'e) tcp_client \<Rightarrow> bool" where
  "client_closed es cl \<longleftrightarrow>
     (\<exists>c. cl_connection cl = Some c \<and> m_state c = Closed \<and> tc_fd c < 0 \<and> effects c = es)"

lemma client_step_closed:
  assumes "client_closed es cl"
  shows "\<exists>cl'. client_step a cl = Inr cl' \<and> client_closed es cl'"
  using assms
  by (cases a) (auto simp: client_closed_def client_access_defs writeMessage_def readMessage_def client_removeReadMessage_def
      client_setDisconnectCallback_def disconnect_def destroyTcpClient_def pushSendMessage_def pushReadMessage_def
      removeReadMessage_def setDisconnectCallback_def listenWrite_def listenRead_def clear_def)

lemma client_steps_closed:
  "client_closed es cl \<Longrightarrow> \<exists>cl'. fold_cpp client_step ops cl = Inr cl' \<and> client_closed es cl'"
proof (induction ops arbitrary: cl)
  case (Cons a ops)
  obtain cl1 where "client_step a cl = Inr cl1" "client_closed es cl1"
    using client_step_closed [OF Cons.prems] by blast
  with Cons.IH show ?case by simp
qed simp

text \<open>
  Disconnecting is final: \<open>disconnect\<close> on an open client unregisters and closes the descriptor
  once and does not run the disconnect callback; whatever is called on the client afterwards
  (writing, reading, other callbacks, a second \<open>disconnect\<close>, the destructor) does not fault and
  has no further effect on the loop, the kernel or a callback.
\<close>

theorem disconnect_is_final:
  assumes "cl_connection cl = Some c" and "m_state c \<noteq> Closed" and "0 \<le> tc_fd c"
  shows "\<exists>cl' c'. fold_cpp client_step (DisconnectOp # ops) cl = Inr cl' \<and> cl_connection cl' = Some c' \<and>
           m_state c' = Closed \<and> effects c' = effects c @ [DeleteEpollEvent, CloseFd (tc_fd c)]"
proof -
  have "client_closed (effects c @ [DeleteEpollEvent, CloseFd (tc_fd c)]) (disconnect cl)"
    using assms by (simp add: client_closed_def disconnect_def if_connection_def setDisconnectCallback_def clear_def emit_def Let_def)
  from client_steps_closed [OF this, of ops] show ?thesis
    by (auto simp: client_closed_def)
qed

theorem disconnect_is_final_witness:
  "\<exists>cl cl' c'. newTcpClient 7 (newFd_Event 7) idle_loop = Inr cl \<and>
     fold_cpp client_step [DisconnectOp, ReadOp ''1'' ''cb'', DisconnectOp, DestroyOp] cl = Inr cl' \<and>
     cl_connection cl' = Some c' \<and> effects c' = [DeleteEpollEvent, CloseFd 7]"
proof -
  obtain cl :: "(string, nat) tcp_client" where cl: "newTcpClient 7 (newFd_Event 7) idle_loop = Inr cl"
    using newTcpClient_defined [of 7 idle_loop] by auto
  obtain c where c: "cl_connection cl = Some c" "setState Connected c = opened TcpConnectionByClient 7" "m_state c = NotConnected"
    by (rule newTcpClient_opened [OF cl]) auto
  have "tc_fd c = 7" "effects c = []"
    using arg_cong [OF c(2), of tc_fd] arg_cong [OF c(2), of effects] by (simp_all add: setState_def opened_def)
  with disconnect_is_final [OF c(1), of "[ReadOp ''1'' ''cb'', DisconnectOp, DestroyOp]"] cl c(3) show ?thesis
    by auto
qed

text \<open>
  A connect callback that was already queued when \<open>disconnect\<close> ran follows the cleared pointer to
  the descriptor event. The channel avoids this because it stops the loop right after it
  disconnects, which drops the queued tasks.
\<close>

lemma connect_callback_after_disconnect:
  "connect_callback strerror ntoa rt name has_done (disconnect cl) = Inl NullPointer"
  by (simp add: connect_callback_def with_fd_event_def disconnect_def)

end
