(* ===== verification/RpcController.thy ===== *)
theory RpcController
  imports NetAddr
begin

text \<open>
  The controller of a call (\<open>net/rpc/rpc_controller.h\<close>, \<open>net/rpc/rpc_controller.cc\<close>): error state,
  deadline, and cancellation with two kinds of notification, the \<open>Closure\<close> of the protobuf
  interface and the channel's own callback. Every member function takes the mutex for its whole
  access to the fields, so each is one atomic step of the model; callbacks are values of a type
  \<open>'c\<close>, and an operation returns those it runs, in order, after the mutex has been released.
\<close>

record 'c rpc_controller =
  m_error_code :: int32
  m_error_info :: string
  rc_msg_id :: string
  m_is_failed :: bool
  rc_is_cancled :: bool
  m_is_finished :: bool
  m_local_addr :: "ip_net_addr option"
  m_peer_addr :: "ip_net_addr option"
  m_timeout :: int
  m_cancel_closure :: "'c option"
  m_cancel_callback :: "'c option"

definition newRpcController :: "'c rpc_controller" where
  "newRpcController = \<lparr>m_error_code = 0, m_error_info = [], rc_msg_id = [], m_is_failed = False,
     rc_is_cancled = False, m_is_finished = False, m_local_addr = None, m_peer_addr = None, m_timeout = 1000,
     m_cancel_closure = None, m_cancel_callback = None\<rparr>"

definition Reset :: "'c rpc_controller \<Rightarrow> 'c rpc_controller" where
  "Reset c = c\<lparr>m_error_code := 0, m_error_info := [], rc_msg_id := [], m_is_failed := False,
     rc_is_cancled := False, m_is_finished := False, m_local_addr := None, m_peer_addr := None, m_timeout := 1000,
     m_cancel_closure := None, m_cancel_callback := None\<rparr>"

definition StartCancel :: "'c rpc_controller \<Rightarrow> 'c rpc_controller \<times> 'c list" where
  "StartCancel c =
     (if rc_is_cancled c \<or> m_is_finished c then (c, [])
      else
        let closure = m_cancel_closure c; callback = m_cancel_callback c in
        (c\<lparr>rc_is_cancled := True, m_cancel_callback := None, m_cancel_closure := None\<rparr>,
         (case closure of None \<Rightarrow> [] | Some x \<Rightarrow> [x]) @ (case callback of None \<Rightarrow> [] | Some x \<Rightarrow> [x])))"

definition SetFailed :: "string \<Rightarrow> 'c rpc_controller \<Rightarrow> 'c rpc_controller" where
  "SetFailed reason c = c\<lparr>m_error_info := reason, m_is_failed := True\<rparr>"

definition NotifyOnCancel :: "'c option \<Rightarrow> 'c rpc_controller \<Rightarrow> 'c rpc_controller \<times> 'c list" where
  "NotifyOnCancel callback c =
     (let cancelled = rc_is_cancled c;
          c = (if \<not> cancelled then c\<lparr>m_cancel_closure := callback\<rparr> else c)
      in (c, case callback of Some x \<Rightarrow> if cancelled then [x] else [] | None \<Rightarrow> []))"

definition SetError :: "int32 \<Rightarrow> string \<Rightarrow> 'c rpc_controller \<Rightarrow> 'c rpc_controller" where
  "SetError error_code error_info c = c\<lparr>m_error_code := error_code, m_error_info := error_info, m_is_failed := True\<rparr>"

definition SetMsgId :: "string \<Rightarrow> 'c rpc_controller \<Rightarrow> 'c rpc_controller" where
  "SetMsgId msg_id c = c\<lparr>rc_msg_id := msg_id\<rparr>"

definition SetLocalAddr :: "ip_net_addr option \<Rightarrow> 'c rpc_controller \<Rightarrow> 'c rpc_controller" where
  "SetLocalAddr addr c = c\<lparr>m_local_addr := addr\<rparr>"

definition SetPeerAddr :: "ip_net_addr option \<Rightarrow> 'c rpc_controller \<Rightarrow> 'c rpc_controller" where
  "SetPeerAddr addr c = c\<lparr>m_peer_addr := addr\<rparr>"

definition SetTimeout :: "int \<Rightarrow> 'c rpc_controller \<Rightarrow> 'c rpc_controller" where
  "SetTimeout timeout c = c\<lparr>m_timeout := timeout\<rparr>"

definition SetFinished :: "bool \<Rightarrow> 'c rpc_controller \<Rightarrow> 'c rpc_controller" where
  "SetFinished value c = c\<lparr>m_is_finished := value\<rparr>"

definition SetCancelCallback :: "'c option \<Rightarrow> 'c rpc_controller \<Rightarrow> 'c rpc_controller \<times> 'c list" where
  "SetCancelCallback callback c =
     (let cancelled = rc_is_cancled c;
          c = (if \<not> cancelled then c\<lparr>m_cancel_callback := callback\<rparr> else c)
      in (c, case callback of Some x \<Rightarrow> if cancelled then [x] else [] | None \<Rightarrow> []))"

definition ClearCancelCallback :: "'c rpc_controller \<Rightarrow> 'c rpc_controller" where
  "ClearCancelCallback c = c\<lparr>m_cancel_callback := None\<rparr>"

text \<open>What a caller reads, each under the mutex.\<close>

definition Failed :: "'c rpc_controller \<Rightarrow> bool" where
  "Failed c = m_is_failed c"

definition ErrorText :: "'c rpc_controller \<Rightarrow> string" where
  "ErrorText c = m_error_info c"

definition IsCanceled :: "'c rpc_controller \<Rightarrow> bool" where
  "IsCanceled c = rc_is_cancled c"

definition GetErrorCode :: "'c rpc_controller \<Rightarrow> int32" where
  "GetErrorCode c = m_error_code c"

definition GetErrorInfo :: "'c rpc_controller \<Rightarrow> string" where
  "GetErrorInfo c = m_error_info c"

definition GetMsgId :: "'c rpc_controller \<Rightarrow> string" where
  "GetMsgId c = rc_msg_id c"

definition GetLocalAddr :: "'c rpc_controller \<Rightarrow> ip_net_addr option" where
  "GetLocalAddr c = m_local_addr c"

definition GetPeerAddr :: "'c rpc_controller \<Rightarrow> ip_net_addr option" where
  "GetPeerAddr c = m_peer_addr c"

definition GetTimeout :: "'c rpc_controller \<Rightarrow> int" where
  "GetTimeout c = m_timeout c"

definition Finished :: "'c rpc_controller \<Rightarrow> bool" where
  "Finished c = m_is_finished c"

lemmas controller_views = Failed_def ErrorText_def IsCanceled_def GetErrorCode_def GetErrorInfo_def GetMsgId_def
  GetLocalAddr_def GetPeerAddr_def GetTimeout_def Finished_def

section \<open>Histories\<close>

datatype 'c controller_op =
    OpStartCancel
  | OpNotifyOnCancel 'c
  | OpSetCancelCallback 'c
  | OpClearCancelCallback
  | OpSetFinished bool
  | OpSetError int32 string
  | OpSetFailed string
  | OpSetTimeout int
  | OpSetMsgId string

fun apply_op :: "'c controller_op \<Rightarrow> 'c rpc_controller \<Rightarrow> 'c rpc_controller \<times> 'c list" where
  "apply_op OpStartCancel c = StartCancel c"
| "apply_op (OpNotifyOnCancel x) c = NotifyOnCancel (Some x) c"
| "apply_op (OpSetCancelCallback x) c = SetCancelCallback (Some x) c"
| "apply_op OpClearCancelCallback c = (ClearCancelCallback c, [])"
| "apply_op (OpSetFinished v) c = (SetFinished v c, [])"
| "apply_op (OpSetError e i) c = (SetError e i c, [])"
| "apply_op (OpSetFailed r) c = (SetFailed r c, [])"
| "apply_op (OpSetTimeout t) c = (SetTimeout t c, [])"
| "apply_op (OpSetMsgId i) c = (SetMsgId i c, [])"

fun controller_ops :: "'c controller_op list \<Rightarrow> 'c rpc_controller \<Rightarrow> 'c rpc_controller \<times> 'c list" where
  "controller_ops [] c = (c, [])"
| "controller_ops (x # xs) c =
     (let (c1, ns1) = apply_op x c; (c2, ns2) = controller_ops xs c1 in (c2, ns1 @ ns2))"

fun registered :: "'c controller_op list \<Rightarrow> 'c list" where
  "registered [] = []"
| "registered (OpNotifyOnCancel x # xs) = x # registered xs"
| "registered (OpSetCancelCallback x # xs) = x # registered xs"
| "registered (_ # xs) = registered xs"

definition waiting :: "'c rpc_controller \<Rightarrow> 'c list" where
  "waiting c = (case m_cancel_closure c of None \<Rightarrow> [] | Some x \<Rightarrow> [x]) @ (case m_cancel_callback c of None \<Rightarrow> [] | Some x \<Rightarrow> [x])"

lemma apply_op_waiting:
  assumes "distinct (waiting c @ registered [x])" and "apply_op x c = (c', ns)"
  shows "distinct (ns @ waiting c') \<and> set (ns @ waiting c') \<subseteq> set (waiting c @ registered [x])"
  using assms
  by (cases x)
    (auto simp: waiting_def StartCancel_def NotifyOnCancel_def SetCancelCallback_def ClearCancelCallback_def
      SetFinished_def SetError_def SetFailed_def SetTimeout_def SetMsgId_def Let_def split: option.splits if_splits)

lemma registered_Cons: "registered (x # xs) = registered [x] @ registered xs"
  by (cases x) simp_all

lemma controller_ops_ran:
  assumes "distinct (waiting c @ registered xs)" and "controller_ops xs c = (c', ns)"
  shows "distinct ns \<and> set ns \<subseteq> set (waiting c) \<union> set (registered xs)"
  using assms
proof (induction xs arbitrary: c c' ns)
  case (Cons x xs)
  obtain c1 ns1 ns2 where op: "apply_op x c = (c1, ns1)" "controller_ops xs c1 = (c', ns2)" "ns = ns1 @ ns2"
    using Cons.prems(2) by (auto split: prod.splits)
  have d: "distinct (waiting c @ registered [x] @ registered xs)"
    using Cons.prems(1) registered_Cons [of x xs] by simp
  have one: "distinct (ns1 @ waiting c1)" "set (ns1 @ waiting c1) \<subseteq> set (waiting c @ registered [x])"
    using apply_op_waiting [OF _ op(1)] d by auto
  have "distinct (waiting c1 @ registered xs)"
    using one d by auto
  note rest = Cons.IH [OF this op(2)]
  have "set ns1 \<inter> set ns2 = {}"
    using rest one d by (simp add: disjoint_iff) blast
  with rest one d show ?case
    unfolding op(3) registered_Cons [of x xs] by auto
qed simp

section \<open>Properties\<close>

text \<open>
  Cancellation notifies at most once: over any history of controller operations, interleaved
  in any order by any number of threads, each registered cancel notification is run at most once,
  and only registered ones are run.
\<close>

theorem cancel_notified_at_most_once:
  assumes "distinct (registered xs)" and "controller_ops xs newRpcController = (c, ns)"
  shows "distinct ns \<and> set ns \<subseteq> set (registered xs)"
  using controller_ops_ran [of newRpcController xs c ns] assms by (simp add: waiting_def newRpcController_def)

theorem cancel_notified_at_most_once_witness:
  "snd (controller_ops [OpNotifyOnCancel ''n'', OpSetCancelCallback ''c'', OpStartCancel, OpStartCancel] newRpcController) = [''n'', ''c''] \<and>
   distinct (snd (controller_ops [OpNotifyOnCancel ''n'', OpSetCancelCallback ''c'', OpStartCancel, OpStartCancel] newRpcController))"
  using cancel_notified_at_most_once [of "[OpNotifyOnCancel ''n'', OpSetCancelCallback ''c'', OpStartCancel, OpStartCancel]"]
  by (simp add: newRpcController_def NotifyOnCancel_def SetCancelCallback_def StartCancel_def)

text \<open>
  Cancelling: on a call that is neither finished nor cancelled, \<open>StartCancel\<close> runs exactly the
  waiting notifications and marks the call cancelled; notifications registered later run at once;
  a second cancel, or a cancel of a finished call, runs nothing and changes nothing.
\<close>

theorem start_cancel_runs_waiting:
  "snd (StartCancel c) = (if rc_is_cancled c \<or> m_is_finished c then [] else waiting c) \<and>
   (rc_is_cancled (fst (StartCancel c)) \<longleftrightarrow> rc_is_cancled c \<or> \<not> m_is_finished c) \<and>
   StartCancel (fst (StartCancel c)) = (fst (StartCancel c), []) \<and>
   snd (NotifyOnCancel (Some x) c) = (if rc_is_cancled c then [x] else []) \<and>
   snd (SetCancelCallback (Some x) c) = (if rc_is_cancled c then [x] else [])"
  by (simp add: StartCancel_def waiting_def NotifyOnCancel_def SetCancelCallback_def Let_def)

end
