(* ===== verification/MsgId.thy ===== *)
theory MsgId
  imports CppString
begin

text \<open>
  Message ids (\<open>net/rpc/msg_id_util.cc\<close>): a thread-local decimal counter of twenty digits that is
  seeded from \<open>/dev/urandom\<close>. The bytes a read of the device returns are an input of the model;
  anything but twenty bytes is the failing read. The counter loop indexes the string downwards
  with a \<open>size_t\<close>; running below index zero is the fault \<open>OutOfRange\<close>.
\<close>

definition g_msg_id_length :: nat where
  "g_msg_id_length = 20"

record msg_id_state =
  t_msg_id_no :: string
  t_max_msg_id_no :: string

definition new_msg_id_state :: msg_id_state where
  "new_msg_id_state = \<lparr>t_msg_id_no = [], t_max_msg_id_no = []\<rparr>"

text \<open>\<open>while (t_msg_id_no[i] == '9') i--;\<close>\<close>

fun carry_index :: "string \<Rightarrow> nat \<Rightarrow> nat cpp" where
  "carry_index s i =
     (if s ! i \<noteq> CHR ''9'' then Inr i
      else if i = 0 then Inl OutOfRange
      else carry_index s (i - 1))"

declare carry_index.simps [simp del]

definition GenMsgID :: "byte list \<Rightarrow> msg_id_state \<Rightarrow> (string \<times> msg_id_state) cpp" where
  "GenMsgID urandom st =
     (if t_msg_id_no st = [] \<or> t_msg_id_no st = t_max_msg_id_no st then
        if length urandom \<noteq> g_msg_id_length then Inr ([], st)
        else
          let res = map (\<lambda>c. char_of ((of_char c :: nat) mod 10 + 48)) urandom in
          Inr (res, \<lparr>t_msg_id_no = res,
                     t_max_msg_id_no = t_max_msg_id_no st @ replicate g_msg_id_length CHR ''9''\<rparr>)
      else
        bind_cpp (carry_index (t_msg_id_no st) (length (t_msg_id_no st) - 1)) (\<lambda>i.
          let s = (t_msg_id_no st)[i := char_of ((of_char (t_msg_id_no st ! i) :: nat) + 1)];
              s' = take (i + 1) s @ replicate (length s - (i + 1)) CHR ''0''
          in Inr (s', st\<lparr>t_msg_id_no := s'\<rparr>)))"

section \<open>Counting\<close>

definition is_decimal :: "string \<Rightarrow> bool" where
  "is_decimal s \<longleftrightarrow> (\<forall>c \<in> set s. is_digit c)"

lemma nine_zero [simp]:
  "is_digit CHR ''9''" "is_digit CHR ''0''" "digit_value CHR ''9'' = 9" "digit_value CHR ''0'' = 0"
  by (simp_all add: is_digit_def digit_value_def)

lemma dec_value_zeros: "dec_value acc (replicate k CHR ''0'') = acc * 10 ^ k"
  by (induction k arbitrary: acc) simp_all

lemma dec_value_nines: "dec_value acc (replicate k CHR ''9'') + 1 = (acc + 1) * 10 ^ k"
proof (induction k arbitrary: acc)
  case (Suc k)
  then show ?case
    using Suc.IH [of "10 * acc + 9"] by (simp add: algebra_simps)
qed simp

lemma carry_index_nines:
  assumes "s = pre @ d # replicate k CHR ''9''" and "d \<noteq> CHR ''9''"
  shows "carry_index s (length pre + k) = Inr (length pre)"
  using assms(1)
proof (induction k arbitrary: s)
  case 0
  then show ?case
    using assms(2) by (simp add: carry_index.simps [of "pre @ [d]"])
next
  case (Suc k)
  define t where "t = pre @ d # replicate k CHR ''9''"
  have s: "s = t @ [CHR ''9'']"
    using Suc.prems by (simp add: t_def replicate_append_same)
  have prefix: "carry_index (t @ [c]) i = carry_index t i" if "i < length t" for c i
    using that
  proof (induction i)
    case 0
    then show ?case by (simp add: carry_index.simps [of _ 0] nth_append)
  next
    case (Suc i)
    then show ?case by (simp add: carry_index.simps [of _ "Suc i"] nth_append)
  qed
  have "carry_index s (length pre + Suc k) = carry_index s (length pre + k)"
    using s by (subst carry_index.simps) (simp add: t_def nth_append)
  then show ?case
    using Suc.IH [OF t_def] prefix [of "length pre + k"] s by (simp add: t_def)
qed

lemma decimal_split:
  assumes "is_decimal s" and "s \<noteq> replicate (length s) CHR ''9''"
  obtains pre d k where "s = pre @ d # replicate k CHR ''9''" and "d \<noteq> CHR ''9''"
proof -
  have "\<exists>c \<in> set s. c \<noteq> CHR ''9''"
    using assms(2) by (metis replicate_eqI)
  then obtain pre d post where "s = pre @ d # post" "d \<noteq> CHR ''9''" "\<forall>c \<in> set post. \<not> c \<noteq> CHR ''9''"
    by (rule split_list_last_propE) blast
  moreover have "post = replicate (length post) CHR ''9''"
    using calculation(3) by (intro replicate_eqI) auto
  ultimately show ?thesis using that by metis
qed

lemma successor_digit:
  assumes "is_digit d" and "d \<noteq> CHR ''9''"
  shows "is_digit (char_of ((of_char d :: nat) + 1))"
    and "digit_value (char_of ((of_char d :: nat) + 1)) = digit_value d + 1"
proof -
  have "(of_char d :: nat) \<noteq> 57"
    using assms(2) of_char_eq_iff [of d "CHR ''9''", where 'a = nat] by simp
  then show "is_digit (char_of ((of_char d :: nat) + 1))"
    and "digit_value (char_of ((of_char d :: nat) + 1)) = digit_value d + 1"
    using assms(1) by (auto simp: is_digit_def digit_value_def)
qed

text \<open>One step of the counter.\<close>

definition counting :: "msg_id_state \<Rightarrow> bool" where
  "counting st \<longleftrightarrow> is_decimal (t_msg_id_no st) \<and> length (t_msg_id_no st) = g_msg_id_length \<and>
     t_max_msg_id_no st = replicate g_msg_id_length CHR ''9''"

lemma GenMsgID_seed:
  assumes "length urandom = g_msg_id_length"
  shows "\<exists>res st'. GenMsgID urandom new_msg_id_state = Inr (res, st') \<and> counting st' \<and> t_msg_id_no st' = res"
proof -
  have "is_digit (char_of ((of_char c :: nat) mod 10 + 48))" for c :: char
  proof -
    have "(of_char c :: nat) mod 10 < 10" by simp
    then show ?thesis by (simp add: is_digit_def)
  qed
  with assms show ?thesis
    by (auto simp: GenMsgID_def new_msg_id_state_def counting_def is_decimal_def Let_def)
qed

lemma GenMsgID_count:
  assumes "counting st" and "dec_value 0 (t_msg_id_no st) + 1 < 10 ^ g_msg_id_length"
  shows "\<exists>res st'. GenMsgID urandom st = Inr (res, st') \<and> counting st' \<and> t_msg_id_no st' = res \<and>
           dec_value 0 res = dec_value 0 (t_msg_id_no st) + 1"
proof -
  define s where "s = t_msg_id_no st"
  have dec: "is_decimal s" and len: "length s = g_msg_id_length"
    using assms(1) by (simp_all add: counting_def s_def)
  have ne: "s \<noteq> replicate (length s) CHR ''9''"
    using assms(2) dec_value_nines [of 0 "length s"] len unfolding s_def by (metis add_0 less_irrefl mult_1)
  obtain pre d k where s: "s = pre @ d # replicate k CHR ''9''" and d: "d \<noteq> CHR ''9''"
    using decimal_split [OF dec ne] .
  define d' where "d' = char_of ((of_char d :: nat) + 1)"
  have digits: "\<forall>c \<in> set pre. is_digit c" "is_digit d"
    using dec s by (auto simp: is_decimal_def)
  note d' = successor_digit [OF digits(2) d, folded d'_def]
  define t where "t = pre @ d' # replicate k CHR ''0''"
  have "length s - 1 = length pre + k"
    by (simp add: s)
  then have i: "carry_index s (length s - 1) = Inr (length pre)"
    using carry_index_nines [OF s d] by simp
  have "take (length pre + 1) (s[length pre := d']) @ replicate (length s - (length pre + 1)) CHR ''0'' = t"
    by (simp add: s t_def)
  moreover have "s ! length pre = d" "s \<noteq> []" and dd: "char_of (Suc (of_char d)) = d'"
    by (simp_all add: s d'_def)
  ultimately have gen: "GenMsgID urandom st = Inr (t, st\<lparr>t_msg_id_no := t\<rparr>)"
    using assms(1) ne len i
    by (simp add: GenMsgID_def counting_def s_def [symmetric] Let_def dd)
  have "dec_value 0 s + 1 = dec_value 0 t"
    using digits d' dec_value_nines [of "10 * dec_value 0 pre + digit_value d" k]
    by (simp add: s t_def dec_value_append dec_value_zeros)
  moreover have "counting (st\<lparr>t_msg_id_no := t\<rparr>)"
    using assms(1) digits d' len by (auto simp: counting_def is_decimal_def t_def s)
  ultimately show ?thesis
    using gen by (simp add: s_def)
qed

text \<open>A run of calls; the second component collects the ids handed out.\<close>

fun gen_ids :: "byte list list \<Rightarrow> msg_id_state \<Rightarrow> (string list \<times> msg_id_state) cpp" where
  "gen_ids [] st = Inr ([], st)"
| "gen_ids (u # us) st =
     bind_cpp (GenMsgID u st) (\<lambda>(i, st1). bind_cpp (gen_ids us st1) (\<lambda>(is, st2). Inr (i # is, st2)))"

lemma gen_ids_count:
  assumes "counting st" and "dec_value 0 (t_msg_id_no st) + length us < 10 ^ g_msg_id_length"
  shows "\<exists>is st'. gen_ids us st = Inr (is, st') \<and> counting st' \<and>
     map (dec_value 0) is = map (\<lambda>i. dec_value 0 (t_msg_id_no st) + Suc i) [0..<length us] \<and>
     (\<forall>i \<in> set is. is_decimal i \<and> length i = g_msg_id_length)"
  using assms
proof (induction us arbitrary: st)
  case (Cons u us)
  obtain i st1 where i: "GenMsgID u st = Inr (i, st1)" "counting st1" "t_msg_id_no st1 = i"
      "dec_value 0 i = dec_value 0 (t_msg_id_no st) + 1"
    using GenMsgID_count [of st u] Cons.prems by auto
  then obtain "is" st2 where "gen_ids us st1 = Inr (is, st2)" "counting st2"
      "map (dec_value 0) is = map (\<lambda>j. dec_value 0 i + Suc j) [0..<length us]"
      "\<forall>i \<in> set is. is_decimal i \<and> length i = g_msg_id_length"
    using Cons.IH [of st1] Cons.prems by auto
  with i show ?case
    by (simp add: counting_def map_upt_Suc del: upt_Suc)
qed simp

section \<open>Properties\<close>

text \<open>
  C38. Ids are consecutive decimal numbers: starting from a freshly seeded counter, every id, the
  first one and those of all later calls up to the largest twenty-digit number, consists of
  twenty decimal digits and is read as a number one larger than the id before it; so no id of the run is
  handed out twice, and no call runs off the string.
\<close>

theorem message_ids_distinct:
  assumes "length seed = g_msg_id_length" and "GenMsgID seed new_msg_id_state = Inr (first, st)"
    and "dec_value 0 first + length us < 10 ^ g_msg_id_length"
  shows "\<exists>is st'. gen_ids us st = Inr (is, st') \<and> distinct (first # is) \<and>
           (\<forall>i \<in> set (first # is). is_decimal i \<and> length i = g_msg_id_length) \<and>
           map (dec_value 0) (first # is) = map (\<lambda>i. dec_value 0 first + i) [0..<length us + 1]"
proof -
  have c: "counting st" "t_msg_id_no st = first"
    using GenMsgID_seed [OF assms(1)] assms(2) by auto
  obtain "is" st' where g: "gen_ids us st = Inr (is, st')"
      "map (dec_value 0) is = map (\<lambda>i. dec_value 0 first + Suc i) [0..<length us]"
      "\<forall>i \<in> set is. is_decimal i \<and> length i = g_msg_id_length"
    using gen_ids_count [of st us] c assms(3) by auto
  have v: "map (dec_value 0) (first # is) = map (\<lambda>i. dec_value 0 first + i) [0..<length us + 1]"
    using g(2) by (simp add: map_upt_Suc del: upt_Suc)
  moreover have "distinct (map (\<lambda>i. dec_value 0 first + i) [0..<length us + 1])"
    by (simp add: distinct_map inj_on_def)
  ultimately have "distinct (first # is)"
    by (metis distinct_map)
  moreover have "is_decimal first \<and> length first = g_msg_id_length"
    using c by (auto simp: counting_def)
  ultimately show ?thesis
    using g(1,3) v by auto
qed

theorem message_ids_distinct_witness:
  "\<exists>is st'. gen_ids [[], []] \<lparr>t_msg_id_no = replicate 20 CHR ''0'', t_max_msg_id_no = replicate 20 CHR ''9''\<rparr> =
       Inr (is, st') \<and> distinct (replicate 20 CHR ''0'' # is) \<and> map (dec_value 0) is = [1, 2]"
proof -
  define st where "st = \<lparr>t_msg_id_no = replicate 20 CHR ''0'', t_max_msg_id_no = replicate 20 CHR ''9''\<rparr>"
  have zero: "char_of (48 :: nat) = CHR ''0''"
    by code_simp
  have "GenMsgID (replicate 20 (CHR 0x0A)) new_msg_id_state = Inr (replicate 20 CHR ''0'', st)"
    using zero by (simp add: GenMsgID_def new_msg_id_state_def g_msg_id_length_def st_def Let_def map_replicate)
  then show ?thesis
    using message_ids_distinct [of "replicate 20 (CHR 0x0A)" "replicate 20 CHR ''0''" st "[[], []]"]
      dec_value_zeros [of 0 20]
    by (auto simp add: g_msg_id_length_def st_def upt_rec)
qed

text \<open>
  The counter does not survive its second wrap-around: reseeding appends twenty more nines
  to the stored maximum instead of replacing it, so from then on no twenty-digit id equals it,
  and the id of twenty nines makes the next call index the string below zero.
\<close>

theorem second_wrap_faults:
  "\<exists>res st'. GenMsgID (replicate 20 seed) \<lparr>t_msg_id_no = replicate 20 CHR ''9'', t_max_msg_id_no = replicate 20 CHR ''9''\<rparr>
       = Inr (res, st') \<and> t_max_msg_id_no st' = replicate 40 CHR ''9'' \<and>
     GenMsgID urandom (st'\<lparr>t_msg_id_no := replicate 20 CHR ''9''\<rparr>) = Inl OutOfRange"
proof -
  have nines: "carry_index (replicate n CHR ''9'') i = Inl OutOfRange" if "i < n" for i n
    using that
  proof (induction i)
    case 0
    then show ?case by (simp add: carry_index.simps [of _ 0])
  next
    case (Suc i)
    then show ?case by (simp add: carry_index.simps [of _ "Suc i"])
  qed
  have "replicate 20 CHR ''9'' @ replicate 20 CHR ''9'' = replicate 40 CHR ''9''"
    by (simp add: replicate_add [symmetric])
  moreover have "replicate 20 CHR ''9'' \<noteq> replicate 40 CHR ''9''"
    by (simp add: replicate_eq_replicate)
  ultimately show ?thesis
    using nines [of 19 20] by (simp add: GenMsgID_def g_msg_id_length_def Let_def)
qed

end
