(* ===== verification/RpcChannel.thy ===== *)
theory RpcChannel
  imports RpcController ServiceDiscovery MsgId ErrCode TinyPBCoder
begin

text \<open>
  The client side of a call (\<open>net/rpc/rpc_channel.h\<close>, \<open>net/rpc/rpc_channel.cc\<close>): \<open>CallMethod\<close> up
  to the point where the request is handed to the connection, and the request state with the
  callbacks that can complete it. The protobuf messages are parameters (the serialized request,
  a parser for the response). The calls on the \<open>TcpClient\<close> are recorded in the order they are
  made. A parser stands for \<open>ParseFromString\<close>: whether it accepts the bytes and what the message holds
  afterwards, which after a failure is whatever was read before it. Weak references to the request state fail once the channel has dropped it, which is the
  flag \<open>state_alive\<close>; \<open>rs_owner\<close> says whether \<open>owner.lock()\<close> yields that channel, which it does
  when the channel is held by a \<open>shared_ptr\<close>. The controller and the response of the call are the
  ones given to \<open>Init\<close>, as the macros of \<open>rpc_channel.h\<close> arrange it.
\<close>

section \<open>The request state\<close>

datatype client_call =
    SetDisconnectCallback bool
  | RemoveReadMessage string
  | DeleteTimerEvent
  | Disconnect
  | StopClient
  | AddTimerEvent int
  | Connect
  | WriteMessage tinypb
  | ReadMessage string

record ('c, 'r) request_state =
  rs_controller :: "'c rpc_controller"
  rs_response :: "'r option"
  rs_closure :: bool
  rs_client :: bool
  rs_timer :: bool
  rs_msg_id :: string
  completed :: bool
  rs_owner :: bool
  state_alive :: bool
  client_calls :: "client_call list"
  closure_runs :: nat

definition client_do :: "client_call list \<Rightarrow> ('c, 'r) request_state \<Rightarrow> ('c, 'r) request_state" where
  "client_do calls s = s\<lparr>client_calls := client_calls s @ calls\<rparr>"

definition beginCompletion :: "('c, 'r) request_state \<Rightarrow> bool \<times> ('c, 'r) request_state" where
  "beginCompletion s =
     (if completed s then (False, s)
      else
        let s = s\<lparr>completed := True\<rparr>;
            s = s\<lparr>rs_controller := SetFinished True (rs_controller s)\<rparr>;
            s = (if rs_client s
                 then client_do ([SetDisconnectCallback False, RemoveReadMessage (rs_msg_id s)] @
                        (if rs_timer s then [DeleteTimerEvent] else [])) s
                 else s)
        in (True, s\<lparr>rs_controller := ClearCancelCallback (rs_controller s)\<rparr>))"

text \<open>\<open>finish\<close> drops the client, and the owning channel, if it can be locked, drops the state.\<close>

definition finish :: "int32 \<Rightarrow> string \<Rightarrow> ('c, 'r) request_state \<Rightarrow> ('c, 'r) request_state" where
  "finish error_code error_info s =
     (let c = rs_controller s;
          c = (if error_code \<noteq> 0 then SetError error_code error_info c else c);
          s = s\<lparr>rs_controller := SetFinished True c\<rparr>;
          has_closure = rs_closure s;
          s = s\<lparr>rs_closure := False, rs_timer := False\<rparr>;
          s = (if rs_client s then client_do [SetDisconnectCallback False, Disconnect, StopClient] s else s);
          s = (if has_closure then s\<lparr>closure_runs := Suc (closure_runs s)\<rparr> else s);
          s = s\<lparr>rs_client := False\<rparr>
      in if rs_owner s then s\<lparr>state_alive := False\<rparr> else s)"

text \<open>\<open>if (current != nullptr && current->beginCompletion()) current->finish(...)\<close>\<close>

definition complete_with :: "int32 \<Rightarrow> string \<Rightarrow> ('c, 'r) request_state \<Rightarrow> ('c, 'r) request_state" where
  "complete_with error_code error_info s =
     (if \<not> state_alive s then s
      else case beginCompletion s of (True, s') \<Rightarrow> finish error_code error_info s' | (False, s') \<Rightarrow> s')"

section \<open>The callbacks\<close>

definition on_cancelled :: "('c, 'r) request_state \<Rightarrow> ('c, 'r) request_state" where
  "on_cancelled s = complete_with ERROR_RPC_CALL_CANCELLED ''rpc call cancelled'' s"

definition on_timeout :: "('c, 'r) request_state \<Rightarrow> ('c, 'r) request_state" where
  "on_timeout s = complete_with ERROR_RPC_CALL_TIMEOUT ''rpc call timeout'' s"

definition on_disconnected :: "('c, 'r) request_state \<Rightarrow> ('c, 'r) request_state" where
  "on_disconnected s = complete_with ERROR_RPC_TRANSPORT ''rpc transport disconnected'' s"

definition on_connected :: "int32 \<Rightarrow> string \<Rightarrow> tinypb \<Rightarrow> ('c, 'r) request_state \<Rightarrow> ('c, 'r) request_state" where
  "on_connected connect_error_code connect_error_info req_protocol s =
     (if \<not> state_alive s \<or> completed s then s
      else if connect_error_code \<noteq> 0 then complete_with connect_error_code connect_error_info s
      else client_do [WriteMessage req_protocol] s)"

definition on_written :: "tinypb \<Rightarrow> ('c, 'r) request_state \<Rightarrow> ('c, 'r) request_state" where
  "on_written req_protocol s =
     (if \<not> state_alive s \<or> completed s then s else client_do [ReadMessage (m_msg_id req_protocol)] s)"

definition on_response :: "(string \<Rightarrow> bool \<times> 'r) \<Rightarrow> protocol \<Rightarrow> ('c, 'r) request_state \<Rightarrow> ('c, 'r) request_state" where
  "on_response parse message s =
     (if \<not> state_alive s then s
      else
        case beginCompletion s of
          (False, s') \<Rightarrow> s'
        | (True, s') \<Rightarrow>
            (case message of
               StringP _ \<Rightarrow> finish ERROR_FAILED_GET_REPLY ''invalid rpc response'' s'
             | TinyPB response \<Rightarrow>
                 (let (parsed, r) = parse (m_pb_data response);
                      s' = s'\<lparr>rs_response := Some r\<rparr>
                  in if \<not> parsed then finish ERROR_FAILED_SERIALIZE ''failed to deserialize response'' s'
                     else if m_err_code response \<noteq> 0 then finish (m_err_code response) (m_err_info response) s'
                     else finish 0 [] s')))"

datatype channel_event =
    CancelTask
  | TimerFired
  | Disconnected
  | ConnectDone int32 string
  | RequestWritten
  | ResponseArrived protocol
  | OwnerGone

fun handle_event :: "(string \<Rightarrow> bool \<times> 'r) \<Rightarrow> tinypb \<Rightarrow> channel_event \<Rightarrow> ('c, 'r) request_state \<Rightarrow> ('c, 'r) request_state" where
  "handle_event parse req CancelTask s = on_cancelled s"
| "handle_event parse req TimerFired s = on_timeout s"
| "handle_event parse req Disconnected s = on_disconnected s"
| "handle_event parse req (ConnectDone code info) s = on_connected code info req s"
| "handle_event parse req RequestWritten s = on_written req s"
| "handle_event parse req (ResponseArrived m) s = on_response parse m s"
| "handle_event parse req OwnerGone s = s\<lparr>state_alive := False\<rparr>"

section \<open>Starting a call\<close>

definition FindAddr :: "(string \<Rightarrow> int32) \<Rightarrow> (string, rpc_stub) std_map \<Rightarrow> string \<Rightarrow> ip_net_addr option" where
  "FindAddr inet stubs str =
     (if CheckValid str then Some (IPNetAddr_parse inet str) else map_option stub_addr (map_find stubs str))"

text \<open>
  The members that \<open>Init\<close> sets, once, and \<open>callBack\<close>, which runs the closure of a call that has not
  finished; \<open>m_closure\<close> says whether there is one and \<open>callbacks\<close> counts its runs.
\<close>

record ('c, 'q, 'r) rpc_channel =
  m_controller :: "'c rpc_controller option"
  m_request :: "'q option"
  m_response :: "'r option"
  m_closure :: bool
  m_is_init :: bool
  callbacks :: nat

definition newRpcChannel :: "('c, 'q, 'r) rpc_channel" where
  "newRpcChannel = \<lparr>m_controller = None, m_request = None, m_response = None, m_closure = False, m_is_init = False, callbacks = 0\<rparr>"

definition Init ::
  "'c rpc_controller option \<Rightarrow> 'q option \<Rightarrow> 'r option \<Rightarrow> bool \<Rightarrow> ('c, 'q, 'r) rpc_channel \<Rightarrow> ('c, 'q, 'r) rpc_channel" where
  "Init controller req res has_closure ch =
     (if m_is_init ch then ch
      else ch\<lparr>m_controller := controller, m_request := req, m_response := res, m_closure := has_closure, m_is_init := True\<rparr>)"

definition callBack :: "('c, 'q, 'r) rpc_channel \<Rightarrow> ('c, 'q, 'r) rpc_channel" where
  "callBack ch =
     (case m_controller ch of
        None \<Rightarrow> ch
      | Some c \<Rightarrow>
          if m_is_finished c then ch
          else
            let ch = (if m_closure ch then ch\<lparr>callbacks := Suc (callbacks ch)\<rparr> else ch)
            in ch\<lparr>m_controller := Some (SetFinished True c)\<rparr>)"

lemma Init_once: "Init c' q' r' d' (Init c q r d ch) = Init c q r d ch"
  by (simp add: Init_def)

lemma callBack_once: "callBack (callBack ch) = callBack ch"
  by (auto simp: callBack_def SetFinished_def Let_def split: option.splits)

text \<open>The controller, and how often \<open>done\<close> has been run.\<close>

definition completeSynchronously ::
  "bool \<Rightarrow> int32 \<Rightarrow> string \<Rightarrow> 'c rpc_controller \<Rightarrow> 'c rpc_controller \<times> nat" where
  "completeSynchronously has_done error_code error_info c =
     (SetFinished True (SetError error_code error_info c), if has_done then 1 else 0)"

record call_input =
  ci_controller_ok :: bool
  ci_arguments_ok :: bool
  ci_method_full_name :: string
  ci_runtime_msg_id :: string
  ci_urandom :: "byte list"
  ci_msg_id_state :: msg_id_state
  ci_exchange :: exchange
  ci_is_init :: bool
  ci_has_done :: bool
  ci_has_closure :: bool
  ci_shared :: bool
  ci_serialized :: "string option"

datatype ('c, 'r) call_result =
    ProcessExit
  | Ignored
  | Returned "'c rpc_controller" nat
  | Started "('c, 'r) request_state" tinypb

definition choose_msg_id :: "call_input \<Rightarrow> 'c rpc_controller \<Rightarrow> (string \<times> 'c rpc_controller) cpp" where
  "choose_msg_id i c =
     (if rc_msg_id c = [] then
        bind_cpp (if ci_runtime_msg_id i = [] then GenMsgID (ci_urandom i) (ci_msg_id_state i)
                  else Inr (ci_runtime_msg_id i, ci_msg_id_state i)) (\<lambda>(msg_id, _).
          Inr (msg_id, SetMsgId msg_id c))
      else Inr (rc_msg_id c, c))"

text \<open>
  \<open>ci_has_done\<close> and \<open>ci_has_closure\<close> say whether the argument \<open>done\<close> and the closure given to
  \<open>Init\<close> are non-null. \<open>ci_controller_ok\<close> says that the controller of the call is a
  \<open>talon::RpcController\<close>, the \<open>c\<close> below; a null one or one of another type makes \<open>CallMethod\<close> return at
  once without a trace (\<open>Ignored\<close>). \<open>ci_arguments_ok\<close> says that method, request and response are non-null.
  \<open>cancel\<close> stands for the closure that queues the cancellation task.
\<close>

definition start_request :: "'c \<Rightarrow> call_input \<Rightarrow> tinypb \<Rightarrow> 'c rpc_controller \<Rightarrow> ('c, 'r) request_state" where
  "start_request cancel i req c =
     (let (c, _) = SetCancelCallback (Some cancel) c in
      \<lparr>rs_controller = c, rs_response = None, rs_closure = (ci_has_closure i \<or> ci_has_done i), rs_client = True, rs_timer = True,
       rs_msg_id = m_msg_id req, completed = False, rs_owner = ci_shared i, state_alive = True,
       client_calls = [AddTimerEvent (m_timeout c), SetDisconnectCallback True, Connect], closure_runs = 0\<rparr>)"

definition return_completed :: "call_input \<Rightarrow> int32 \<Rightarrow> string \<Rightarrow> 'c rpc_controller \<Rightarrow> ('c, 'r) call_result" where
  "return_completed i code info c =
     (case completeSynchronously (ci_has_done i) code info c of (c', n) \<Rightarrow> Returned c' n)"

text \<open>The part of \<open>CallMethod\<close> behind the resolution of the address.\<close>

definition issue_request :: "'c \<Rightarrow> call_input \<Rightarrow> 'c rpc_controller \<Rightarrow> ('c, 'r) call_result cpp" where
  "issue_request cancel i c =
     bind_cpp (choose_msg_id i c) (\<lambda>(msg_id, c).
       let req = newTinyPB\<lparr>m_msg_id := msg_id, m_method_name := ci_method_full_name i\<rparr> in
       if \<not> ci_is_init i then Inr (return_completed i ERROR_RPC_CHANNEL_INIT ''RpcChannel not call init()'' c)
       else
         case ci_serialized i of
           None \<Rightarrow> Inr (return_completed i ERROR_FAILED_SERIALIZE ''failed to serialize request'' c)
         | Some data \<Rightarrow> (let req = req\<lparr>m_pb_data := data\<rparr> in Inr (Started (start_request cancel i req c) req)))"

definition CallMethod ::
  "'c \<Rightarrow> (string \<Rightarrow> int32) \<Rightarrow> (string, rpc_stub) std_map \<Rightarrow> call_input \<Rightarrow> 'c rpc_controller \<Rightarrow> ('c, 'r) call_result cpp" where
  "CallMethod cancel inet stubs i c =
     (if \<not> ci_controller_ok i then Inr Ignored
      else if \<not> ci_arguments_ok i
      then Inr (return_completed i ERROR_RPC_CHANNEL_INIT ''controller, method, request or response NULL'' c)
      else if rc_is_cancled c then Inr (return_completed i ERROR_RPC_CALL_CANCELLED ''rpc call cancelled'' c)
      else
        bind_cpp (serviceDiscovery (ci_exchange i)) (\<lambda>found.
        case found of
          None \<Rightarrow> Inr ProcessExit
        | Some server_addr \<Rightarrow>
            if server_addr = ''unknown host'' then Inr (return_completed i ERROR_RPC_PEER_ADDR ''service not found'' c)
            else if FindAddr inet stubs server_addr = None
                 then Inr (return_completed i ERROR_RPC_PEER_ADDR ''peer addr nullptr'' c)
            else issue_request cancel i c))"

text \<open>
  The controller a request uses: the one of \<open>Init\<close> if it is an \<open>RpcController\<close>, else the raw pointer
  of the call, which the request does not own. \<open>None\<close> is a null pointer or a controller of
  another type. The response and the closure are chosen the same way.
\<close>

definition aliasController :: "'p option \<Rightarrow> 'p option \<Rightarrow> 'p option" where
  "aliasController controller raw_controller = (case controller of Some typed \<Rightarrow> Some typed | None \<Rightarrow> raw_controller)"

section \<open>Completion\<close>

text \<open>
  The invariant of a request whose closure counts \<open>n\<close>: before the completion nothing has been run
  and the closure is there; after it the closure has been run.
\<close>

definition request_ok :: "nat \<Rightarrow> ('c, 'r) request_state \<Rightarrow> bool" where
  "request_ok n s \<longleftrightarrow>
     (if completed s then m_is_finished (rs_controller s) \<and> closure_runs s = n
      else closure_runs s = 0 \<and> n = (if rs_closure s then 1 else 0))"

lemma finish_simps [simp]:
  "completed (finish code info s) = completed s"
  "closure_runs (finish code info s) = closure_runs s + (if rs_closure s then 1 else 0)"
  "rs_response (finish code info s) = rs_response s"
  "m_is_finished (rs_controller (finish code info s))"
  "m_error_code (rs_controller (finish code info s)) = (if code \<noteq> 0 then code else m_error_code (rs_controller s))"
  "m_error_info (rs_controller (finish code info s)) = (if code \<noteq> 0 then info else m_error_info (rs_controller s))"
  "m_is_failed (rs_controller (finish code info s)) = (code \<noteq> 0 \<or> m_is_failed (rs_controller s))"
  by (simp_all add: finish_def client_do_def SetFinished_def SetError_def Let_def)

text \<open>What the caller reads from the controller when its closure runs.\<close>

lemma finish_view:
  "Finished (rs_controller (finish code info s))"
  "code \<noteq> 0 \<Longrightarrow> Failed (rs_controller (finish code info s)) \<and> GetErrorCode (rs_controller (finish code info s)) = code \<and>
     ErrorText (rs_controller (finish code info s)) = info"
  by (simp_all add: controller_views)

lemma beginCompletion_done [simp]: "completed s \<Longrightarrow> beginCompletion s = (False, s)"
  by (simp add: beginCompletion_def)

lemma beginCompletion_first:
  assumes "\<not> completed s"
  obtains s1 where "beginCompletion s = (True, s1)" "completed s1" "closure_runs s1 = closure_runs s"
    "rs_closure s1 = rs_closure s" "rs_response s1 = rs_response s"
    "m_error_code (rs_controller s1) = m_error_code (rs_controller s)"
    "m_is_failed (rs_controller s1) = m_is_failed (rs_controller s)"
  using assms that by (simp add: beginCompletion_def client_do_def SetFinished_def ClearCancelCallback_def Let_def)

text \<open>What a completing callback does to a request that is alive and not yet completed.\<close>

lemma complete_with_first:
  assumes "\<not> completed s" and "state_alive s"
  shows "\<exists>s1. complete_with code info s = finish code info s1 \<and> completed s1 \<and>
           closure_runs s1 = closure_runs s \<and> rs_closure s1 = rs_closure s"
  using assms(2) by (cases rule: beginCompletion_first [OF assms(1)]) (auto simp: complete_with_def)

lemma on_response_first:
  assumes "\<not> completed s" and "state_alive s"
  shows "\<exists>s1 code info. on_response parse m s = finish code info s1 \<and> completed s1 \<and>
           closure_runs s1 = closure_runs s \<and> rs_closure s1 = rs_closure s"
proof (cases rule: beginCompletion_first [OF assms(1)])
  case (1 s1)
  show ?thesis
  proof (cases m)
    case (TinyPB r)
    define s2 where "s2 = s1\<lparr>rs_response := Some (snd (parse (m_pb_data r)))\<rparr>"
    have "\<exists>code info. on_response parse m s = finish code info s2"
      using TinyPB 1 assms(2) by (auto simp: on_response_def Let_def s2_def split_beta)
    moreover have "completed s2 \<and> closure_runs s2 = closure_runs s \<and> rs_closure s2 = rs_closure s"
      using 1 by (simp add: s2_def)
    ultimately show ?thesis by blast
  next
    case (StringP r)
    with 1 assms(2) show ?thesis by (auto simp: on_response_def)
  qed
qed

text \<open>Events that complete a request whenever it is still alive.\<close>

fun completing :: "channel_event \<Rightarrow> bool" where
  "completing CancelTask = True"
| "completing TimerFired = True"
| "completing Disconnected = True"
| "completing (ConnectDone code info) = (code \<noteq> 0)"
| "completing (ResponseArrived m) = True"
| "completing RequestWritten = False"
| "completing OwnerGone = False"

lemmas callback_defs = on_cancelled_def on_timeout_def on_disconnected_def on_connected_def on_written_def

text \<open>An event either completes the request through \<open>finish\<close> or leaves it uncompleted.\<close>

lemma event_uncompleted:
  assumes "\<not> completed s" and "state_alive s"
  shows "(\<exists>s1 code info. handle_event parse req e s = finish code info s1 \<and> completed s1 \<and>
            closure_runs s1 = closure_runs s \<and> rs_closure s1 = rs_closure s) \<or>
         \<not> completing e \<and> \<not> completed (handle_event parse req e s) \<and>
         closure_runs (handle_event parse req e s) = closure_runs s \<and>
         rs_closure (handle_event parse req e s) = rs_closure s \<and>
         (e \<noteq> OwnerGone \<longrightarrow> state_alive (handle_event parse req e s))"
proof -
  have finishes: "\<exists>s1 code' info'. complete_with code info s = finish code' info' s1 \<and> completed s1 \<and>
      closure_runs s1 = closure_runs s \<and> rs_closure s1 = rs_closure s" for code info
    using complete_with_first [OF assms] by blast
  show ?thesis
proof (cases e)
  case (ResponseArrived m)
  with on_response_first [OF assms, of parse m] show ?thesis by auto
next
  case (ConnectDone code info)
  with finishes [of code info] assms show ?thesis
    by (cases "code = 0") (auto simp: on_connected_def client_do_def)
next
  case CancelTask
  with finishes show ?thesis by (simp add: on_cancelled_def)
next
  case TimerFired
  with finishes show ?thesis by (simp add: on_timeout_def)
next
  case Disconnected
  with finishes show ?thesis by (simp add: on_disconnected_def)
qed (use assms in \<open>auto simp: on_written_def client_do_def\<close>)
qed

lemma completed_event:
  "completed s \<or> \<not> state_alive s \<Longrightarrow> \<exists>a. handle_event parse req e s = s\<lparr>state_alive := a\<rparr>"
  by (cases e) (auto simp: callback_defs on_response_def complete_with_def intro: exI [of _ "state_alive s"])

lemma request_ok_event:
  assumes "request_ok n s"
  shows "request_ok n (handle_event parse req e s)"
proof (cases "completed s \<or> \<not> state_alive s")
  case True
  then obtain a where "handle_event parse req e s = s\<lparr>state_alive := a\<rparr>"
    using completed_event by blast
  with assms show ?thesis by (simp add: request_ok_def)
next
  case False
  with event_uncompleted [of s parse req e] assms show ?thesis
    by (auto simp: request_ok_def)
qed

lemma request_ok_events: "request_ok n s \<Longrightarrow> request_ok n (fold (handle_event parse req) es s)"
  by (induction es arbitrary: s) (simp_all add: request_ok_event)

lemma completed_events: "completed s \<Longrightarrow> \<exists>a. fold (handle_event parse req) es s = s\<lparr>state_alive := a\<rparr>"
proof (induction es arbitrary: s)
  case (Cons e es)
  obtain a where a: "handle_event parse req e s = s\<lparr>state_alive := a\<rparr>"
    using completed_event Cons.prems by blast
  with Cons.IH [of "s\<lparr>state_alive := a\<rparr>"] Cons.prems show ?case by auto
next
  case Nil
  show ?case by (rule exI [of _ "state_alive s"]) simp
qed

lemma completing_event:
  assumes "state_alive s \<or> completed s" and "completing e"
  shows "completed (handle_event parse req e s)"
proof (cases "completed s")
  case True
  then show ?thesis using completed_event [of s parse req e] by auto
next
  case False
  with assms event_uncompleted [of s parse req e] show ?thesis by auto
qed

lemma alive_event:
  assumes "state_alive s" and "e \<noteq> OwnerGone"
  shows "state_alive (handle_event parse req e s) \<or> completed (handle_event parse req e s)"
proof (cases "completed s")
  case True
  then show ?thesis using completed_event [of s parse req e] by auto
next
  case False
  with assms event_uncompleted [of s parse req e] show ?thesis by auto
qed

lemma alive_events:
  "state_alive s \<or> completed s \<Longrightarrow> OwnerGone \<notin> set es \<Longrightarrow>
     state_alive (fold (handle_event parse req) es s) \<or> completed (fold (handle_event parse req) es s)"
proof (induction es arbitrary: s)
  case (Cons e es)
  have "state_alive (handle_event parse req e s) \<or> completed (handle_event parse req e s)"
    using Cons.prems alive_event [of s e parse req] completed_event [of s parse req e] by auto
  with Cons show ?case by simp
qed simp

lemma request_ok_start:
  "request_ok (if ci_has_closure i \<or> ci_has_done i then 1 else 0) (start_request cancel i req c)"
  by (simp add: request_ok_def start_request_def Let_def split_beta)

lemma start_request_simps [simp]:
  "rs_msg_id (start_request cancel i req c) = m_msg_id req" "\<not> completed (start_request cancel i req c)"
  "closure_runs (start_request cancel i req c) = 0"
  by (simp_all add: start_request_def Let_def split_beta)

lemma return_completed_simps [simp]:
  "return_completed i code info c \<noteq> Started s req"
  "return_completed i code info c \<noteq> ProcessExit"
  "return_completed i code info c \<noteq> Ignored"
  "return_completed i code info c = Returned c' n \<longleftrightarrow>
     c' = SetFinished True (SetError code info c) \<and> n = (if ci_has_done i then 1 else 0)"
  by (auto simp: return_completed_def completeSynchronously_def)

lemma choose_msg_id_shape:
  "choose_msg_id i c = Inr (msg_id, c') \<Longrightarrow> rc_msg_id c' = msg_id \<and> (rc_msg_id c \<noteq> [] \<longrightarrow> msg_id = rc_msg_id c)"
  by (auto simp: choose_msg_id_def SetMsgId_def bind_cpp_eq_Inr split: if_splits)

lemma issue_request_shape:
  assumes "issue_request cancel i c = Inr result"
  shows "(\<exists>c' req. result = Started (start_request cancel i req c') req \<and> m_msg_id req = rc_msg_id c' \<and>
            (rc_msg_id c \<noteq> [] \<longrightarrow> m_msg_id req = rc_msg_id c) \<and>
            m_method_name req = ci_method_full_name i \<and> ci_serialized i = Some (m_pb_data req)) \<or>
         (\<exists>c' code info. result = return_completed i code info c' \<and> code \<noteq> 0)"
proof -
  obtain msg_id c1 where c1: "choose_msg_id i c = Inr (msg_id, c1)"
    using assms by (auto simp: issue_request_def bind_cpp_eq_Inr)
  show ?thesis
  proof (cases "ci_is_init i")
    case False
    then have "result = return_completed i ERROR_RPC_CHANNEL_INIT ''RpcChannel not call init()'' c1"
      using assms c1 by (simp add: issue_request_def)
    then show ?thesis using err_code_nonzero by blast
  next
    case True
    show ?thesis
    proof (cases "ci_serialized i")
      case None
      then have "result = return_completed i ERROR_FAILED_SERIALIZE ''failed to serialize request'' c1"
        using assms c1 True by (simp add: issue_request_def)
      then show ?thesis using err_code_nonzero by blast
    next
      case (Some data)
      define req where "req = newTinyPB\<lparr>m_msg_id := msg_id, m_method_name := ci_method_full_name i, m_pb_data := data\<rparr>"
      have "result = Started (start_request cancel i req c1) req"
        using assms c1 True Some by (simp add: issue_request_def Let_def req_def)
      moreover have "m_msg_id req = rc_msg_id c1 \<and> (rc_msg_id c \<noteq> [] \<longrightarrow> m_msg_id req = rc_msg_id c) \<and>
          m_method_name req = ci_method_full_name i \<and> ci_serialized i = Some (m_pb_data req)"
        using choose_msg_id_shape [OF c1] Some by (simp add: req_def)
      ultimately show ?thesis by blast
    qed
  qed
qed

lemma CallMethod_shape:
  assumes "CallMethod cancel inet stubs i c = Inr result"
  shows "result = ProcessExit \<or> \<not> ci_controller_ok i \<and> result = Ignored \<or> issue_request cancel i c = Inr result \<or>
         (\<exists>code info. result = return_completed i code info c \<and> code \<noteq> 0)"
proof -
  note codes = err_code_nonzero
  show ?thesis
  proof (cases "ci_controller_ok i \<and> ci_arguments_ok i \<and> \<not> rc_is_cancled c")
    case False
    then show ?thesis
      using assms codes by (auto simp: CallMethod_def split: if_splits)
  next
    case True
    then obtain found where f: "serviceDiscovery (ci_exchange i) = Inr found"
      using assms by (auto simp: CallMethod_def bind_cpp_eq_Inr)
    show ?thesis
    proof (cases found)
      case None
      with True f assms show ?thesis by (simp add: CallMethod_def)
    next
      case (Some addr)
      have "Inr result = (if addr = ''unknown host'' then Inr (return_completed i ERROR_RPC_PEER_ADDR ''service not found'' c)
          else if FindAddr inet stubs addr = None then Inr (return_completed i ERROR_RPC_PEER_ADDR ''peer addr nullptr'' c)
          else issue_request cancel i c)"
        using True f Some assms unfolding CallMethod_def by simp
      with codes show ?thesis by (auto split: if_splits)
    qed
  qed
qed

lemma Started_shape:
  assumes "CallMethod cancel inet stubs i c = Inr (Started s req)"
  shows "\<exists>c'. s = start_request cancel i req c'"
proof -
  have never: "Started s req \<noteq> return_completed i code info c'" for code info c'
    by (metis return_completed_simps(1))
  then have "issue_request cancel i c = Inr (Started s req)"
    using CallMethod_shape [OF assms] by auto
  with issue_request_shape [OF this] never show ?thesis by blast
qed

lemma Started_request:
  assumes "CallMethod cancel inet stubs i c = Inr (Started s req)"
  shows "m_method_name req = ci_method_full_name i"
proof -
  have never: "Started s req \<noteq> return_completed i code info c'" for code info c'
    by (metis return_completed_simps(1))
  then have "issue_request cancel i c = Inr (Started s req)"
    using CallMethod_shape [OF assms] by auto
  with issue_request_shape [OF this] never show ?thesis by auto
qed

text \<open>A response without error, first of all events.\<close>

lemma on_response_success:
  assumes "state_alive s" and "\<not> completed s" and "parse (m_pb_data m) = (True, r)" and "m_err_code m = 0"
  shows "rs_response (on_response parse (TinyPB m) s) = Some r"
    "m_error_code (rs_controller (on_response parse (TinyPB m) s)) = m_error_code (rs_controller s)"
    "m_is_failed (rs_controller (on_response parse (TinyPB m) s)) = m_is_failed (rs_controller s)"
proof -
  obtain s1 where "beginCompletion s = (True, s1)" "m_error_code (rs_controller s1) = m_error_code (rs_controller s)"
      "m_is_failed (rs_controller s1) = m_is_failed (rs_controller s)"
    by (rule beginCompletion_first [OF assms(2)])
  then show "rs_response (on_response parse (TinyPB m) s) = Some r"
    "m_error_code (rs_controller (on_response parse (TinyPB m) s)) = m_error_code (rs_controller s)"
    "m_is_failed (rs_controller (on_response parse (TinyPB m) s)) = m_is_failed (rs_controller s)"
    using assms(1,3,4) by (simp_all add: on_response_def Let_def)
qed

section \<open>Properties\<close>

text \<open>
  C6. A call completes exactly once: whatever the order in which cancellation, timeout, transport
  loss, connection result, write and response events reach a started request, its closure is run
  at most once, it has been run exactly when the request is completed, a completed request has a
  finished controller and no later event changes anything of it but whether it is still
  referenced, and as soon as one completing event reaches the request while its channel keeps it
  it is completed.
\<close>

theorem call_completes_exactly_once:
  assumes "CallMethod cancel inet stubs i c = Inr (Started s req)" and "ci_has_closure i \<or> ci_has_done i"
    and "s' = fold (handle_event parse req) es s"
  shows "closure_runs s' = (if completed s' then 1 else 0) \<and>
         (completed s' \<longrightarrow> m_is_finished (rs_controller s') \<and> (\<forall>es'. \<exists>a. fold (handle_event parse req) es' s' = s'\<lparr>state_alive := a\<rparr>)) \<and>
         (\<forall>pre e post. es = pre @ e # post \<and> completing e \<and> OwnerGone \<notin> set pre \<longrightarrow> completed s')"
proof -
  obtain c' where s: "s = start_request cancel i req c'"
    using Started_shape [OF assms(1)] by blast
  have ok: "request_ok 1 s"
    using request_ok_start [of i cancel req c'] assms(2) by (simp add: s)
  have alive: "state_alive s"
    by (simp add: s start_request_def Let_def split_beta)
  have ok': "request_ok 1 s'"
    using request_ok_events [OF ok] by (simp add: assms(3))
  have "completed s'" if es: "es = pre @ e # post" "completing e" "OwnerGone \<notin> set pre" for pre e post
  proof -
    define s1 where "s1 = handle_event parse req e (fold (handle_event parse req) pre s)"
    have "completed s1"
      using alive_events [of s pre parse req] alive es by (simp add: s1_def completing_event)
    moreover obtain a where "s' = s1\<lparr>state_alive := a\<rparr>"
      using completed_events [OF \<open>completed s1\<close>, of parse req post] by (auto simp: assms(3) es(1) s1_def)
    ultimately show ?thesis by simp
  qed
  then show ?thesis
    using ok' by (auto simp: request_ok_def completed_events split: if_splits)
qed

definition sample_call :: call_input where
  "sample_call = \<lparr>ci_controller_ok = True, ci_arguments_ok = True, ci_method_full_name = ''Order.make'', ci_runtime_msg_id = ''42'', ci_urandom = [],
     ci_msg_id_state = new_msg_id_state, ci_exchange = Answer ''h:80'', ci_is_init = True, ci_has_done = True,
     ci_has_closure = True, ci_shared = True, ci_serialized = Some ''data''\<rparr>"

lemma sample_addr_valid: "CheckValid ''h:80''"
proof -
  have "atoi ''80'' = 80"
    by (simp add: atoi_def strtol10_def is_space_def is_digit_def digit_value_def sint_word_of_int_32 INT_MIN_def INT_MAX_def)
  then show ?thesis
    by (simp add: CheckValid_def substr_def)
qed

lemma sample_call_starts:
  "\<exists>s req. CallMethod () (\<lambda>_. 1) [] sample_call newRpcController = Inr (Started s req)"
  using sample_addr_valid
  by (simp add: CallMethod_def sample_call_def newRpcController_def serviceDiscovery_def FindAddr_def issue_request_def
      choose_msg_id_def c_str_to_string_def Let_def)

theorem call_completes_exactly_once_witness:
  "\<exists>s req. CallMethod () (\<lambda>_. 1) [] sample_call newRpcController = Inr (Started s req) \<and>
     closure_runs (fold (handle_event (\<lambda>_. (False, 0 :: nat)) req) [RequestWritten, TimerFired, CancelTask, Disconnected] s) = 1"
proof -
  obtain s :: "(unit, nat) request_state" and req where
    c: "CallMethod () (\<lambda>_. 1) [] sample_call newRpcController = Inr (Started s req)"
    using sample_call_starts by blast
  have h: "ci_has_closure sample_call \<or> ci_has_done sample_call"
    by (simp add: sample_call_def)
  define s' where "s' = fold (handle_event (\<lambda>_. (False, 0)) req) [RequestWritten, TimerFired, CancelTask, Disconnected] s"
  note once = call_completes_exactly_once [OF c h s'_def]
  have "completed s'"
    using once [THEN conjunct2, THEN conjunct2, rule_format, of "[RequestWritten]" TimerFired "[CancelTask, Disconnected]"] by simp
  with once c show ?thesis unfolding s'_def by auto
qed

text \<open>
  C36. What the caller sees when a response is the first event to complete its request: a message
  of another protocol is reported as \<open>ERROR_FAILED_GET_REPLY\<close>; a body that parses is stored in the
  response, and a zero error code leaves the controller without an error while any other is
  reported with its text; a body that does not parse, of a response without an error code, is
  reported as \<open>ERROR_FAILED_SERIALIZE\<close>. In each case the request is completed, the closure has
  been run once more if there is one, and the controller is finished. (The remaining case, an error
  response whose body does not parse, is \<open>unparsable_error_is_lost\<close> below.)
\<close>

theorem response_outcome:
  assumes "state_alive s" and "\<not> completed s" and "s' = on_response parse message s"
    and "\<And>m. message = TinyPB m \<Longrightarrow> fst (parse (m_pb_data m)) \<or> m_err_code m = 0"
  shows "(case message of
            StringP _ \<Rightarrow> GetErrorCode (rs_controller s') = ERROR_FAILED_GET_REPLY \<and> Failed (rs_controller s') \<and>
              rs_response s' = rs_response s
          | TinyPB m \<Rightarrow>
              if \<not> fst (parse (m_pb_data m))
              then GetErrorCode (rs_controller s') = ERROR_FAILED_SERIALIZE \<and> Failed (rs_controller s')
              else rs_response s' = Some (snd (parse (m_pb_data m))) \<and>
                (if m_err_code m = 0
                 then GetErrorCode (rs_controller s') = GetErrorCode (rs_controller s) \<and>
                      Failed (rs_controller s') = Failed (rs_controller s)
                 else GetErrorCode (rs_controller s') = m_err_code m \<and> ErrorText (rs_controller s') = m_err_info m \<and>
                      Failed (rs_controller s'))) \<and>
         Finished (rs_controller s') \<and> completed s' \<and>
         closure_runs s' = closure_runs s + (if rs_closure s then 1 else 0)"
proof (cases rule: beginCompletion_first [OF assms(2)])
  case (1 s1)
  show ?thesis
  proof (cases message)
    case (TinyPB m)
    with 1 assms show ?thesis
      by (simp add: on_response_def Let_def split_beta controller_views)
  next
    case (StringP m)
    with 1 assms(1,3) show ?thesis by (simp add: on_response_def controller_views)
  qed
qed

theorem response_outcome_witness:
  "\<exists>s req. CallMethod () (\<lambda>_. 1) [] sample_call newRpcController = Inr (Started s req) \<and>
     rs_response (on_response (Pair True) (TinyPB (newTinyPB\<lparr>m_pb_data := ''ok''\<rparr>)) s) = Some ''ok'' \<and>
     GetErrorCode (rs_controller (on_response (Pair False) (TinyPB (newTinyPB\<lparr>m_pb_data := ''ok''\<rparr>)) s)) = ERROR_FAILED_SERIALIZE"
proof -
  obtain s :: "(unit, string) request_state" and req where
    c: "CallMethod () (\<lambda>_. 1) [] sample_call newRpcController = Inr (Started s req)"
    using sample_call_starts by blast
  obtain c' where "s = start_request () sample_call req c'"
    using Started_shape [OF c] by blast
  then have s: "state_alive s" "\<not> completed s"
    by (simp_all add: start_request_def Let_def split_beta)
  define m where "m = newTinyPB\<lparr>m_pb_data := ''ok''\<rparr>"
  have m: "m_err_code m = 0" "m_pb_data m = ''ok''"
    by (simp_all add: m_def newTinyPB_def)
  have "rs_response (on_response (Pair True) (TinyPB m) s) = Some ''ok''"
    using response_outcome [OF s refl, of "TinyPB m" "Pair True"] m by simp
  moreover have "GetErrorCode (rs_controller (on_response (Pair False) (TinyPB m) s)) = ERROR_FAILED_SERIALIZE"
    using response_outcome [OF s refl, of "TinyPB m" "Pair False"] m by simp
  ultimately show ?thesis
    using c by (auto simp: m_def)
qed

text \<open>
  Parsing comes before the look at the error code, so an error response whose body does not parse
  (a server that fails before it fills the body, for a message type with required fields) loses its
  code: the caller sees \<open>ERROR_FAILED_SERIALIZE\<close> whatever the server reported.
\<close>

lemma unparsable_error_is_lost:
  assumes "state_alive s" and "\<not> completed s" and "\<not> fst (parse (m_pb_data m))"
  shows "GetErrorCode (rs_controller (on_response parse (TinyPB m) s)) = ERROR_FAILED_SERIALIZE"
  using assms(1,3) by (cases rule: beginCompletion_first [OF assms(2)])
    (simp add: on_response_def Let_def split_beta controller_views)

text \<open>
  C37. A call that is not started reports it: called with an \<open>RpcController\<close>, and unless the
  exchange with the centre fails (which exits the process) or overruns the reply buffer,
  \<open>CallMethod\<close> starts a request or has set a non-zero
  error and the failed and finished flags of the controller and has run \<open>done\<close> exactly once if
  there is one; a started request carries the caller's message id if it set one, the full method
  name and the serialized request, and has neither completed nor run the closure.
\<close>

theorem call_not_started_is_reported:
  assumes "CallMethod cancel inet stubs i c = Inr result" and "ci_controller_ok i" and "result \<noteq> ProcessExit"
  shows "(\<exists>c' n. result = Returned c' n \<and> GetErrorCode c' \<noteq> 0 \<and> Failed c' \<and> Finished c' \<and>
            n = (if ci_has_done i then 1 else 0)) \<or>
         (\<exists>s req. result = Started s req \<and> rs_msg_id s = m_msg_id req \<and> m_method_name req = ci_method_full_name i \<and>
            ci_serialized i = Some (m_pb_data req) \<and> (rc_msg_id c \<noteq> [] \<longrightarrow> m_msg_id req = rc_msg_id c) \<and>
            \<not> completed s \<and> closure_runs s = 0)"
proof -
  have returned: "code \<noteq> 0 \<Longrightarrow> \<exists>c' n. return_completed i code info c0 = Returned c' n \<and> GetErrorCode c' \<noteq> 0 \<and>
      Failed c' \<and> Finished c' \<and> n = (if ci_has_done i then 1 else 0)" for code info and c0 :: "'a rpc_controller"
    by (simp add: return_completed_def completeSynchronously_def SetError_def SetFinished_def controller_views)
  consider (issued) "issue_request cancel i c = Inr result" |
      (early) code info where "result = return_completed i code info c" "code \<noteq> 0"
    using CallMethod_shape [OF assms(1)] assms(2,3) by blast
  then show ?thesis
  proof cases
    case issued
    from issue_request_shape [OF this] show ?thesis
    proof (elim disjE exE conjE)
      fix c' code info
      assume "result = return_completed i code info c'" "code \<noteq> 0"
      with returned show ?thesis by metis
    qed auto
  next
    case early
    with returned show ?thesis by metis
  qed
qed

theorem call_not_started_is_reported_witness:
  "\<exists>c' n. CallMethod () (\<lambda>_. 1) [] (sample_call\<lparr>ci_exchange := Answer ''unknown host''\<rparr>) newRpcController =
     (Inr (Returned c' n) :: (unit, nat) call_result cpp) \<and> m_is_failed c' \<and> n = 1"
proof -
  have "CallMethod () (\<lambda>_. 1) [] (sample_call\<lparr>ci_exchange := Answer ''unknown host''\<rparr>) newRpcController =
      (Inr (return_completed (sample_call\<lparr>ci_exchange := Answer ''unknown host''\<rparr>) ERROR_RPC_PEER_ADDR ''service not found'' newRpcController)
        :: (unit, nat) call_result cpp)"
    by (simp add: CallMethod_def sample_call_def newRpcController_def serviceDiscovery_def c_str_to_string_def)
  from call_not_started_is_reported [OF this] this show ?thesis
    by (auto simp: sample_call_def controller_views)
qed

text \<open>
  With a null controller, or one that is not a \<open>talon::RpcController\<close>, the call vanishes: whatever its
  other arguments are, \<open>CallMethod\<close> returns with nothing started, no error and \<open>done\<close> not run.
\<close>

lemma foreign_controller_is_ignored:
  "\<not> ci_controller_ok i \<Longrightarrow> CallMethod cancel inet stubs i c = Inr Ignored"
  by (simp add: CallMethod_def)

end
