(* ===== verification/ClientLoop.thy ===== *)
theory ClientLoop
  imports ServedLoop TcpClient RpcChannel
begin

text \<open>
  A call on the thread of its caller: the request state of \<open>RpcChannel\<close> (\<open>net/rpc/rpc_channel.cc\<close>), its
  \<open>TcpClient\<close> (\<open>net/tcp/tcp_client.cc\<close>) with the connection, and the loop of the thread
  (\<open>net/eventloop.cc\<close>). What the request state asks of the client is carried out on the client, what the
  connection asks of the loop is carried out on the loop, and the callbacks the connection runs are
  those of the request state. The results of the system calls are inputs, one record per iteration
  of the loop. The callbacks of the channel touch the connection only after the point where the
  connection calls them has no more work to do than to forget the callbacks it has run, so they are
  run when the connection's function has returned.
\<close>

section \<open>State\<close>

text \<open>The callbacks that the channel gives to the connection, and the closures of the loop.\<close>

datatype call_cb = OnWritten | OnResponse | OnLost

datatype client_cb = ConnCb conn_callback | DeadlineCb | CancelCb

record ('c, 'r) client_thread =
  ct_client :: "(call_cb, client_cb) tcp_client"
  ct_request :: "('c, 'r) request_state"
  ct_arrivals :: "sys_read list"

text \<open>What the kernel does in one iteration: arrivals, results of \<open>write\<close>, \<open>connect\<close> and \<open>epoll_wait\<close>.\<close>

record kernel =
  k_reads :: "sys_read list"
  k_writes :: "sys_write list"
  k_connect :: connect_result
  k_wait :: wait_result

text \<open>
  The parts of the environment that do not change: the clock, \<open>strerror\<close>, \<open>inet_ntoa\<close> with the result of
  \<open>getsockname\<close>, the address of the call's timer event, the parser of the response and the request.
\<close>

record 'r call_env =
  ce_clock :: "nat \<Rightarrow> int"
  ce_strerror :: "int \<Rightarrow> string"
  ce_ntoa :: "int32 \<Rightarrow> string"
  ce_name :: "sockaddr_in option"
  ce_timer :: nat
  ce_parse :: "string \<Rightarrow> bool \<times> 'r"
  ce_req :: tinypb

section \<open>Operations\<close>

text \<open>What the connection has asked of the loop between two states of the client.\<close>

definition carry_client ::
  "(call_cb, client_cb) tcp_client \<Rightarrow> (call_cb, client_cb) tcp_client \<Rightarrow> (call_cb, client_cb) tcp_client" where
  "carry_client cl cl' =
     (case (cl_connection cl, cl_connection cl') of
        (Some c, Some c') \<Rightarrow>
          let a = event_addr c;
              l = fold (apply_effect True a) (drop (length (effects c)) (effects c')) (cl_event_loop cl')
          in cl'\<lparr>cl_event_loop := l\<lparr>fd_events := (fd_events l)(a := map_event (\<lambda>cb. User (ConnCb cb)) (m_fd_event c'))\<rparr>\<rparr>
      | _ \<Rightarrow> cl')"

text \<open>Creating the timer event of the call and adding it to the loop.\<close>

definition add_deadline :: "'r call_env \<Rightarrow> int \<Rightarrow> (call_cb, client_cb) tcp_client \<Rightarrow> (call_cb, client_cb) tcp_client" where
  "add_deadline env timeout cl =
     (let (now, t) = get_now_ms (ce_clock env) (m_timer (cl_event_loop cl));
          t = t\<lparr>timer_events := (timer_events t)(ce_timer env := newTimerEvent now timeout False (Some DeadlineCb))\<rparr>
      in client_addTimerEvent (ce_clock env) (Some (ce_timer env)) (cl\<lparr>cl_event_loop := (cl_event_loop cl)\<lparr>m_timer := t\<rparr>\<rparr>))"

text \<open>A call on the client.\<close>

fun perform ::
  "'r call_env \<Rightarrow> connect_result \<Rightarrow> client_call \<Rightarrow> (call_cb, client_cb) tcp_client \<Rightarrow> (call_cb, client_cb) tcp_client cpp" where
  "perform env rt (SetDisconnectCallback on) cl = Inr (client_setDisconnectCallback (if on then Some OnLost else None) cl)"
| "perform env rt (RemoveReadMessage msg_id) cl = Inr (client_removeReadMessage msg_id cl)"
| "perform env rt DeleteTimerEvent cl = Inr (client_deleteTimerEvent (Some (ce_timer env)) cl)"
| "perform env rt Disconnect cl = Inr (carry_client cl (disconnect cl))"
| "perform env rt StopClient cl = Inr (client_stop cl)"
| "perform env rt (AddTimerEvent timeout) cl = Inr (add_deadline env timeout cl)"
| "perform env rt Connect cl = map_cpp (carry_client cl) (connect (ce_strerror env) (ce_ntoa env) rt (ce_name env) True cl)"
| "perform env rt (WriteMessage m) cl = map_cpp (carry_client cl) (writeMessage (TinyPB m) OnWritten cl)"
| "perform env rt (ReadMessage msg_id) cl = map_cpp (carry_client cl) (readMessage msg_id OnResponse cl)"

text \<open>A callback of the channel: the request state changes, and its calls on the client are carried out.\<close>

definition call_event ::
  "'r call_env \<Rightarrow> channel_event \<Rightarrow> ('c, 'r) client_thread \<Rightarrow> ('c, 'r) client_thread cpp" where
  "call_event env e x =
     (let s = ct_request x; s' = handle_event (ce_parse env) (ce_req env) e s
      in map_cpp (\<lambda>cl. x\<lparr>ct_client := cl, ct_request := s'\<rparr>)
           (fold_cpp (perform env ConnectOk) (drop (length (client_calls s)) (client_calls s')) (ct_client x)))"

fun run_effect :: "'r call_env \<Rightarrow> call_cb effect \<Rightarrow> ('c, 'r) client_thread \<Rightarrow> ('c, 'r) client_thread cpp" where
  "run_effect env (WriteDone OnWritten m) x = call_event env RequestWritten x"
| "run_effect env (ReadDone OnResponse m) x = call_event env (ResponseArrived m) x"
| "run_effect env (DisconnectCallback OnLost) x = call_event env Disconnected x"
| "run_effect env _ x = Inr x"

text \<open>A function of the connection, run by the loop, with what it asks of the loop and the callbacks it runs.\<close>

definition connection_step ::
  "'r call_env \<Rightarrow> (sys_read list \<Rightarrow> call_cb tcp_connection \<Rightarrow> (call_cb tcp_connection \<times> sys_read list) cpp) \<Rightarrow>
     ('c, 'r) client_thread \<Rightarrow> ('c, 'r) client_thread cpp" where
  "connection_step env f x =
     (case cl_connection (ct_client x) of
        None \<Rightarrow> Inr x
      | Some c \<Rightarrow>
          if is_closed c then Inr x
          else
            bind_cpp (f (ct_arrivals x) c) (\<lambda>(c', rest).
              fold_cpp (run_effect env) (drop (length (effects c)) (effects c'))
                (x\<lparr>ct_client := carry_client (ct_client x) ((ct_client x)\<lparr>cl_connection := Some c'\<rparr>), ct_arrivals := rest\<rparr>)))"

text \<open>The end of an attempt to connect: its callback \<open>done\<close> is the one of the channel.\<close>

definition connect_finished ::
  "'r call_env \<Rightarrow> (call_cb, client_cb) tcp_client \<Rightarrow> ('c, 'r) client_thread \<Rightarrow> ('c, 'r) client_thread cpp" where
  "connect_finished env cl x =
     (if connect_dones (ct_client x) < connect_dones cl
      then call_event env (ConnectDone (m_connect_error_code cl) (m_connect_error_info cl)) (x\<lparr>ct_client := cl\<rparr>)
      else Inr (x\<lparr>ct_client := cl\<rparr>))"

definition run_connect :: "'r call_env \<Rightarrow> connect_result \<Rightarrow> ('c, 'r) client_thread \<Rightarrow> ('c, 'r) client_thread cpp" where
  "run_connect env rt x =
     bind_cpp (connect_callback (ce_strerror env) (ce_ntoa env) rt (ce_name env) True (ct_client x)) (\<lambda>cl.
       connect_finished env (carry_client (ct_client x) cl) x)"

fun run_client_cb ::
  "'r call_env \<Rightarrow> kernel \<Rightarrow> client_cb \<Rightarrow> ('c, 'r) client_thread \<Rightarrow> ('c, 'r) client_thread cpp" where
  "run_client_cb env k (ConnCb CallOnRead) x = connection_step env (onRead (\<lambda>_ _. Inr)) x"
| "run_client_cb env k (ConnCb CallOnWrite) x = connection_step env (\<lambda>reads c. map_cpp (\<lambda>c. (c, reads)) (onWrite (k_writes k) c)) x"
| "run_client_cb env k (ConnCb CallClear) x = connection_step env (\<lambda>reads c. Inr (clear c, reads)) x"
| "run_client_cb env k (ConnCb CallConnect) x = run_connect env (k_connect k) x"
| "run_client_cb env k DeadlineCb x = call_event env TimerFired x"
| "run_client_cb env k CancelCb x = call_event env CancelTask x"

definition on_loop :: "(client_cb eventloop \<Rightarrow> client_cb eventloop) \<Rightarrow> ('c, 'r) client_thread \<Rightarrow> ('c, 'r) client_thread" where
  "on_loop f x = x\<lparr>ct_client := (ct_client x)\<lparr>cl_event_loop := f (cl_event_loop (ct_client x))\<rparr>\<rparr>"

abbreviation ct_loop :: "('c, 'r) client_thread \<Rightarrow> client_cb eventloop" where
  "ct_loop x \<equiv> cl_event_loop (ct_client x)"

definition run_client_closure ::
  "'r call_env \<Rightarrow> kernel \<Rightarrow> client_cb closure option \<Rightarrow> ('c, 'r) client_thread \<Rightarrow> ('c, 'r) client_thread cpp" where
  "run_client_closure env k cb x =
     (case cb of
        Some (User u) \<Rightarrow> run_client_cb env k u x
      | Some OnTimer \<Rightarrow>
          (case onTimer (ce_clock env) timer_reads (m_timer (ct_loop x)) of
             None \<Rightarrow> Inr x
           | Some (t, cbs) \<Rightarrow> fold_cpp (run_client_cb env k) cbs (on_loop (\<lambda>l. l\<lparr>m_timer := t\<rparr>) x))
      | _ \<Rightarrow> Inr (on_loop (run_closure (ce_clock env) (\<lambda>_. []) cb) x))"

fun run_client_tasks ::
  "'r call_env \<Rightarrow> kernel \<Rightarrow> client_cb closure option list \<Rightarrow> ('c, 'r) client_thread \<Rightarrow> ('c, 'r) client_thread cpp" where
  "run_client_tasks env k [] x = Inr x"
| "run_client_tasks env k (cb # tmp_tasks) x =
     (if m_stop_flag (ct_loop x) then Inr x
      else bind_cpp (run_client_closure env k cb x) (run_client_tasks env k tmp_tasks))"

fun client_dispatch :: "wait_result \<Rightarrow> ('c, 'r) client_thread \<Rightarrow> ('c, 'r) client_thread" where
  "client_dispatch WaitError x = x"
| "client_dispatch (WaitEvents evs) x = on_loop (fold dispatch_event evs) x"

definition client_iteration :: "'r call_env \<Rightarrow> kernel \<Rightarrow> ('c, 'r) client_thread \<Rightarrow> ('c, 'r) client_thread cpp" where
  "client_iteration env k x =
     (let x = x\<lparr>ct_arrivals := ct_arrivals x @ k_reads k\<rparr>
      in map_cpp (client_dispatch (k_wait k))
           (run_client_tasks env k (m_pending_tasks (ct_loop x)) (on_loop (\<lambda>l. l\<lparr>m_pending_tasks := []\<rparr>) x)))"

text \<open>\<open>None\<close> is a loop that is still running when the list of iterations ends.\<close>

fun client_loop :: "'r call_env \<Rightarrow> kernel list \<Rightarrow> ('c, 'r) client_thread \<Rightarrow> ('c, 'r) client_thread cpp option" where
  "client_loop env ks x =
     (if m_stop_flag (ct_loop x) then Some (Inr (on_loop (\<lambda>l. l\<lparr>m_is_looping := False\<rparr>) x))
      else case ks of
             [] \<Rightarrow> None
           | k # ks \<Rightarrow> (case client_iteration env k x of Inl e \<Rightarrow> Some (Inl e) | Inr x' \<Rightarrow> client_loop env ks x'))"

declare client_loop.simps [simp del]

text \<open>
  The end of \<open>CallMethod\<close>: arming the timer, the disconnect callback, and \<open>connect\<close>, which enters the loop
  when the attempt is in progress and the loop is not running.
\<close>

definition start_call ::
  "'r call_env \<Rightarrow> connect_result \<Rightarrow> ('c, 'r) request_state \<Rightarrow> (call_cb, client_cb) tcp_client \<Rightarrow> ('c, 'r) client_thread cpp" where
  "start_call env rt s cl =
     bind_cpp (fold_cpp (perform env rt) (client_calls s) cl) (\<lambda>cl'.
       connect_finished env cl' \<lparr>ct_client = cl, ct_request = s, ct_arrivals = []\<rparr>)"

definition run_call ::
  "'r call_env \<Rightarrow> connect_result \<Rightarrow> kernel list \<Rightarrow> ('c, 'r) request_state \<Rightarrow> (call_cb, client_cb) tcp_client \<Rightarrow>
     ('c, 'r) client_thread cpp option" where
  "run_call env rt ks s cl =
     (case start_call env rt s cl of
        Inl e \<Rightarrow> Some (Inl e)
      | Inr x \<Rightarrow>
          if loop_entries cl < loop_entries (ct_client x)
          then client_loop env ks (on_loop (\<lambda>l. l\<lparr>m_is_looping := True\<rparr>) x)
          else Some (Inr x))"

section \<open>What the channel asks of its client\<close>

definition completion_calls :: "('c, 'r) request_state \<Rightarrow> client_call list" where
  "completion_calls s = [SetDisconnectCallback False, RemoveReadMessage (rs_msg_id s)] @
     (if rs_timer s then [DeleteTimerEvent] else []) @ [SetDisconnectCallback False, Disconnect, StopClient]"

lemma finish_calls:
  assumes "beginCompletion s = (b, s1)" and "\<not> completed s" and "rs_client s"
  shows "b" "completed (finish code info (s1\<lparr>rs_response := m\<rparr>))" "completed (finish code info s1)"
    "client_calls (finish code info s1) = client_calls s @ completion_calls s"
    "client_calls (finish code info (s1\<lparr>rs_response := m\<rparr>)) = client_calls s @ completion_calls s"
  using assms by (auto simp: beginCompletion_def finish_def client_do_def completion_calls_def Let_def)

text \<open>An event of an open call completes it, with the calls of a completion, or goes on.\<close>

lemma open_event:
  assumes "\<not> completed s" and "state_alive s" and "rs_client s" and "e \<noteq> OwnerGone" and "s' = handle_event parse req e s"
  shows "completed s' \<and> client_calls s' = client_calls s @ completion_calls s \<or>
     \<not> completing e \<and> \<not> completed s' \<and> state_alive s' \<and> rs_client s' \<and>
     s' = client_do (if e = RequestWritten then [ReadMessage (m_msg_id req)] else [WriteMessage req]) s"
proof -
  obtain b s1 where bc: "beginCompletion s = (b, s1)" by fastforce
  note f = finish_calls [OF bc assms(1,3)]
  have c: "completed (complete_with code info s) \<and> client_calls (complete_with code info s) = client_calls s @ completion_calls s"
    for code info
    using f assms(2) bc by (simp add: complete_with_def)
  show ?thesis
  proof (cases e)
    case (ResponseArrived m)
    then show ?thesis
      using f assms bc by (auto simp: on_response_def Let_def split: protocol.splits prod.splits)
  next
    case (ConnectDone code info)
    then show ?thesis using c assms by (auto simp: on_connected_def client_do_def)
  qed (use c assms in \<open>auto simp: callback_defs client_do_def\<close>)
qed

section \<open>Calls on the client\<close>

lemma apply_effect_keeps [simp]:
  "m_stop_flag (apply_effect True a e l) = m_stop_flag l" "m_is_looping (apply_effect True a e l) = m_is_looping l"
  "m_pending_tasks (apply_effect True a e l) = m_pending_tasks l"
  by (cases e; simp add: addEpollEvent_def deleteEpollEvent_def ADD_TO_EPOLL_def DELETE_TO_EPOLL_def Let_def)+

lemma apply_effects_keep [simp]:
  "m_stop_flag (fold (apply_effect True a) es l) = m_stop_flag l"
  "m_is_looping (fold (apply_effect True a) es l) = m_is_looping l"
  "m_pending_tasks (fold (apply_effect True a) es l) = m_pending_tasks l"
  by (induction es arbitrary: l) simp_all

lemma carry_client_simps [simp]:
  "cl_connection (carry_client cl cl') = cl_connection cl'" "cl_fd_event (carry_client cl cl') = cl_fd_event cl'"
  "connect_dones (carry_client cl cl') = connect_dones cl'" "loop_entries (carry_client cl cl') = loop_entries cl'"
  "m_connect_error_code (carry_client cl cl') = m_connect_error_code cl'"
  "m_connect_error_info (carry_client cl cl') = m_connect_error_info cl'"
  "m_stop_flag (cl_event_loop (carry_client cl cl')) = m_stop_flag (cl_event_loop cl')"
  "m_is_looping (cl_event_loop (carry_client cl cl')) = m_is_looping (cl_event_loop cl')"
  "m_pending_tasks (cl_event_loop (carry_client cl cl')) = m_pending_tasks (cl_event_loop cl')"
  by (simp_all add: carry_client_def Let_def split: option.splits)

lemma is_closed_keeps:
  "is_closed c \<Longrightarrow> is_closed (listenWrite (pushSendMessage m cb c))" "is_closed c \<Longrightarrow> is_closed (listenRead (pushReadMessage k cb' c))"
  "is_closed (removeReadMessage k c) = is_closed c" "is_closed (setDisconnectCallback cb'' c) = is_closed c" "is_closed (clear c)"
  by (auto simp: is_closed_def listenWrite_def listenRead_def pushSendMessage_def pushReadMessage_def removeReadMessage_def
      setDisconnectCallback_def clear_def emit_def Let_def split: option.splits)

lemma perform_keeps:
  assumes "perform env rt a cl = Inr cl'" and "cl_connection cl = Some c" and "a \<noteq> Connect"
  shows "\<exists>c'. cl_connection cl' = Some c' \<and> (is_closed c \<or> a = Disconnect \<longrightarrow> is_closed c') \<and>
     (\<not> cl_fd_event cl \<or> a = Disconnect \<longrightarrow> \<not> cl_fd_event cl') \<and> loop_entries cl' = loop_entries cl \<and>
     (a \<noteq> StopClient \<longrightarrow> m_stop_flag (cl_event_loop cl') = m_stop_flag (cl_event_loop cl))"
proof -
  have t: "m_stop_flag (cl_event_loop (add_deadline env timeout cl)) = m_stop_flag (cl_event_loop cl)" for timeout
    by (simp add: add_deadline_def client_addTimerEvent_def loop_addTimerEvent_def split_beta Let_def split: option.splits)
  show ?thesis
    using assms t
    by (cases a)
      (auto simp: is_closed_keeps client_setDisconnectCallback_def client_removeReadMessage_def client_deleteTimerEvent_def
        loop_deleteTimerEvent_def disconnect_def client_stop_def writeMessage_def readMessage_def client_access_defs map_cpp_eq_Inr
        add_deadline_def client_addTimerEvent_def split_beta Let_def split: option.splits)
qed

lemma performs_keep:
  assumes "fold_cpp (perform env rt) calls cl = Inr cl'" and "cl_connection cl = Some c" and "Connect \<notin> set calls"
  shows "\<exists>c'. cl_connection cl' = Some c' \<and> (is_closed c \<or> Disconnect \<in> set calls \<longrightarrow> is_closed c') \<and>
     (\<not> cl_fd_event cl \<or> Disconnect \<in> set calls \<longrightarrow> \<not> cl_fd_event cl') \<and> loop_entries cl' = loop_entries cl \<and>
     (StopClient \<notin> set calls \<longrightarrow> m_stop_flag (cl_event_loop cl') = m_stop_flag (cl_event_loop cl))"
  using assms
proof (induction calls arbitrary: cl c)
  case (Cons a calls)
  obtain cl1 where cl1: "perform env rt a cl = Inr cl1" "fold_cpp (perform env rt) calls cl1 = Inr cl'"
    using Cons.prems(1) by (auto simp: bind_cpp_eq_Inr)
  from perform_keeps [OF cl1(1) Cons.prems(2)] Cons.prems(3) obtain c1 where "cl_connection cl1 = Some c1"
      "is_closed c \<or> a = Disconnect \<longrightarrow> is_closed c1" "\<not> cl_fd_event cl \<or> a = Disconnect \<longrightarrow> \<not> cl_fd_event cl1" "loop_entries cl1 = loop_entries cl"
      "a \<noteq> StopClient \<longrightarrow> m_stop_flag (cl_event_loop cl1) = m_stop_flag (cl_event_loop cl)"
    by auto
  with Cons.IH [OF cl1(2)] Cons.prems(3) show ?case by fastforce
qed auto

section \<open>The loop returns when the call is completed\<close>

definition call_ok :: "('c, 'r) client_thread \<Rightarrow> bool" where
  "call_ok x \<longleftrightarrow> request_ok 1 (ct_request x) \<and>
     (completed (ct_request x) \<or> state_alive (ct_request x) \<and> rs_client (ct_request x) \<and> \<not> m_stop_flag (ct_loop x)) \<and>
     (\<exists>c. cl_connection (ct_client x) = Some c \<and> (completed (ct_request x) \<longrightarrow> is_closed c \<and> \<not> cl_fd_event (ct_client x)))"

lemma call_event_ok:
  assumes "call_ok x" and "e \<noteq> OwnerGone" and "call_event env e x = Inr x'"
  shows "call_ok x' \<and> loop_entries (ct_client x') = loop_entries (ct_client x)"
proof -
  define s s' where "s = ct_request x" and "s' = handle_event (ce_parse env) (ce_req env) e s"
  define new where "new = drop (length (client_calls s)) (client_calls s')"
  obtain c where c: "cl_connection (ct_client x) = Some c" "completed s \<longrightarrow> is_closed c \<and> \<not> cl_fd_event (ct_client x)"
    using assms(1) by (auto simp: call_ok_def s_def)
  obtain cl where cl: "fold_cpp (perform env ConnectOk) new (ct_client x) = Inr cl" "x' = x\<lparr>ct_client := cl, ct_request := s'\<rparr>"
    using assms(3) by (auto simp: call_event_def Let_def map_cpp_eq_Inr s_def s'_def new_def)
  have r: "request_ok 1 s'" using assms(1) unfolding call_ok_def s_def s'_def by (blast intro: request_ok_event)
  show ?thesis
  proof (cases "completed s")
    case True
    then obtain a where "s' = s\<lparr>state_alive := a\<rparr>"
      using completed_event [of s "ce_parse env" "ce_req env" e] by (auto simp: s'_def)
    then have "new = []" "completed s'" using True by (simp_all add: new_def)
    then show ?thesis using cl r c True by (simp add: call_ok_def)
  next
    case False
    then have al: "state_alive s" "rs_client s" "\<not> m_stop_flag (ct_loop x)"
      using assms(1) by (auto simp: call_ok_def s_def)
    from open_event [OF False al(1,2) assms(2) s'_def]
    have "Connect \<notin> set new \<and> (completed s' \<and> Disconnect \<in> set new \<or>
        \<not> completed s' \<and> state_alive s' \<and> rs_client s' \<and> StopClient \<notin> set new)"
      by (auto simp: new_def completion_calls_def client_do_def split: if_splits)
    with performs_keep [OF cl(1) c(1)] r al(3) show ?thesis
      unfolding cl(2) by (auto simp: call_ok_def)
  qed
qed

lemma run_effects_ok: "call_ok x \<Longrightarrow> fold_cpp (run_effect env) es x = Inr x' \<Longrightarrow> call_ok x'"
proof (induction es arbitrary: x)
  case (Cons e es)
  obtain x1 where x1: "run_effect env e x = Inr x1" "fold_cpp (run_effect env) es x1 = Inr x'"
    using Cons.prems(2) by (auto simp: bind_cpp_eq_Inr)
  have "call_ok x1"
    using x1(1) Cons.prems(1) call_event_ok [OF Cons.prems(1)] by (cases "(env, e, x)" rule: run_effect.cases) auto
  with Cons.IH x1(2) show ?case by blast
qed simp

lemma connection_step_ok:
  assumes "call_ok x" and "connection_step env f x = Inr x'"
  shows "call_ok x'"
proof -
  obtain c where c: "cl_connection (ct_client x) = Some c" "completed (ct_request x) \<longrightarrow> is_closed c"
    using assms(1) by (auto simp: call_ok_def)
  show ?thesis
  proof (cases "is_closed c")
    case True
    then show ?thesis using assms c by (simp add: connection_step_def)
  next
    case False
    then obtain c' rest where
      x': "fold_cpp (run_effect env) (drop (length (effects c)) (effects c'))
        (x\<lparr>ct_client := carry_client (ct_client x) ((ct_client x)\<lparr>cl_connection := Some c'\<rparr>), ct_arrivals := rest\<rparr>) = Inr x'"
      using assms(2) c(1) by (auto simp: connection_step_def bind_cpp_eq_Inr)
    show ?thesis
      by (rule run_effects_ok [OF _ x']) (use assms(1) c False in \<open>auto simp: call_ok_def\<close>)
  qed
qed

text \<open>The connect callback of a client that is still open.\<close>

lemma connect_callback_keeps:
  assumes "connect_callback strerror ntoa rt name has_done cl = Inr cl'" and "cl_connection cl = Some c"
  shows "\<exists>c'. cl_connection cl' = Some c'" "m_stop_flag (cl_event_loop cl') = m_stop_flag (cl_event_loop cl)" "cl_fd_event cl"
  using assms
  by (auto simp: connect_callback_def with_fd_event_def with_connection_def bind_cpp_eq_Inr run_done_def initLocalAddr_def
      set_connect_error_def Let_def split: if_splits option.splits)

lemma run_connect_ok:
  assumes "call_ok x" and "run_connect env rt x = Inr x'"
  shows "call_ok x'"
proof -
  obtain c where c: "cl_connection (ct_client x) = Some c" "completed (ct_request x) \<longrightarrow> \<not> cl_fd_event (ct_client x)"
    using assms(1) by (auto simp: call_ok_def)
  obtain cl where cl: "connect_callback (ce_strerror env) (ce_ntoa env) rt (ce_name env) True (ct_client x) = Inr cl"
      "connect_finished env (carry_client (ct_client x) cl) x = Inr x'"
    using assms(2) by (auto simp: run_connect_def bind_cpp_eq_Inr)
  note k = connect_callback_keeps [OF cl(1) c(1)]
  have "call_ok (x\<lparr>ct_client := carry_client (ct_client x) cl\<rparr>)"
    using assms(1) k c(2) by (auto simp: call_ok_def)
  then show ?thesis
    using cl(2) call_event_ok [of "x\<lparr>ct_client := carry_client (ct_client x) cl\<rparr>"]
    by (auto simp: connect_finished_def split: if_splits)
qed

lemma run_client_cb_ok: "call_ok x \<Longrightarrow> run_client_cb env k cb x = Inr x' \<Longrightarrow> call_ok x'"
  by (cases "(env, k, cb, x)" rule: run_client_cb.cases)
    (auto intro: connection_step_ok run_connect_ok dest: call_event_ok)

lemma run_client_cbs_ok: "call_ok x \<Longrightarrow> fold_cpp (run_client_cb env k) cbs x = Inr x' \<Longrightarrow> call_ok x'"
  by (induction cbs arbitrary: x) (auto simp: bind_cpp_eq_Inr dest: run_client_cb_ok)

lemma on_loop_ok: "call_ok x \<Longrightarrow> m_stop_flag (f (ct_loop x)) = m_stop_flag (ct_loop x) \<Longrightarrow> call_ok (on_loop f x)"
  by (simp add: call_ok_def on_loop_def)

lemma run_client_closure_ok:
  assumes "call_ok x" and "run_client_closure env k cb x = Inr x'"
  shows "call_ok x'"
proof (cases "cb = Some OnTimer")
  case True
  have "call_ok (on_loop (\<lambda>l. l\<lparr>m_timer := t\<rparr>) x)" for t
    using assms(1) by (auto intro: on_loop_ok)
  then show ?thesis
    using True assms by (auto simp: run_client_closure_def dest: run_client_cbs_ok split: option.splits)
next
  case False
  then show ?thesis
    using assms by (auto simp: run_client_closure_def intro: on_loop_ok run_client_cb_ok split: option.splits closure.splits)
qed

lemma run_client_tasks_ok: "call_ok x \<Longrightarrow> run_client_tasks env k ts x = Inr x' \<Longrightarrow> call_ok x'"
  by (induction ts arbitrary: x) (auto simp: bind_cpp_eq_Inr split: if_splits dest: run_client_closure_ok)

lemma client_iteration_ok:
  assumes "call_ok x" and "client_iteration env k x = Inr x'"
  shows "call_ok x'"
proof -
  have "call_ok (on_loop (\<lambda>l. l\<lparr>m_pending_tasks := []\<rparr>) (x\<lparr>ct_arrivals := a\<rparr>))" for a
    using assms(1) by (simp add: call_ok_def on_loop_def)
  then obtain x1 where "call_ok x1" "x' = client_dispatch (k_wait k) x1"
    using assms(2) run_client_tasks_ok by (fastforce simp: client_iteration_def Let_def map_cpp_eq_Inr)
  then show ?thesis by (cases "k_wait k") (auto intro: on_loop_ok)
qed

lemma client_loop_ok:
  assumes "call_ok x" and "client_loop env ks x = Some (Inr x')"
  shows "call_ok x' \<and> m_stop_flag (ct_loop x') \<and> \<not> m_is_looping (ct_loop x')"
  using assms
proof (induction ks arbitrary: x)
  case Nil
  then show ?case by (auto simp: client_loop.simps [of env "[]"] on_loop_def call_ok_def split: if_splits)
next
  case (Cons k ks)
  show ?case
  proof (cases "m_stop_flag (ct_loop x)")
    case True
    then show ?thesis using Cons.prems by (auto simp: client_loop.simps [of env "k # ks"] on_loop_def call_ok_def)
  next
    case False
    then obtain x1 where "client_iteration env k x = Inr x1" "client_loop env ks x1 = Some (Inr x')"
      using Cons.prems(2) by (auto simp: client_loop.simps [of env "k # ks"] split: sum.splits)
    then show ?thesis using Cons.IH client_iteration_ok [OF Cons.prems(1)] by blast
  qed
qed

section \<open>Starting\<close>

text \<open>The client of a call when \<open>connect\<close> is reached.\<close>

definition prepared :: "'r call_env \<Rightarrow> int \<Rightarrow> (call_cb, client_cb) tcp_client \<Rightarrow> (call_cb, client_cb) tcp_client" where
  "prepared env timeout cl = client_setDisconnectCallback (Some OnLost) (add_deadline env timeout cl)"

lemma prepared_simps [simp]:
  "cl_connection (prepared env timeout cl) = map_option (setDisconnectCallback (Some OnLost)) (cl_connection cl)"
  "cl_fd_event (prepared env timeout cl) = cl_fd_event cl" "connect_dones (prepared env timeout cl) = connect_dones cl"
  "loop_entries (prepared env timeout cl) = loop_entries cl" "m_connect_error_code (prepared env timeout cl) = m_connect_error_code cl"
  "m_stop_flag (cl_event_loop (prepared env timeout cl)) = m_stop_flag (cl_event_loop cl)"
  "m_is_looping (cl_event_loop (prepared env timeout cl)) = m_is_looping (cl_event_loop cl)"
  "m_pending_tasks (cl_event_loop (prepared env timeout cl)) = m_pending_tasks (cl_event_loop cl)"
  by (simp_all add: prepared_def client_setDisconnectCallback_def if_connection_def add_deadline_def client_addTimerEvent_def
      loop_addTimerEvent_def Let_def split_beta)

lemma start_call_prepared:
  assumes "s = start_request cancel i req c"
  shows "start_call env rt s cl =
     bind_cpp (map_cpp (carry_client (prepared env (m_timeout (rs_controller s)) cl))
         (connect (ce_strerror env) (ce_ntoa env) rt (ce_name env) True (prepared env (m_timeout (rs_controller s)) cl)))
       (\<lambda>cl'. connect_finished env cl' \<lparr>ct_client = cl, ct_request = s, ct_arrivals = []\<rparr>)"
  by (simp add: assms start_call_def start_request_def prepared_def Let_def split_beta bind_cpp_assoc)

lemma connect_keeps:
  assumes "connect strerror ntoa rt name has_done cl = Inr cl'" and "cl_connection cl = Some c"
  shows "\<exists>c'. cl_connection cl' = Some c'" "m_stop_flag (cl_event_loop cl') = m_stop_flag (cl_event_loop cl)"
    "loop_entries cl' = loop_entries cl + (if rt = ConnectErrno EINPROGRESS \<and> \<not> m_is_looping (cl_event_loop cl) then 1 else 0)"
  using assms
  by (auto simp: connect_def with_fd_event_def with_connection_def bind_cpp_eq_Inr run_done_def initLocalAddr_def
      set_connect_error_def Let_def split: if_splits option.splits connect_result.splits)

lemma start_call_ok:
  assumes "s = start_request cancel i req c" and "ci_has_closure i \<or> ci_has_done i" and "cl_connection cl = Some c0"
    and "\<not> m_stop_flag (cl_event_loop cl)" and "start_call env rt s cl = Inr x"
  shows "call_ok x"
    "loop_entries (ct_client x) = loop_entries cl + (if rt = ConnectErrno EINPROGRESS \<and> \<not> m_is_looping (cl_event_loop cl) then 1 else 0)"
proof -
  define p where "p = prepared env (m_timeout (rs_controller s)) cl"
  obtain cl' where cl': "connect (ce_strerror env) (ce_ntoa env) rt (ce_name env) True p = Inr cl'"
      "connect_finished env (carry_client p cl') \<lparr>ct_client = cl, ct_request = s, ct_arrivals = []\<rparr> = Inr x"
    using assms(5) unfolding start_call_prepared [OF assms(1)] by (auto simp: p_def bind_cpp_eq_Inr map_cpp_eq_Inr)
  have p: "cl_connection p = Some (setDisconnectCallback (Some OnLost) c0)" using assms(3) by (simp add: p_def)
  note k = connect_keeps [OF cl'(1) p]
  have "request_ok 1 s" "\<not> completed s" "state_alive s" "rs_client s"
    using request_ok_start [of i cancel req c] assms(1,2) by (auto simp: start_request_def Let_def split_beta)
  then have ok: "call_ok \<lparr>ct_client = carry_client p cl', ct_request = s, ct_arrivals = []\<rparr>"
    using k(1,2) assms(4) by (auto simp: call_ok_def p_def)
  show "call_ok x"
    "loop_entries (ct_client x) = loop_entries cl + (if rt = ConnectErrno EINPROGRESS \<and> \<not> m_is_looping (cl_event_loop cl) then 1 else 0)"
    using cl'(2) ok call_event_ok [OF ok] k(3) by (auto simp: connect_finished_def p_def split: if_splits)
qed

lemma initLocalAddr_simps [simp]:
  "cl_connection (initLocalAddr ntoa name cl) = cl_connection cl" "cl_fd_event (initLocalAddr ntoa name cl) = cl_fd_event cl"
  "connect_dones (initLocalAddr ntoa name cl) = connect_dones cl" "loop_entries (initLocalAddr ntoa name cl) = loop_entries cl"
  "m_connect_error_code (initLocalAddr ntoa name cl) = m_connect_error_code cl"
  "cl_event_loop (initLocalAddr ntoa name cl) = cl_event_loop cl"
  by (simp_all add: initLocalAddr_def split: option.splits)

lemma newTcpClient_idle:
  assumes "newTcpClient fd ev l = Inr cl" and "0 \<le> fd"
  shows "\<exists>c. cl_connection cl = Some c" "\<not> m_stop_flag (cl_event_loop cl)" "loop_entries cl = 0"
    "m_is_looping (cl_event_loop cl) \<longleftrightarrow> m_is_looping l \<and> \<not> m_stop_flag l"
  using assms by (auto simp: newTcpClient_def bind_cpp_eq_Inr Let_def split: if_splits)

section \<open>Calls that do not enter the loop\<close>

text \<open>
  An attempt to connect that succeeds at once does not enter the loop: \<open>CallMethod\<close> returns with the
  request queued and not completed, and the macro \<open>CALLRPRC\<close> then destroys the channel and with it the
  request state.
\<close>

lemma immediate_connect_not_driven:
  assumes "CallMethod cancel inet stubs i c = Inr (Started s req)" and "newTcpClient fd (newFd_Event fd) l = Inr cl" and "0 \<le> fd"
    and "ce_req env = req"
  shows "\<exists>x c'. run_call env ConnectOk ks s cl = Some (Inr x) \<and> \<not> completed (ct_request x) \<and> closure_runs (ct_request x) = 0 \<and>
     cl_connection (ct_client x) = Some c' \<and> m_write_dones c' = [(TinyPB req, OnWritten)] \<and> sent c' = []"
proof -
  obtain c1 where s: "s = start_request cancel i req c1"
    using Started_shape [OF assms(1)] by blast
  have open_s: "\<not> completed s" "state_alive s" "closure_runs s = 0"
    by (simp_all add: s start_request_def Let_def split_beta)
  obtain c0 where c0: "cl_connection cl = Some c0" "setState Connected c0 = opened TcpConnectionByClient fd" "m_connect_error_code cl = 0"
    by (rule newTcpClient_opened [OF assms(2,3)])
  define c' where "c' = listenWrite (pushSendMessage (TinyPB req) OnWritten (setState Connected (setDisconnectCallback (Some OnLost) c0)))"
  have "m_write_dones c0 = []" "sent c0 = []"
    using arg_cong [OF c0(2), of m_write_dones] arg_cong [OF c0(2), of sent] by (simp_all add: setState_def opened_def)
  then have c': "m_write_dones c' = [(TinyPB req, OnWritten)]" "sent c' = []"
    by (simp_all add: c'_def pushSendMessage_def setState_def setDisconnectCallback_def listenWrite_def addEpoll_def emit_def)
  obtain x where "start_call env ConnectOk s cl = Inr x" "ct_request x = client_do [WriteMessage req] s"
      "cl_connection (ct_client x) = Some c'" "loop_entries (ct_client x) = loop_entries cl"
    using open_s c0(1,3) assms(4)
    by (simp add: start_call_prepared [OF s] connect_def with_connection_def connect_finished_def run_done_def
        call_event_def on_connected_def client_do_def writeMessage_def c'_def Let_def comp_def)
  then show ?thesis
    using c' open_s by (intro exI [of _ x] exI [of _ c']) (simp add: run_call_def client_do_def)
qed

text \<open>
  Neither does a call that is made from a callback of the running loop. In both cases the channel of
  \<open>CALLRPRC\<close> is destroyed when \<open>CallMethod\<close> has returned, and whatever happens afterwards the request is
  never completed.
\<close>

lemma nested_call_not_driven:
  assumes "CallMethod cancel inet stubs i c = Inr (Started s req)" and "newTcpClient fd (newFd_Event fd) l = Inr cl" and "0 \<le> fd"
    and "m_is_looping l" and "\<not> m_stop_flag l"
  shows "\<exists>x. run_call env (ConnectErrno EINPROGRESS) ks s cl = Some (Inr x) \<and> ct_request x = s \<and> \<not> completed s"
proof -
  obtain c1 where s: "s = start_request cancel i req c1"
    using Started_shape [OF assms(1)] by blast
  obtain c0 where c0: "cl_connection cl = Some c0" "cl_fd_event cl"
    by (rule newTcpClient_opened [OF assms(2,3)])
  have "m_is_looping (cl_event_loop cl)" using newTcpClient_idle(4) [OF assms(2,3)] assms(4,5) by simp
  with c0 have "\<exists>x. start_call env (ConnectErrno EINPROGRESS) s cl = Inr x \<and> ct_request x = s \<and> loop_entries (ct_client x) = loop_entries cl"
    by (simp add: start_call_prepared [OF s] connect_def with_fd_event_def with_connection_def connect_finished_def)
  then show ?thesis
    by (auto simp: run_call_def s start_request_def Let_def split_beta)
qed

lemma dropped_event: "\<not> state_alive s \<Longrightarrow> handle_event parse req e s = s"
  by (cases e) (simp_all add: callback_defs on_response_def complete_with_def)

lemma dropped_call_never_completes:
  assumes "\<not> completed s"
  shows "\<not> completed (fold (handle_event parse req) (OwnerGone # es) s)" "closure_runs (fold (handle_event parse req) (OwnerGone # es) s) = closure_runs s"
proof -
  have "fold (handle_event parse req) es (s\<lparr>state_alive := False\<rparr>) = s\<lparr>state_alive := False\<rparr>"
    by (induction es) (simp_all add: dropped_event)
  then show "\<not> completed (fold (handle_event parse req) (OwnerGone # es) s)"
    "closure_runs (fold (handle_event parse req) (OwnerGone # es) s) = closure_runs s"
    using assms by simp_all
qed

end
