(* ===== verification/IOThread.thy ===== *)
theory IOThread
  imports EventLoop
begin

text \<open>
  IO threads and their group (\<open>net/iothread.h\<close>, \<open>net/iothread.cc\<close>, \<open>net/iothreadgroup.h\<close>,
  \<open>net/iothreadgroup.cc\<close>). A thread owns an event loop and waits on a semaphore before it enters
  it; \<open>start_semaphore\<close> is the value of that semaphore. The constructor returns when the new
  thread has created its loop, so the loop is there from the beginning. \<open>sem_wait\<close> is given by
  the errors of its failing calls; without further errors it blocks until the value is positive.
\<close>

section \<open>One thread\<close>

record 'e io_thread =
  it_event_loop :: "'e eventloop"
  start_semaphore :: nat
  m_started :: bool
  m_joined :: bool
  pthread_joins :: nat

definition newIOThread :: "'e eventloop \<Rightarrow> 'e io_thread" where
  "newIOThread l = \<lparr>it_event_loop = l, start_semaphore = 0, m_started = False, m_joined = False, pthread_joins = 0\<rparr>"

definition start_thread :: "'e io_thread \<Rightarrow> 'e io_thread" where
  "start_thread t =
     (if \<not> m_started t then t\<lparr>m_started := True, start_semaphore := Suc (start_semaphore t)\<rparr> else t)"

definition stop_thread :: "'e io_thread \<Rightarrow> 'e io_thread" where
  "stop_thread t =
     (let t = t\<lparr>it_event_loop := stop (it_event_loop t)\<rparr> in
      if \<not> m_started t then t\<lparr>m_started := True, start_semaphore := Suc (start_semaphore t)\<rparr> else t)"

text \<open>
  The wait for the start: \<open>None\<close> is a thread that still waits, \<open>Some False\<close> a wait that failed.
\<close>

definition EINTR_SEM :: int where
  "EINTR_SEM = 4"

fun wait_start :: "int list \<Rightarrow> nat \<Rightarrow> (bool \<times> nat) option" where
  "wait_start [] n = (if n = 0 then None else Some (True, n - 1))"
| "wait_start (e # es) n = (if e = EINTR_SEM then wait_start es n else Some (False, n))"

text \<open>\<open>IOThread::Main\<close> behind the construction of the loop; \<open>None\<close> is a thread that has not ended.\<close>

definition Main_thread ::
  "(nat \<Rightarrow> int) \<Rightarrow> ('e \<Rightarrow> 'e loop_call list) \<Rightarrow> int list \<Rightarrow> wait_result list \<Rightarrow> 'e io_thread \<Rightarrow> 'e io_thread option" where
  "Main_thread clock behaviour errors waits t =
     (case wait_start errors (start_semaphore t) of
        None \<Rightarrow> None
      | Some (False, n) \<Rightarrow> Some (t\<lparr>start_semaphore := n\<rparr>)
      | Some (True, n) \<Rightarrow>
          map_option (\<lambda>l. t\<lparr>start_semaphore := n, it_event_loop := l\<rparr>) (loop clock behaviour waits (it_event_loop t)))"

text \<open>
  \<open>join\<close>: \<open>is_self\<close> says that the caller is this thread. \<open>pthread_join\<close> returns when \<open>Main\<close> has returned, so
  the result is \<open>None\<close> for a thread that does not end; \<open>kern\<close> are the errors of its \<open>sem_wait\<close> and the results
  of its \<open>epoll_wait\<close> from the state it is in.
\<close>

type_synonym thread_kernel = "int list \<times> wait_result list"

definition join_thread ::
  "(nat \<Rightarrow> int) \<Rightarrow> ('e \<Rightarrow> 'e loop_call list) \<Rightarrow> thread_kernel \<Rightarrow> bool \<Rightarrow> 'e io_thread \<Rightarrow> 'e io_thread option" where
  "join_thread clock behaviour kern is_self t =
     (if is_self then Some t
      else if \<not> m_joined t then
        map_option (\<lambda>t. t\<lparr>m_joined := True, pthread_joins := Suc (pthread_joins t)\<rparr>)
          (Main_thread clock behaviour (fst kern) (snd kern) t)
      else Some t)"

section \<open>The group\<close>

record 'e io_thread_group =
  m_io_thread_groups :: "'e io_thread list"
  m_index :: int

text \<open>\<open>loops i\<close> is the loop that the \<open>i\<close>-th thread creates.\<close>

definition newIOThreadGroup :: "int \<Rightarrow> (nat \<Rightarrow> 'e eventloop) \<Rightarrow> 'e io_thread_group cpp" where
  "newIOThreadGroup m_size loops =
     (if m_size < 0 then Inl LengthError
      else Inr \<lparr>m_io_thread_groups = map (\<lambda>i. newIOThread (loops i)) [0..<nat m_size], m_index = 0\<rparr>)"

definition start_group :: "'e io_thread_group \<Rightarrow> 'e io_thread_group" where
  "start_group g = g\<lparr>m_io_thread_groups := map start_thread (m_io_thread_groups g)\<rparr>"

definition stop_group :: "'e io_thread_group \<Rightarrow> 'e io_thread_group" where
  "stop_group g = g\<lparr>m_io_thread_groups := map stop_thread (m_io_thread_groups g)\<rparr>"

text \<open>Joining one thread after the other, from a thread outside the group.\<close>

fun join_from ::
  "(nat \<Rightarrow> int) \<Rightarrow> ('e \<Rightarrow> 'e loop_call list) \<Rightarrow> (nat \<Rightarrow> thread_kernel) \<Rightarrow> nat \<Rightarrow> 'e io_thread list \<Rightarrow> 'e io_thread list option" where
  "join_from clock behaviour kern i [] = Some []"
| "join_from clock behaviour kern i (t # ts) =
     Option.bind (join_thread clock behaviour (kern i) False t) (\<lambda>t'. map_option ((#) t') (join_from clock behaviour kern (Suc i) ts))"

definition join_group ::
  "(nat \<Rightarrow> int) \<Rightarrow> ('e \<Rightarrow> 'e loop_call list) \<Rightarrow> (nat \<Rightarrow> thread_kernel) \<Rightarrow> 'e io_thread_group \<Rightarrow> 'e io_thread_group option" where
  "join_group clock behaviour kern g =
     map_option (\<lambda>ts. g\<lparr>m_io_thread_groups := ts\<rparr>) (join_from clock behaviour kern 0 (m_io_thread_groups g))"

text \<open>The position of the thread whose address the code returns, \<open>None\<close> for \<open>nullptr\<close>.\<close>

definition getIOThread :: "'e io_thread_group \<Rightarrow> (nat option \<times> 'e io_thread_group) cpp" where
  "getIOThread g =
     (if m_io_thread_groups g = [] then Inr (None, g)
      else
        let i = (if m_index g = int (length (m_io_thread_groups g)) \<or> m_index g = - 1 then 0 else m_index g) in
        if 0 \<le> i \<and> i < int (length (m_io_thread_groups g)) then Inr (Some (nat i), g\<lparr>m_index := i + 1\<rparr>)
        else Inl OutOfRange)"

section \<open>Lemmas\<close>

datatype thread_op = StartThread | StopThread

fun thread_step :: "thread_op \<Rightarrow> 'e io_thread \<Rightarrow> 'e io_thread" where
  "thread_step StartThread t = start_thread t"
| "thread_step StopThread t = stop_thread t"

lemmas thread_defs = start_thread_def stop_thread_def

text \<open>The semaphore is posted with the first start or stop and never again; a join happens once.\<close>

definition thread_ok :: "'e io_thread \<Rightarrow> bool" where
  "thread_ok t \<longleftrightarrow> (if m_joined t then m_started t \<and> pthread_joins t = 1
                    else start_semaphore t = of_bool (m_started t) \<and> pthread_joins t = 0)"

lemma thread_ok_step: "thread_ok t \<Longrightarrow> thread_ok (thread_step a t)"
  by (cases a) (auto simp: thread_ok_def thread_defs Let_def)

lemma thread_ok_steps: "thread_ok t \<Longrightarrow> thread_ok (fold thread_step ops t)"
  by (induction ops arbitrary: t) (simp_all add: thread_ok_step)

lemma thread_ok_new: "thread_ok (newIOThread l)"
  by (simp add: thread_ok_def newIOThread_def)

lemma stopped_step:
  "m_stop_flag (it_event_loop t) \<and> m_started t \<Longrightarrow>
     m_stop_flag (it_event_loop (thread_step a t)) \<and> m_started (thread_step a t)"
  by (cases a) (auto simp: thread_defs Let_def)

lemma stop_thread_stops: "m_stop_flag (it_event_loop (stop_thread t))" "m_started (stop_thread t)" "m_joined (stop_thread t) = m_joined t"
  by (simp_all add: stop_thread_def Let_def)

lemma stopped_steps:
  "m_stop_flag (it_event_loop t) \<and> m_started t \<or> StopThread \<in> set ops \<Longrightarrow>
     m_stop_flag (it_event_loop (fold thread_step ops t)) \<and> m_started (fold thread_step ops t)"
proof (induction ops arbitrary: t)
  case (Cons a ops)
  then show ?case
    using Cons.IH [of "thread_step a t"] stop_thread_stops [of t] stopped_step [of t a] by auto
qed simp

lemma wait_start_interrupted: "set errors \<subseteq> {EINTR_SEM} \<Longrightarrow> wait_start errors n = wait_start [] n"
  by (induction errors) auto

text \<open>A stopped thread can be joined, and its loop has returned then.\<close>

lemma join_stopped:
  assumes "thread_ok t" and "m_stop_flag (it_event_loop t)" and "m_started t" and "set (fst kern) \<subseteq> {EINTR_SEM}"
  shows "\<exists>t'. join_thread clock behaviour kern False t = Some t' \<and> thread_ok t' \<and> m_joined t' \<and> pthread_joins t' = 1 \<and>
     m_stop_flag (it_event_loop t') \<and> (\<not> m_joined t \<longrightarrow> \<not> m_is_looping (it_event_loop t'))"
  using assms wait_start_interrupted [OF assms(4), of 1]
  by (auto simp: join_thread_def thread_ok_def Main_thread_def loop_def)

lemma join_from_stopped:
  assumes "\<forall>t \<in> set ts. thread_ok t \<and> m_stop_flag (it_event_loop t) \<and> m_started t" and "\<forall>i. set (fst (kern i)) \<subseteq> {EINTR_SEM}"
  shows "\<exists>ts'. join_from clock behaviour kern i ts = Some ts' \<and> length ts' = length ts \<and>
     (\<forall>t \<in> set ts'. thread_ok t \<and> m_joined t \<and> pthread_joins t = 1 \<and> m_stop_flag (it_event_loop t)) \<and>
     ((\<forall>t \<in> set ts. \<not> m_joined t) \<longrightarrow> (\<forall>t \<in> set ts'. \<not> m_is_looping (it_event_loop t)))"
  using assms(1)
proof (induction ts arbitrary: i)
  case (Cons t ts)
  obtain t' where t': "join_thread clock behaviour (kern i) False t = Some t'" "thread_ok t'" "m_joined t'" "pthread_joins t' = 1"
      "m_stop_flag (it_event_loop t')" "\<not> m_joined t \<longrightarrow> \<not> m_is_looping (it_event_loop t')"
    using join_stopped [of t "kern i" clock behaviour] Cons.prems assms(2) by auto
  obtain ts' where "join_from clock behaviour kern (Suc i) ts = Some ts'" "length ts' = length ts"
      "\<forall>t \<in> set ts'. thread_ok t \<and> m_joined t \<and> pthread_joins t = 1 \<and> m_stop_flag (it_event_loop t)"
      "(\<forall>t \<in> set ts. \<not> m_joined t) \<longrightarrow> (\<forall>t \<in> set ts'. \<not> m_is_looping (it_event_loop t))"
    using Cons.IH [of "Suc i"] Cons.prems by auto
  with t' show ?case by auto
qed simp

text \<open>A thread that nobody stops cannot be joined: \<open>join\<close> waits for ever when the kernel reports nothing.\<close>

lemma join_waits_for_stop:
  assumes "\<not> m_stop_flag (it_event_loop t)" and "\<not> m_joined t"
  shows "join_thread clock behaviour ([], []) False t = None"
  using assms by (simp add: join_thread_def Main_thread_def loop_def loop_while.simps)

definition group_index_ok :: "'e io_thread_group \<Rightarrow> bool" where
  "group_index_ok g \<longleftrightarrow> m_io_thread_groups g \<noteq> [] \<and> 0 \<le> m_index g \<and> m_index g \<le> int (length (m_io_thread_groups g))"

lemma getIOThread_ok:
  assumes "group_index_ok g"
  shows "\<exists>g'. getIOThread g = Inr (Some (nat (m_index g) mod length (m_io_thread_groups g)), g') \<and> group_index_ok g' \<and>
           m_io_thread_groups g' = m_io_thread_groups g \<and>
           nat (m_index g') mod length (m_io_thread_groups g) = Suc (nat (m_index g)) mod length (m_io_thread_groups g)"
proof (cases "m_index g = int (length (m_io_thread_groups g))")
  case True
  then have "getIOThread g = Inr (Some 0, g\<lparr>m_index := 1\<rparr>)"
    using assms by (simp add: getIOThread_def group_index_ok_def)
  moreover have "Suc (length (m_io_thread_groups g)) mod length (m_io_thread_groups g) = 1 mod length (m_io_thread_groups g)"
    by (metis One_nat_def mod_add_self2 plus_1_eq_Suc)
  ultimately show ?thesis
    using assms True by (auto simp: group_index_ok_def Suc_le_eq)
next
  case False
  then have "getIOThread g = Inr (Some (nat (m_index g)), g\<lparr>m_index := m_index g + 1\<rparr>)"
    using assms by (auto simp: getIOThread_def group_index_ok_def Let_def)
  with False assms show ?thesis
    by (auto simp: group_index_ok_def nat_add_distrib)
qed

text \<open>The threads handed out by \<open>k\<close> calls.\<close>

fun threads_for :: "nat \<Rightarrow> 'e io_thread_group \<Rightarrow> (nat option list \<times> 'e io_thread_group) cpp" where
  "threads_for 0 g = Inr ([], g)"
| "threads_for (Suc k) g =
     bind_cpp (getIOThread g) (\<lambda>(t, g). bind_cpp (threads_for k g) (\<lambda>(ts, g). Inr (t # ts, g)))"

lemma threads_for_ok:
  "group_index_ok g \<Longrightarrow> n = length (m_io_thread_groups g) \<Longrightarrow>
     \<exists>g'. threads_for k g = Inr (map (\<lambda>i. Some ((nat (m_index g) + i) mod n)) [0..<k], g')"
proof (induction k arbitrary: g)
  case (Suc k)
  obtain g1 where g1: "getIOThread g = Inr (Some (nat (m_index g) mod n), g1)" "group_index_ok g1"
      "m_io_thread_groups g1 = m_io_thread_groups g" "nat (m_index g1) mod n = Suc (nat (m_index g)) mod n"
    using getIOThread_ok [OF Suc.prems(1)] Suc.prems(2) by auto
  have shift: "(nat (m_index g1) + i) mod n = (nat (m_index g) + Suc i) mod n" for i
    using mod_add_cong [OF g1(4) refl, of i] by simp
  obtain g' where "threads_for k g1 = Inr (map (\<lambda>i. Some ((nat (m_index g1) + i) mod n)) [0..<k], g')"
    using Suc.IH [OF g1(2)] g1(3) Suc.prems(2) by auto
  with g1(1) show ?case
    by (auto simp: shift upt_conv_Cons map_Suc_upt [symmetric] comp_def simp del: upt_Suc)
qed simp

section \<open>Properties\<close>

text \<open>
  Connections are spread evenly: the \<open>k\<close>-th thread that a new group of \<open>n\<close> threads hands out
  is the one at position \<open>k mod n\<close>, for ever and without an access outside the vector.
\<close>

theorem threads_round_robin:
  assumes "newIOThreadGroup (int n) loops = Inr g" and "0 < n"
  shows "\<exists>g'. threads_for k g = Inr (map (\<lambda>i. Some (i mod n)) [0..<k], g')"
  using threads_for_ok [of g n k] assms by (auto simp: newIOThreadGroup_def group_index_ok_def)

theorem threads_round_robin_witness:
  "\<exists>g g'. newIOThreadGroup 2 (\<lambda>_. idle_loop) = Inr g \<and> threads_for 3 g = Inr ([Some 0, Some 1, Some 0], g')"
proof -
  obtain g where g: "newIOThreadGroup (int 2) (\<lambda>_. idle_loop) = Inr g"
    by (simp add: newIOThreadGroup_def)
  then show ?thesis
    using threads_round_robin [OF g, of 3] by (auto simp: numeral_eq_Suc)
qed



end
