(* ===== verification/TcpServer.thy ===== *)
theory TcpServer
  imports ConnectionProps IOThread NetAddr
begin

text \<open>
  The server end (\<open>net/tcp/tcp_acceptor.h\<close>, \<open>net/tcp/tcp_acceptor.cc\<close>, \<open>net/tcp/tcp_server.h\<close>,
  \<open>net/tcp/tcp_server.cc\<close>): the listening socket, the hand-over of accepted connections to the IO
  threads, the periodic removal of closed connections and the shutdown. Connections are kept by
  address together with the position of the thread whose loop serves them. The results of the
  socket calls are inputs. The server is alive while its callbacks run, so the lifetime token has
  not expired.
\<close>

section \<open>The acceptor\<close>

record tcp_acceptor =
  ac_local_addr :: ip_net_addr
  m_family :: int
  m_listenfd :: int

text \<open>The constructor; \<open>None\<close> is \<open>exit(0)\<close>. The result of \<open>setsockopt\<close> is only logged.\<close>

definition newTcpAcceptor ::
  "(string \<Rightarrow> int32) \<Rightarrow> ip_net_addr \<Rightarrow> int \<Rightarrow> int \<Rightarrow> int \<Rightarrow> tcp_acceptor option" where
  "newTcpAcceptor inet local_addr socket_fd bind_rt listen_rt =
     (if \<not> checkValid inet local_addr then None
      else if socket_fd < 0 then None
      else if bind_rt \<noteq> 0 then None
      else if listen_rt \<noteq> 0 then None
      else Some \<lparr>ac_local_addr = local_addr, m_family = getFamily local_addr, m_listenfd = socket_fd\<rparr>)"

text \<open>
  \<open>accept(2)\<close> stores at most \<open>len\<close> bytes of the peer address; in a \<open>sockaddr_in\<close> the family is in
  bytes 0 and 1, the port in bytes 2 and 3 and the address in bytes 4 to 7.
\<close>

definition store_sockaddr :: "nat \<Rightarrow> sockaddr_in \<Rightarrow> sockaddr_in \<Rightarrow> sockaddr_in" where
  "store_sockaddr len peer addr =
     addr\<lparr>sin_family := (if 2 \<le> len then sin_family peer else sin_family addr),
          sin_port := (if 4 \<le> len then sin_port peer else sin_port addr),
          sin_addr := (if 8 \<le> len then sin_addr peer else sin_addr addr)\<rparr>"

text \<open>\<open>socklen_t clien_addr_len = sizeof(clien_addr_len)\<close>\<close>

definition clien_addr_len :: nat where
  "clien_addr_len = 4"

definition zero_sockaddr :: sockaddr_in where
  "zero_sockaddr = \<lparr>sin_family = 0, sin_addr = 0, sin_port = 0\<rparr>"

definition accept_client ::
  "(int32 \<Rightarrow> string) \<Rightarrow> int \<Rightarrow> sockaddr_in \<Rightarrow> tcp_acceptor \<Rightarrow> int \<times> ip_net_addr option" where
  "accept_client ntoa client_fd peer a =
     (if m_family a = AF_INET then
        let client_addr = (if client_fd < 0 then zero_sockaddr else store_sockaddr clien_addr_len peer zero_sockaddr)
        in (client_fd, Some (IPNetAddr_sockaddr ntoa client_addr))
      else (- 1, None))"

section \<open>The server\<close>

record ('d, 'e) tcp_server =
  m_acceptor :: tcp_acceptor
  m_main_event_loop :: "'e eventloop"
  m_io_thread_group :: "'e io_thread_group"
  m_client_counts :: int
  m_client :: "(nat, nat \<times> 'd tcp_connection) std_map"
  closed_fds :: "int list"

text \<open>
  \<open>init\<close>: \<open>ev\<close> and \<open>te\<close> are the addresses of the listening event and of the timer event, \<open>on_accept\<close>
  and \<open>clear_clients\<close> their callbacks.
\<close>

definition newTcpServer ::
  "(nat \<Rightarrow> int) \<Rightarrow> tcp_acceptor option \<Rightarrow> int \<Rightarrow> (nat \<Rightarrow> 'e eventloop) \<Rightarrow> 'e eventloop \<Rightarrow> nat \<Rightarrow> nat \<Rightarrow> 'e \<Rightarrow> 'e \<Rightarrow>
     ('d, 'e) tcp_server option cpp" where
  "newTcpServer clock acceptor io_threads loops l ev te on_accept clear_clients =
     (case acceptor of
        None \<Rightarrow> Inr None
      | Some a \<Rightarrow>
          bind_cpp (newIOThreadGroup io_threads loops) (\<lambda>g.
            let l = l\<lparr>fd_events := (fd_events l)(ev := listen IN_EVENT (Some (User on_accept)) None (newFd_Event (m_listenfd a)))\<rparr>;
                l = addEpollEvent True (Some ev) l;
                (now, t) = get_now_ms clock (m_timer l);
                l = l\<lparr>m_timer := t\<lparr>timer_events := (timer_events t)(te := newTimerEvent now 5000 True (Some clear_clients))\<rparr>\<rparr>;
                l = loop_addTimerEvent clock (Some te) l
            in Inr (Some \<lparr>m_acceptor = a, m_main_event_loop = l, m_io_thread_group = g, m_client_counts = 0,
                          m_client = [], closed_fds = []\<rparr>)))"

text \<open>
  \<open>onAccept\<close>: \<open>p\<close> is the address of the new connection object, \<open>fd_event\<close> the event the group
  holds for a descriptor.
\<close>

definition onAccept ::
  "(int32 \<Rightarrow> string) \<Rightarrow> (int \<Rightarrow> conn_callback fd_event) \<Rightarrow> nat \<Rightarrow> int \<Rightarrow> sockaddr_in \<Rightarrow>
     ('d, 'e) tcp_server \<Rightarrow> ('d, 'e) tcp_server cpp" where
  "onAccept ntoa fd_event p accepted peer s =
     (let (client_fd, peer_addr) = accept_client ntoa accepted peer (m_acceptor s) in
      if client_fd < 0 \<or> peer_addr = None then Inr s
      else
        bind_cpp (checked_int (m_client_counts s + 1)) (\<lambda>n.
        bind_cpp (getIOThread (m_io_thread_group s)) (\<lambda>(io_thread, g).
          let s = s\<lparr>m_client_counts := n, m_io_thread_group := g\<rparr> in
          case io_thread of
            None \<Rightarrow> Inr (s\<lparr>closed_fds := closed_fds s @ [client_fd]\<rparr>)
          | Some i \<Rightarrow>
              bind_cpp (newTcpConnection (fd_event client_fd) client_fd 128 TcpConnectionByServer) (\<lambda>c.
                Inr (s\<lparr>m_client := map_insert p (i, listenRead (setState Connected c)) (m_client s)\<rparr>)))))"

definition ClearClientTimerFunc :: "('d, 'e) tcp_server \<Rightarrow> ('d, 'e) tcp_server" where
  "ClearClientTimerFunc s = s\<lparr>m_client := filter (\<lambda>(p, i, c). m_state c \<noteq> Closed) (m_client s)\<rparr>"

definition start_server ::
  "(nat \<Rightarrow> int) \<Rightarrow> ('e \<Rightarrow> 'e loop_call list) \<Rightarrow> wait_result list \<Rightarrow> ('d, 'e) tcp_server \<Rightarrow> ('d, 'e) tcp_server option" where
  "start_server clock behaviour waits s =
     (let s = s\<lparr>m_io_thread_group := start_group (m_io_thread_group s)\<rparr> in
      map_option (\<lambda>l. s\<lparr>m_main_event_loop := l\<rparr>) (loop clock behaviour waits (m_main_event_loop s)))"

text \<open>
  The destructor, called on the thread of the main loop: the server behind it, and the connections
  that \<open>m_client.clear()\<close> destroys, which clears them. The thread that serves a connection may be in one
  of its callbacks until it has been joined: destroying the connection before that is a data race.
  \<open>None\<close> is a destructor that waits for ever. The destructor of the thread group stops and joins once
  more, which changes nothing.
\<close>

fun destroy_clients ::
  "'e io_thread list \<Rightarrow> (nat, nat \<times> 'd tcp_connection) std_map \<Rightarrow> 'd tcp_connection list cpp" where
  "destroy_clients threads [] = Inr []"
| "destroy_clients threads ((p, i, c) # clients) =
     (if i < length threads \<and> pthread_joins (threads ! i) = 0 then Inl DataRace
      else map_cpp ((#) (clear c)) (destroy_clients threads clients))"

definition destroyTcpServer ::
  "(nat \<Rightarrow> int) \<Rightarrow> ('e \<Rightarrow> 'e loop_call list) \<Rightarrow> (nat \<Rightarrow> thread_kernel) \<Rightarrow> nat \<Rightarrow> nat \<Rightarrow> ('d, 'e) tcp_server \<Rightarrow>
     (('d, 'e) tcp_server \<times> 'd tcp_connection list) cpp option" where
  "destroyTcpServer clock behaviour kern ev te s =
     (let l = loop_deleteTimerEvent (Some te) (m_main_event_loop s);
          l = deleteEpollEvent True ev l;
          g = stop_group (m_io_thread_group s)
      in map_option (\<lambda>g.
           map_cpp (\<lambda>dead. (s\<lparr>m_main_event_loop := l, m_io_thread_group := g, m_client := []\<rparr>, dead))
             (destroy_clients (m_io_thread_groups g) (m_client s)))
           (join_group clock behaviour kern g))"

section \<open>Lemmas\<close>

text \<open>The address length given to \<open>accept(2)\<close> cuts the peer address off: every peer is \<open>0.0.0.0\<close>.\<close>

lemma accepted_peer_address:
  assumes "accept_client ntoa fd peer a = (fd', Some addr)" and "0 \<le> fd"
  shows "m_ip addr = ntoa 0 \<and> m_port addr = ntohs (sin_port peer)"
  using assms
  by (auto simp: accept_client_def IPNetAddr_sockaddr_def store_sockaddr_def clien_addr_len_def zero_sockaddr_def Let_def
      split: if_splits)

lemma ClearClientTimerFunc_find:
  assumes "map_ok (m_client s)"
  shows "map_ok (m_client (ClearClientTimerFunc s)) \<and>
         map_find (m_client (ClearClientTimerFunc s)) p =
           (case map_find (m_client s) p of
              Some (i, c) \<Rightarrow> if m_state c = Closed then None else Some (i, c)
            | None \<Rightarrow> None)"
proof -
  define m where "m = m_client s"
  have "map_ok m" using assms by (simp add: m_def)
  then have "map_ok (filter (\<lambda>(p, i, c). m_state c \<noteq> Closed) m) \<and>
      map_find (filter (\<lambda>(p, i, c). m_state c \<noteq> Closed) m) p =
        (case map_find m p of Some (i, c) \<Rightarrow> if m_state c = Closed then None else Some (i, c) | None \<Rightarrow> None)"
  proof (induction m)
    case (Cons x m)
    obtain q i c where x: "x = (q, i, c)" by (cases x) auto
    have "map_ok m" "\<forall>k \<in> fst ` set m. q < k"
      using Cons.prems by (auto simp: map_ok_def x)
    then have "map_find m q = None"
      by (force simp: map_find_def map_of_eq_None_iff)
    with Cons.IH [OF \<open>map_ok m\<close>] \<open>\<forall>k \<in> fst ` set m. q < k\<close> show ?case
      by (auto simp: x map_find_def map_ok_def)
  qed (simp add: map_find_def)
  then show ?thesis by (simp add: m_def ClearClientTimerFunc_def)
qed

lemma opened_serves:
  assumes "0 \<le> fd"
  shows "server_open (opened TcpConnectionByServer fd) 1000000000" "in_buffer_ok (m_in_buffer (opened type fd)) 1000000000"
  using assms
  by (simp_all add: server_open_def opened_def buffer_defs room_def in_buffer_ok_def INT_MAX_def)

section \<open>Properties\<close>

text \<open>
  An accepted connection is served: while the group has threads, a successful \<open>accept\<close> adds
  exactly one connection to the server, in the connected state, with empty buffers that have room
  for a gigabyte each way, and registered for reading with the loop of the next thread in turn;
  the other connections stay as they are and no descriptor is closed.
\<close>

theorem accepted_connection_is_served:
  assumes "m_family (m_acceptor s) = AF_INET" and "0 \<le> fd" and "group_index_ok (m_io_thread_group s)"
    and "0 \<le> m_client_counts s" and "m_client_counts s < INT_MAX" and "map_ok (m_client s)" and "map_find (m_client s) p = None"
  shows "\<exists>s' c. onAccept ntoa newFd_Event p fd peer s = Inr s' \<and> map_ok (m_client s') \<and>
     map_find (m_client s') = (map_find (m_client s))
       (p \<mapsto> (nat (m_index (m_io_thread_group s)) mod length (m_io_thread_groups (m_io_thread_group s)), c)) \<and>
     group_index_ok (m_io_thread_group s') \<and> closed_fds s' = closed_fds s \<and>
     server_open c 1000000000 \<and> in_buffer_ok (m_in_buffer c) 1000000000 \<and>
     contents (m_in_buffer c) = [] \<and> contents (m_out_buffer c) = [] \<and> tc_fd c = fd \<and>
     effects c = [AddEpollEvent (EPOLLIN OR EPOLLRDHUP)] \<and>
     handler IN_EVENT (m_fd_event c) = Some CallOnRead \<and> handler ERROR_EVENT (m_fd_event c) = Some CallClear"
proof -
  obtain peer_addr where a: "accept_client ntoa fd peer (m_acceptor s) = (fd, Some peer_addr)"
    using assms(1) by (simp add: accept_client_def)
  obtain g where g: "getIOThread (m_io_thread_group s) =
      Inr (Some (nat (m_index (m_io_thread_group s)) mod length (m_io_thread_groups (m_io_thread_group s))), g)" "group_index_ok g"
    using getIOThread_ok [OF assms(3)] by blast
  obtain c0 :: "'a tcp_connection" where c0: "newTcpConnection (newFd_Event fd) fd 128 TcpConnectionByServer = Inr c0"
    by (simp add: newTcpConnection_def newTcpBuffer_def new_vector_def)
  define c where "c = listenRead (opened TcpConnectionByServer fd :: 'a tcp_connection)"
  have c: "listenRead (setState Connected c0) = c"
    using opened_new [OF c0] by (simp add: c_def)
  have keeps: "server_open c 1000000000" "in_buffer_ok (m_in_buffer c) 1000000000"
    using opened_serves [OF assms(2)]
    by (simp_all add: c_def listenRead_def addEpoll_def emit_def server_open_def opened_def)
  have "contents (m_in_buffer c) = [] \<and> contents (m_out_buffer c) = [] \<and> tc_fd c = fd \<and>
      effects c = [AddEpollEvent (EPOLLIN OR EPOLLRDHUP)] \<and>
      handler IN_EVENT (m_fd_event c) = Some CallOnRead \<and> handler ERROR_EVENT (m_fd_event c) = Some CallClear"
    using assms(2) by (simp add: c_def listenRead_def addEpoll_def emit_def opened_def contents_def readAble_def listen_def
        newFd_Event_def fe_reset_def Let_def)
  moreover have "onAccept ntoa newFd_Event p fd peer s = Inr (s\<lparr>m_client_counts := m_client_counts s + 1, m_io_thread_group := g,
      m_client := map_insert p (nat (m_index (m_io_thread_group s)) mod length (m_io_thread_groups (m_io_thread_group s)), c) (m_client s)\<rparr>)"
    using assms(2,4,5) a g(1) c0 c INT_MIN_le_nonneg [of "m_client_counts s + 1"] by (simp add: onAccept_def Let_def)
  ultimately show ?thesis
    using keeps g(2) assms(6,7) by (auto simp: map_insert_def map_ok_assign map_find_assign)
qed

definition idle_server :: "(nat, nat) tcp_server" where
  "idle_server = \<lparr>m_acceptor = \<lparr>ac_local_addr = IPNetAddr (\<lambda>_. 1) ''0.0.0.0'' 80, m_family = AF_INET, m_listenfd = 5\<rparr>,
     m_main_event_loop = idle_loop,
     m_io_thread_group = \<lparr>m_io_thread_groups = [newIOThread idle_loop, newIOThread idle_loop], m_index = 0\<rparr>,
     m_client_counts = 0, m_client = [], closed_fds = []\<rparr>"

theorem accepted_connection_is_served_witness:
  "\<exists>s' c. onAccept (\<lambda>_. ''0.0.0.0'') newFd_Event 1 7 zero_sockaddr idle_server = Inr s' \<and>
     map_find (m_client s') 1 = Some (0, c) \<and> m_state c = Connected"
  using accepted_connection_is_served [of idle_server 7 1 "\<lambda>_. ''0.0.0.0''" zero_sockaddr]
  by (auto simp: idle_server_def group_index_ok_def server_open_def)

lemma destroy_clients_joined:
  assumes "\<forall>t \<in> set threads. pthread_joins t = 1"
  shows "destroy_clients threads clients = Inr (map (\<lambda>(p, i, c). clear c) clients)"
  using assms by (induction threads clients rule: destroy_clients.induct) auto



text \<open>The order matters: the threads of this server are not stopped, so joining them first would wait for ever.\<close>

lemma join_first_hangs: "join_group (\<lambda>_. 0) (\<lambda>_. []) (\<lambda>_. ([], [])) (m_io_thread_group idle_server) = None"
  by (simp add: join_group_def idle_server_def join_waits_for_stop newIOThread_def idle_loop_def)

end
