(* ===== verification/ServedProps.thy ===== *)
theory ServedProps
  imports ServedLoop TcpServer
begin

text \<open>
  What an IO thread guarantees to its connections, over the composition of event loop, connections
  and dispatcher of the theory \<open>ServedLoop\<close>: nothing an open connection waits for is forgotten, and a
  request that arrives is answered after a known number of iterations.
\<close>

section \<open>From accepting to watching\<close>

text \<open>After accepting and one batch of tasks the first connection is open and registered.\<close>

lemma accept_registers:
  fixes si :: "'d served"
  assumes run: "\<not> m_stop_flag (sv_loop si)" and idle: "m_pending_tasks (sv_loop si) = []" and none: "sv_conn si = Map.empty"
    and fd: "0 \<le> fd" "nat fd \<notin> own"
  shows "\<exists>s. served_reach disp clock own (Top, si) (RunTasks [], s) \<and> is_open s k (listenRead (opened TcpConnectionByServer fd)) \<and>
           \<not> m_stop_flag (sv_loop s) \<and> m_pending_tasks (sv_loop s) = [] \<and> sv_arrivals s = sv_arrivals si"
proof -
  obtain c0 :: "'d tcp_connection" where c0: "newTcpConnection (newFd_Event fd) fd 128 TcpConnectionByServer = Inr c0"
    by (simp add: newTcpConnection_def newTcpBuffer_def new_vector_def)
  define c :: "'d tcp_connection" where "c = listenRead (opened TcpConnectionByServer fd)"
  define s1 where "s1 = carry_out False k (opened TcpConnectionByServer fd) c si"
  have new: "serve_new k fd si = Inr s1"
    using c0 opened_new [OF c0] by (simp add: serve_new_def s1_def c_def Let_def)
  have s1: "\<not> m_stop_flag (sv_loop s1)" "m_pending_tasks (sv_loop s1) = [Some (AddToEpoll (nat fd))]"
    "is_open s1 k c" "sv_arrivals s1 = sv_arrivals si"
    using run idle fd
    by (simp_all add: s1_def c_def carry_out_def Let_def opened_def listenRead_def addEpoll_def emit_def event_addr_def
        addEpollEvent_def is_open_def is_closed_def)
  define s2 where "s2 = take_tasks s1"
  define s3 where "s3 = s2\<lparr>sv_loop := ADD_TO_EPOLL (nat fd) (sv_loop s2)\<rparr>"
  have s2: "\<not> m_stop_flag (sv_loop s2)" "is_open s2 k c" "m_pending_tasks (sv_loop s2) = []" "sv_arrivals s2 = sv_arrivals si"
    using s1 by (simp_all add: s2_def take_tasks_def is_open_def)
  have "served_step disp clock own (Top, si) (Top, s1)"
    using served_step.accept [of fd own si k s1] fd none new by (simp add: is_open_def)
  moreover have "served_step disp clock own (Top, s1) (RunTasks [Some (AddToEpoll (nat fd))], s2)"
    using served_step.take_batch [OF s1(1)] by (simp add: s1(2) s2_def)
  moreover have "served_step disp clock own (RunTasks [Some (AddToEpoll (nat fd))], s2) (RunTasks [], s3)"
    using served_step.run_task [OF s2(1), of disp clock "\<lambda>_. []" "Some (AddToEpoll (nat fd))"]
    by (simp add: run_served_closure_def s3_def)
  ultimately have "served_reach disp clock own (Top, si) (RunTasks [], s3)"
    by (meson served_reach.intros)
  moreover have "is_open s3 k c" "\<not> m_stop_flag (sv_loop s3)" "m_pending_tasks (sv_loop s3) = []" "sv_arrivals s3 = sv_arrivals si"
    using s2 by (simp_all add: s3_def is_open_def)
  ultimately show ?thesis unfolding c_def by blast
qed

text \<open>The connection that \<open>onAccept\<close> adds to the server is the one \<open>serve_new\<close> adds to the loop.\<close>

lemma onAccept_serves:
  assumes "onAccept ntoa newFd_Event k fd peer srv = Inr srv'" and "map_ok (m_client srv)"
    and "map_find (m_client srv) k = None" and "map_find (m_client srv') k = Some (i, c)"
  shows "serve_new k fd s = Inr (carry_out False k (opened TcpConnectionByServer fd) c s)"
proof -
  obtain c0 :: "'a tcp_connection" where c0: "newTcpConnection (newFd_Event fd) fd 128 TcpConnectionByServer = Inr c0"
    by (simp add: newTcpConnection_def newTcpBuffer_def new_vector_def)
  have fd: "fst (accept_client ntoa fd peer (m_acceptor srv)) = fd \<or> fst (accept_client ntoa fd peer (m_acceptor srv)) < 0"
    by (simp add: accept_client_def Let_def)
  have "c = listenRead (opened TcpConnectionByServer fd)"
    using assms fd c0 opened_new [OF c0]
    by (auto simp: onAccept_def bind_cpp_eq_Inr map_insert_def map_find_assign Let_def split: prod.splits if_splits option.splits)
  then show ?thesis
    using c0 opened_new [OF c0] by (simp add: serve_new_def Let_def)
qed

lemma fresh_loop:
  "\<exists>l. newEventloop False 3 (nat 4, 4) (nat 5, 5) (\<lambda>p. newFd_Event (int p)) (\<lambda>_. newTimerEvent 0 0 False None) = Some l \<and>
     \<not> m_stop_flag l \<and> m_pending_tasks l = []"
  by (simp add: newEventloop_def initWakeUpFdEevent_def initTimer_def addEpollEvent_def Let_def)

section \<open>Properties\<close>

text \<open>
  C5. No wake-up is lost: in every state an IO thread can reach while its loop is not stopped, however accepting, arriving data,
  callbacks, waiting and errors interleave, the events of an open connection lead to that
  connection's callbacks, and the kernel watches its descriptor for input, and for output as long
  as there is some to send, unless a task that registers or closes the connection is already queued.
  Every \<open>epoll_ctl\<close> of such a run is one the kernel accepts, so what the loop has asked for is what the
  kernel watches.
\<close>

theorem open_connections_are_watched:
  assumes "newEventloop created epoll_fd (nat wfd, wfd) (nat tfd, tfd) (\<lambda>p. newFd_Event (int p)) tevs = Some l0"
    and "0 \<le> tfd" and "wfd \<noteq> tfd"
    and "served_reach (dispatch_request services) clock {nat wfd, nat tfd} (Top, served_init l0) (ph, s)"
    and "\<not> m_stop_flag (sv_loop s)" and "is_open s k c" and "tasks = taken ph @ m_pending_tasks (sv_loop s)"
  shows "replay (epoll_calls (sv_loop s)) {} = Some (m_listen_fds (sv_loop s)) \<and> m_state c = Connected \<and> 0 \<le> tc_fd c \<and>
     handler IN_EVENT (fd_events (sv_loop s) (nat (tc_fd c))) = Some (User (k, CallOnRead)) \<and>
     handler ERROR_EVENT (fd_events (sv_loop s) (nat (tc_fd c))) = Some (User (k, CallClear)) \<and>
     (readAble (m_out_buffer c) \<noteq> 0 \<longrightarrow>
        handler OUT_EVENT (fd_events (sv_loop s) (nat (tc_fd c))) = Some (User (k, CallOnWrite))) \<and>
     ((\<exists>events. kernel_mask (sv_loop s) (tc_fd c) = Some events \<and> events AND EPOLLIN \<noteq> 0 \<and>
         (readAble (m_out_buffer c) \<noteq> 0 \<longrightarrow> events AND EPOLLOUT \<noteq> 0)) \<or>
      Some (AddToEpoll (nat (tc_fd c))) \<in> set tasks \<or> Some (User (k, CallClear)) \<in> set tasks)"
proof -
  have "config_ok {nat wfd, nat tfd} (ph, s)"
    using rpc_loop.reach_ok [OF assms(4)] served_init_ok [OF assms(1-3)] by blast
  then have ok: "served_ok {nat wfd, nat tfd} tasks s"
    using assms(5,7) by (simp add: config_ok_def)
  have "mirrors_kernel (sv_loop s)"
    using served_mirroring.R_reach [OF assms(4)] newEventloop_mirrors [OF assms(1)] by (simp add: served_init_def)
  then have "replay (epoll_calls (sv_loop s)) {} = Some (m_listen_fds (sv_loop s))"
    by (simp add: mirrors_kernel_def)
  moreover note c = served_okD(4-6) [OF ok assms(6)]
  have "event_addr c = nat (tc_fd c)"
    using watching_addr [OF c(1)] by (simp add: event_addr_def)
  ultimately show ?thesis
    using c by (auto simp: watching_def serving_def registered_def simp del: handler.simps)
qed

theorem open_connections_are_watched_witness:
  "\<exists>(s :: nat served) c. is_open s 1 c \<and> tc_fd c = 7 \<and>
     handler IN_EVENT (fd_events (sv_loop s) 7) = Some (User (1, CallOnRead)) \<and>
     (\<exists>events. kernel_mask (sv_loop s) 7 = Some events \<and> events AND EPOLLIN \<noteq> 0)"
proof -
  obtain l0 :: "(nat \<times> conn_callback) eventloop" where l0: "newEventloop False 3 (nat 4, 4) (nat 5, 5) (\<lambda>p. newFd_Event (int p)) (\<lambda>_. newTimerEvent 0 0 False None) = Some l0"
      "\<not> m_stop_flag l0" "m_pending_tasks l0 = []"
    using fresh_loop by blast
  define c :: "nat tcp_connection" where "c = listenRead (opened TcpConnectionByServer 7)"
  obtain s :: "nat served" where s: "served_reach (dispatch_request [(''Echo'', echo_service)]) (\<lambda>_. 0) {nat 4, nat 5} (Top, served_init l0) (RunTasks [], s)"
      "is_open s 1 c" "\<not> m_stop_flag (sv_loop s)" "m_pending_tasks (sv_loop s) = []"
    using accept_registers [where si = "served_init l0 :: nat served" and fd = 7 and own = "{nat 4, nat 5}" and k = 1
        and clock = "\<lambda>_. 0" and disp = "dispatch_request [(''Echo'', echo_service)]"] l0(2,3)
    by (auto simp: served_init_def c_def)
  have "tc_fd c = 7" by (simp add: c_def listenRead_def opened_def addEpoll_def emit_def)
  with open_connections_are_watched [OF l0(1) _ _ s(1,3,2) refl] s(2,4) show ?thesis
    by (intro exI [of _ s] exI [of _ c]) auto
qed

section \<open>Iterations\<close>

lemma dispatch_ready:
  "dispatch_event (Some p, EPOLLIN) l = addTask (handler IN_EVENT (fd_events l p)) False l"
  "dispatch_event (Some p, EPOLLOUT) l = addTask (handler OUT_EVENT (fd_events l p)) False l"
  by (simp_all add: dispatch_event_def EPOLLIN_def EPOLLOUT_def EPOLLERR_def EPOLLHUP_def EPOLLRDHUP_def Let_def)

text \<open>An idle loop queues the callback of the event that wakes it.\<close>

lemma idle_iteration:
  assumes "m_pending_tasks (sv_loop s) = []"
  shows "served_iteration disp clock wr w s = Inr (dispatch_events w s)"
proof -
  have "take_tasks s = s" using assms by (cases s, cases "sv_loop s") (simp add: take_tasks_def)
  then show ?thesis by (simp add: served_iteration_def assms)
qed

definition with_task :: "(nat \<times> conn_callback) closure \<Rightarrow> 'd served \<Rightarrow> 'd served" where
  "with_task cb s = s\<lparr>sv_loop := addTask (Some cb) False (sv_loop s)\<rparr>"

context loop_handler
begin

text \<open>A loop with one task for a connection runs it and is idle again.\<close>

lemma task_iteration:
  assumes "served_ok own [] s" and "\<not> m_stop_flag (sv_loop s)" and "m_pending_tasks (sv_loop s) = []"
    and "run_connection disp (wr k) k cb s = Inr t"
  shows "served_iteration disp clock wr w (with_task (User (k, cb)) s) = Inr (dispatch_events w t)"
    "served_ok own [] t" "\<not> m_stop_flag (sv_loop t)" "m_pending_tasks (sv_loop t) = []"
proof -
  have t: "take_tasks (with_task (User (k, cb)) s) = s" "m_pending_tasks (sv_loop (with_task (User (k, cb)) s)) = [Some (User (k, cb))]"
    using assms(2,3) by (cases s, cases "sv_loop s", simp add: take_tasks_def with_task_def addTask_def)+
  then show "served_iteration disp clock wr w (with_task (User (k, cb)) s) = Inr (dispatch_events w t)"
    using assms(2,4) by (simp add: served_iteration_def run_served_closure_def)
  have "served_ok own [Some (User (k, cb))] s"
    using served_ok_weaken [OF assms(1)] by simp
  from run_connection_ok [OF this assms(2,4)] assms(3)
  show "served_ok own [] t" "\<not> m_stop_flag (sv_loop t)" "m_pending_tasks (sv_loop t) = []" by auto
qed

end

text \<open>
  A write event whose kernel takes at least one byte: nothing is lost, less is left, and when nothing
  is left the interest in writing ends.
\<close>

lemma write_loop_some:
  assumes "buffer_ok b" and "contents b \<noteq> []" and "0 < n"
  shows "\<exists>ending b' out. write_loop [WriteAccepts n] b = Inr (ending, b', out) \<and> buffer_ok b' \<and> ending \<noteq> WriteFailed \<and>
           contents b = out @ contents b' \<and> (ending = WroteAll \<longleftrightarrow> contents b' = []) \<and>
           length (contents b') < length (contents b)"
proof -
  obtain ending b' out where w: "write_loop [WriteAccepts n] b = Inr (ending, b', out)" "buffer_ok b'"
      "contents b = out @ contents b'" "ending = WroteAll \<longleftrightarrow> contents b' = []"
    using write_loop_ok [OF assms(1)] by blast
  have "ending \<noteq> WriteFailed"
    using write_loop_failed [of "[WriteAccepts n]"] w(1) by (auto simp: hard_error_def)
  moreover have "out \<noteq> []"
  proof -
    define rt where "rt = min (int n) (readAble b)"
    have len: "readAble b = int (length (contents b))"
      using readAble_contents [OF assms(1)] .
    then have rt: "0 < rt" "readAble b \<noteq> 0" using assms(2,3) by (auto simp: rt_def)
    have "take (nat rt) (drop (nat (readIndex b)) (m_buffer b)) = take (nat rt) (contents b)"
      using contents_slice [OF assms(1), of 0 rt] rt by (simp add: readIndex_def rt_def)
    moreover have "\<exists>out'. out = take (nat rt) (drop (nat (readIndex b)) (m_buffer b)) @ out'"
      using w(1) rt by (auto simp: write_loop.simps [of "[WriteAccepts n]"] rt_def bind_cpp_eq_Inr Let_def split: if_splits)
    ultimately show ?thesis using rt assms(2) by auto
  qed
  ultimately show ?thesis using w by auto
qed

lemma onWrite_some:
  assumes "watching c" and "buffer_ok (m_out_buffer c)" and "contents (m_out_buffer c) \<noteq> []" and "0 < n"
  shows "\<exists>c'. onWrite [WriteAccepts n] c = Inr c' \<and> keeps_watching c c' \<and> buffer_ok (m_out_buffer c') \<and>
           sent c' @ contents (m_out_buffer c') = sent c @ contents (m_out_buffer c) \<and>
           length (contents (m_out_buffer c')) < length (contents (m_out_buffer c)) \<and>
           (contents (m_out_buffer c') = [] \<longrightarrow> m_listen_event (m_fd_event c') AND EPOLLOUT = 0)"
proof -
  obtain ending b out where w: "write_loop [WriteAccepts n] (m_out_buffer c) = Inr (ending, b, out)" "buffer_ok b"
      "ending \<noteq> WriteFailed" "contents (m_out_buffer c) = out @ contents b" "ending = WroteAll \<longleftrightarrow> contents b = []"
      "length (contents b) < length (contents (m_out_buffer c))"
    using write_loop_some [OF assms(2-4)] by blast
  have "(m AND NOT (interest OUT_EVENT)) AND EPOLLOUT = 0" for m
    by (simp add: interest_def bit_eq_iff bit_simps)
  with w assms(1) obtain c' where c': "onWrite [WriteAccepts n] c = Inr c'" "sent c' = sent c @ out" "m_out_buffer c' = b"
      "contents b = [] \<longrightarrow> m_listen_event (m_fd_event c') AND EPOLLOUT = 0" "m_state c' = Connected"
    by (auto simp: onWrite_def watching_def serving_def Let_def addEpoll_def emit_def zip_map_fst_snd simp del: cancle.simps)
  moreover have "\<not> closes c c'"
    using c'(5) by (auto simp: closes_def is_closed_def)
  ultimately show ?thesis
    using onWrite_keeps_watching [OF assms(1)] w(2,4,6) by auto
qed

lemma is_open_carried: "keeps_watching c c' \<Longrightarrow> is_open (carry_out True k c c' s) k c'"
  by (auto simp: carry_out_def Let_def is_open_def is_closed_def keeps_watching_def watching_def serving_def)

text \<open>The read callback on a connection whose data is one request for a registered method.\<close>

lemma request_read:
  fixes services :: "('m, 'q, 'r) dispatcher" and c :: "'d tcp_connection"
  assumes "is_open s k c" and "watching c"
    and "sv_arrivals s k = [ReadData bs]" and "bs \<noteq> []" and "decode_bytes bs = ([req], [])"
    and "contents (m_in_buffer c) = []" and "in_buffer_ok (m_in_buffer c) (length bs)" and "contents (m_out_buffer c) = []"
    and "parseServiceFullName (m_method_name req) = Some (sn, mn)" and "map_find services sn = Some svc"
    and "FindMethodByName svc mn = Some meth" and "ParseRequest svc meth (m_pb_data req) = Some q"
    and "call svc meth q = [r]" and "SerializeToString svc r = (True, data)" and "encodable (response_to req data)"
    and "server_open c (length (packet (with_msg_id (response_to req data))))"
  shows "\<exists>t c'. run_connection (dispatch_request services) writes k CallOnRead s = Inr t \<and> is_open t k c' \<and> keeps_watching c c' \<and>
     sent c' = sent c \<and> buffer_ok (m_out_buffer c') \<and>
     contents (m_out_buffer c') = packet (with_msg_id (response_to req data))"
proof -
  obtain c1 where c1: "dispatch_request services req newTinyPB c = Inr c1" "server_open c1 0" "sent c1 = sent c"
      "contents (m_out_buffer c1) = packet (with_msg_id (response_to req data))"
    using dispatch_success [OF assms(9-14), of c 0] assms(8,15,16) by (auto simp: dispatch_request_def)
  obtain b where arr: "arrival (dispatch_request services) bs c = Inr (c1\<lparr>m_in_buffer := b\<rparr>)"
    using rpc.arrival_ok [of c bs 0 services c1] assms(2,4-7) c1(1) by (auto simp: watching_def)
  define c2 where "c2 = c1\<lparr>m_in_buffer := b\<rparr>"
  have c2: "keeps_watching c c2" "sent c2 = sent c" "m_out_buffer c2 = m_out_buffer c1"
    using rpc_loop.handler_watching [OF assms(2) c1(1)] c1(3) by (auto simp: keeps_watching_def c2_def)
  obtain rest where "onRead (dispatch_request services) [ReadData bs] c = Inr (c2, rest)"
    using arr by (auto simp: arrival_def map_cpp_eq_Inr c2_def)
  then have "run_connection (dispatch_request services) writes k CallOnRead s =
      Inr (carry_out True k c c2 (s\<lparr>sv_arrivals := (sv_arrivals s)(k := rest)\<rparr>))"
    using assms(1) by (simp add: run_connection_def is_open_def assms(3))
  moreover have "buffer_ok (m_out_buffer c2)" "contents (m_out_buffer c2) = packet (with_msg_id (response_to req data))"
    using c1(2,4) c2(3) by (simp_all add: server_open_def)
  ultimately show ?thesis
    using is_open_carried [OF c2(1)] c2(1,2) by blast
qed

lemma watching_event_addr: "watching c \<Longrightarrow> event_addr c = nat (tc_fd c)"
  using watching_addr [of c] by (simp add: event_addr_def)

text \<open>An idle loop has registered every open connection for what it asks for.\<close>

lemma idle_open:
  assumes "served_ok own [] s" and "is_open s k c"
  shows "watching c" "fd_events (sv_loop s) (nat (tc_fd c)) = lift_event k (m_fd_event c)"
    "kernel_mask (sv_loop s) (tc_fd c) = Some (m_listen_event (m_fd_event c))"
  using served_okD(4-6) [OF assms] watching_event_addr [OF served_okD(4) [OF assms]] by (simp_all add: registered_def)

definition served_run ::
  "(tinypb \<Rightarrow> tinypb \<Rightarrow> 'd tcp_connection \<Rightarrow> 'd tcp_connection cpp) \<Rightarrow> (nat \<Rightarrow> int) \<Rightarrow> (nat \<Rightarrow> sys_write list) \<Rightarrow>
     wait_result list \<Rightarrow> 'd served \<Rightarrow> 'd served cpp" where
  "served_run disp clock wr waits s = fold_cpp (served_iteration disp clock wr) waits s"

context loop_handler
begin

text \<open>A loop with output to send sends all of it, however little the kernel takes at a time.\<close>

lemma output_drains:
  assumes "served_ok own [] s" and "\<not> m_stop_flag (sv_loop s)" and "m_pending_tasks (sv_loop s) = []" and "is_open s k c"
    and "buffer_ok (m_out_buffer c)" and "contents (m_out_buffer c) \<noteq> []" and "wr k = [WriteAccepts n]" and "0 < n"
  shows "\<exists>j s' c'. j < length (contents (m_out_buffer c)) \<and>
     served_run disp clock wr (replicate j (WaitEvents [(Some (nat (tc_fd c)), EPOLLOUT)]) @ [WaitEvents []])
       (with_task (User (k, CallOnWrite)) s) = Inr s' \<and>
     is_open s' k c' \<and> tc_fd c' = tc_fd c \<and> served_ok own [] s' \<and> contents (m_out_buffer c') = [] \<and>
     sent c' = sent c @ contents (m_out_buffer c) \<and> m_listen_event (m_fd_event c') AND EPOLLOUT = 0"
  using assms(1-6)
proof (induction "length (contents (m_out_buffer c))" arbitrary: s c rule: less_induct)
  case less
  define a where "a = nat (tc_fd c)"
  obtain c1 where c1: "onWrite [WriteAccepts n] c = Inr c1" "keeps_watching c c1" "buffer_ok (m_out_buffer c1)"
      "sent c1 @ contents (m_out_buffer c1) = sent c @ contents (m_out_buffer c)"
      "length (contents (m_out_buffer c1)) < length (contents (m_out_buffer c))"
      "contents (m_out_buffer c1) = [] \<longrightarrow> m_listen_event (m_fd_event c1) AND EPOLLOUT = 0"
    using onWrite_some [OF idle_open(1) [OF less.prems(1,4)] less.prems(5,6) assms(8)] by blast
  define t where "t = carry_out True k c c1 s"
  have "run_connection disp (wr k) k CallOnWrite s = Inr t"
    using less.prems(4) c1(1) by (simp add: run_connection_def is_open_def assms(7) t_def)
  note it = task_iteration [where wr = wr, OF less.prems(1-3) this]
  have t: "is_open t k c1" "tc_fd c1 = tc_fd c"
    using is_open_carried [OF c1(2)] c1(2) by (simp_all add: t_def keeps_watching_def)
  show ?case
  proof (cases "contents (m_out_buffer c1) = []")
    case True
    then show ?thesis
      using it t c1(4-6) by (intro exI [of _ 0] exI [of _ t] exI [of _ c1]) (simp add: served_run_def)
  next
    case False
    then have "readAble (m_out_buffer c1) \<noteq> 0" using contents_empty [OF c1(3)] by simp
    then have next_task: "dispatch_events (WaitEvents [(Some a, EPOLLOUT)]) t = with_task (User (k, CallOnWrite)) t"
      using idle_open [OF it(2) t(1)] t(2) by (simp add: a_def dispatch_ready with_task_def watching_def del: handler.simps)
    obtain j s' c' where IH: "j < length (contents (m_out_buffer c1))"
        "served_run disp clock wr (replicate j (WaitEvents [(Some a, EPOLLOUT)]) @ [WaitEvents []]) (with_task (User (k, CallOnWrite)) t) = Inr s'"
        "is_open s' k c'" "tc_fd c' = tc_fd c1" "served_ok own [] s'" "contents (m_out_buffer c') = []"
        "sent c' = sent c1 @ contents (m_out_buffer c1)" "m_listen_event (m_fd_event c') AND EPOLLOUT = 0"
      using less.hyps [OF c1(5) it(2-4) t(1) c1(3) False] by (auto simp: a_def t(2))
    then show ?thesis
      using it(1) next_task c1(4,5) t(2)
      by (intro exI [of _ "Suc j"] exI [of _ s'] exI [of _ c']) (simp add: served_run_def a_def)
  qed
qed

end

text \<open>
  C3. A request that arrives is answered: when the data in the socket of an open connection is one
  request for a registered method, then the iteration that is woken by the input, the next one, which
  dispatches the request, and at most as many more, woken because the kernel now also watches for
  output, as the response has bytes run without a fault, if only the kernel takes at least one byte
  each time; after these iterations the bytes handed to the kernel are one packet that decodes to the
  response with the request's method name and result, the out buffer is empty and the kernel watches
  for input only.
\<close>

theorem loop_answers_request:
  fixes services :: "('m, 'q, 'r) dispatcher" and c :: "'d tcp_connection"
  assumes "served_ok own [] s" and "\<not> m_stop_flag (sv_loop s)" and "m_pending_tasks (sv_loop s) = []" and "is_open s k c"
    and "sv_arrivals s k = [ReadData bs]" and "bs \<noteq> []" and "decode_bytes bs = ([req], [])"
    and "contents (m_in_buffer c) = []" and "in_buffer_ok (m_in_buffer c) (length bs)" and "contents (m_out_buffer c) = []"
    and "parseServiceFullName (m_method_name req) = Some (sn, mn)" and "map_find services sn = Some svc"
    and "FindMethodByName svc mn = Some meth" and "ParseRequest svc meth (m_pb_data req) = Some q"
    and "call svc meth q = [r]" and "SerializeToString svc r = (True, data)" and "encodable (response_to req data)"
    and "server_open c (length (packet (with_msg_id (response_to req data))))"
    and "wr k = [WriteAccepts n]" and "0 < n"
  shows "\<exists>s1 s2 s3 c' rsp out events j.
     served_iteration (dispatch_request services) clock wr (WaitEvents [(Some (nat (tc_fd c)), EPOLLIN)]) s = Inr s1 \<and>
     served_iteration (dispatch_request services) clock wr (WaitEvents [(Some (nat (tc_fd c)), EPOLLOUT)]) s1 = Inr s2 \<and>
     kernel_mask (sv_loop s2) (tc_fd c) = Some events \<and> events AND EPOLLOUT \<noteq> 0 \<and>
     served_run (dispatch_request services) clock wr
       (replicate j (WaitEvents [(Some (nat (tc_fd c)), EPOLLOUT)]) @ [WaitEvents []]) s2 = Inr s3 \<and> j < length out \<and>
     is_open s3 k c' \<and> sent c' = sent c @ out \<and> decode_bytes out = ([rsp], []) \<and>
     m_method_name rsp = m_method_name req \<and> m_err_code rsp = 0 \<and> m_pb_data rsp = data \<and>
     (m_msg_id req \<noteq> [] \<longrightarrow> m_msg_id rsp = m_msg_id req) \<and> contents (m_out_buffer c') = [] \<and>
     (\<exists>events. kernel_mask (sv_loop s3) (tc_fd c) = Some events \<and> events AND EPOLLIN \<noteq> 0 \<and> events AND EPOLLOUT = 0)"
proof -
  define D where "D = (dispatch_request services :: tinypb \<Rightarrow> tinypb \<Rightarrow> 'd tcp_connection \<Rightarrow> 'd tcp_connection cpp)"
  define rsp where "rsp = with_msg_id (response_to req data)"
  note c = idle_open [OF assms(1,4)]
  obtain t2 c2 where t2: "run_connection D (wr k) k CallOnRead s = Inr t2" "is_open t2 k c2" "keeps_watching c c2"
      "sent c2 = sent c" "buffer_ok (m_out_buffer c2)" "contents (m_out_buffer c2) = packet rsp"
    using request_read [OF assms(4) c(1) assms(5-18)] unfolding D_def rsp_def by blast
  note it2 = rpc_loop.task_iteration [where wr = wr, OF assms(1-3) t2(1) [unfolded D_def], folded D_def]
  note c2 = idle_open [OF it2(2) t2(2)]
  have fd2: "tc_fd c2 = tc_fd c" using t2(3) by (simp add: keeps_watching_def)
  have out2: "readAble (m_out_buffer c2) \<noteq> 0"
    using t2(6) contents_empty [OF t2(5)] by (auto simp: packet_def)
  obtain j s3 c3 where c3: "j < length (packet rsp)"
      "served_run D clock wr (replicate j (WaitEvents [(Some (nat (tc_fd c)), EPOLLOUT)]) @ [WaitEvents []])
         (with_task (User (k, CallOnWrite)) t2) = Inr s3"
      "is_open s3 k c3" "tc_fd c3 = tc_fd c" "served_ok own [] s3" "contents (m_out_buffer c3) = []" "sent c3 = sent c @ packet rsp"
      "m_listen_event (m_fd_event c3) AND EPOLLOUT = 0"
    using rpc_loop.output_drains [where wr = wr and clock = clock and services = services, OF it2(2-4) t2(2,5) _ assms(19,20)] t2(4,6) fd2
    by (auto simp: D_def packet_def)
  have "served_iteration D clock wr (WaitEvents [(Some (nat (tc_fd c)), EPOLLIN)]) s = Inr (with_task (User (k, CallOnRead)) s)"
    using c(1) by (simp add: idle_iteration assms(3) dispatch_ready c(2) with_task_def watching_def del: handler.simps)
  moreover have "served_iteration D clock wr (WaitEvents [(Some (nat (tc_fd c)), EPOLLOUT)]) (with_task (User (k, CallOnRead)) s) =
      Inr (with_task (User (k, CallOnWrite)) t2)"
    unfolding it2(1) using c2(1) out2 c2(2) fd2 by (simp add: dispatch_ready with_task_def watching_def del: handler.simps)
  moreover have "kernel_mask (sv_loop (with_task (User (k, CallOnWrite)) t2)) (tc_fd c) = Some (m_listen_event (m_fd_event c2))"
    "m_listen_event (m_fd_event c2) AND EPOLLOUT \<noteq> 0"
    using c2(1,3) fd2 out2 by (auto simp: with_task_def watching_def)
  moreover have "decode_bytes (packet rsp) = ([stamped rsp], [])"
    using decode_packet [OF assms(17), of "[]"] by (simp add: rsp_def wire.dec_empty)
  moreover have "m_method_name (stamped rsp) = m_method_name req" "m_err_code (stamped rsp) = 0"
    "m_pb_data (stamped rsp) = data" "m_msg_id req \<noteq> [] \<longrightarrow> m_msg_id (stamped rsp) = m_msg_id req"
    by (simp_all add: rsp_def stamped_def with_msg_id_def response_to_def newTinyPB_def)
  moreover have "kernel_mask (sv_loop s3) (tc_fd c) = Some (m_listen_event (m_fd_event c3))"
    "m_listen_event (m_fd_event c3) AND EPOLLIN \<noteq> 0"
    using idle_open(1,3) [OF c3(5,3)] c3(4) by (auto simp: watching_def)
  ultimately show ?thesis
    using c3 unfolding D_def by blast
qed

theorem loop_answers_request_witness:
  "\<exists>(s :: nat served) s1 s2 s3 c' out rsp j.
     served_iteration (dispatch_request [(''Echo'', echo_service)]) (\<lambda>_. 0) (\<lambda>_. [WriteAccepts 20]) (WaitEvents [(Some 7, EPOLLIN)]) s = Inr s1 \<and>
     served_iteration (dispatch_request [(''Echo'', echo_service)]) (\<lambda>_. 0) (\<lambda>_. [WriteAccepts 20]) (WaitEvents [(Some 7, EPOLLOUT)]) s1 = Inr s2 \<and>
     served_run (dispatch_request [(''Echo'', echo_service)]) (\<lambda>_. 0) (\<lambda>_. [WriteAccepts 20])
       (replicate j (WaitEvents [(Some 7, EPOLLOUT)]) @ [WaitEvents []]) s2 = Inr s3 \<and>
     is_open s3 1 c' \<and> sent c' = out \<and> decode_bytes out = ([rsp], []) \<and> m_pb_data rsp = ''hi''"
proof -
  define req where "req = stamped (with_msg_id echo_request)"
  have req: "m_method_name req = m_method_name echo_request" "m_pb_data req = m_pb_data echo_request"
    "response_to req ''hi'' = response_to echo_request ''hi''"
    by (simp_all add: req_def stamped_def with_msg_id_def response_to_def echo_request_def)
  obtain l0 :: "(nat \<times> conn_callback) eventloop" where l0:
      "newEventloop False 3 (nat 4, 4) (nat 5, 5) (\<lambda>p. newFd_Event (int p)) (\<lambda>_. newTimerEvent 0 0 False None) = Some l0"
      "\<not> m_stop_flag l0" "m_pending_tasks l0 = []"
    using fresh_loop by blast
  define c :: "nat tcp_connection" where "c = listenRead (opened TcpConnectionByServer 7)"
  obtain s0 :: "nat served" where s0: "served_reach (dispatch_request [(''Echo'', echo_service)]) (\<lambda>_. 0) {nat 4, nat 5} (Top, served_init l0) (RunTasks [], s0)"
      "is_open s0 1 c" "\<not> m_stop_flag (sv_loop s0)" "m_pending_tasks (sv_loop s0) = []"
    using accept_registers [where si = "served_init l0 :: nat served" and fd = 7 and own = "{nat 4, nat 5}" and k = 1
        and clock = "\<lambda>_. 0" and disp = "dispatch_request [(''Echo'', echo_service)]"] l0(2,3)
    by (auto simp: served_init_def c_def)
  have "config_ok {nat 4, nat 5} (RunTasks [], s0)"
    using rpc_loop.reach_ok [OF s0(1)] served_init_ok [OF l0(1)] by simp
  then have ok: "served_ok {nat 4, nat 5} [] s0" using s0(3,4) by (simp add: config_ok_def)
  define s where "s = s0\<lparr>sv_arrivals := (\<lambda>_. [ReadData (packet (with_msg_id echo_request))])\<rparr>"
  have s: "served_ok {nat 4, nat 5} [] s" "\<not> m_stop_flag (sv_loop s)" "m_pending_tasks (sv_loop s) = []" "is_open s 1 c"
    "sv_arrivals s 1 = [ReadData (packet (with_msg_id echo_request))]" "packet (with_msg_id echo_request) \<noteq> []"
    using ok s0 by (simp_all add: s_def packet_def)
  have "server_open c 1000" "contents (m_in_buffer c) = []" "in_buffer_ok (m_in_buffer c) 37" "contents (m_out_buffer c) = []"
    and c: "tc_fd c = 7" "sent c = []"
    using echo_facts(9) by (simp_all add: c_def listenRead_def addEpoll_def emit_def server_open_def opened_def in_buffer_ok_def
        buffer_defs INT_MAX_def)
  moreover have "length (packet (with_msg_id (response_to req ''hi''))) = 37"
    using echo_facts(8) by (simp add: req)
  ultimately have hyps: "contents (m_in_buffer c) = []" "in_buffer_ok (m_in_buffer c) (length (packet (with_msg_id echo_request)))"
      "contents (m_out_buffer c) = []" "server_open c (length (packet (with_msg_id (response_to req ''hi''))))"
      "0 < (20 :: nat)"
    using server_open_mono [of c 1000 37] echo_request_facts(2) by simp_all
  have "encodable (response_to req ''hi'')" using echo_facts(7) by (simp add: req)
  from loop_answers_request [OF s echo_request_facts(3) [folded req_def] hyps(1-3) _ echo_facts(2,3) _ echo_facts(5,6) this hyps(4) _ hyps(5),
      of "\<lambda>_. [WriteAccepts 20]" "\<lambda>_. 0"]
  show ?thesis
    using echo_facts(1,4) c by (simp add: req) blast
qed

end
