(* ===== verification/EndToEnd.thy ===== *)
theory EndToEnd
  imports RpcDispatcher TcpClient RpcChannel
begin

text \<open>
  A whole call over two connections. The client queues its request and writes it, the bytes it
  hands to its kernel arrive at the server in pieces, the server's events dispatch the request and
  write the reply, and these bytes arrive at the client in pieces, where the callback of the
  message id gets the response. How the network cuts the two streams is a parameter.
\<close>

section \<open>The exchange\<close>

definition connection_of :: "('d, 'e) tcp_client \<Rightarrow> 'd tcp_connection cpp" where
  "connection_of cl = (case cl_connection cl of None \<Rightarrow> Inl NullPointer | Some c \<Rightarrow> Inr c)"

text \<open>The bytes that a write event has handed to the kernel.\<close>

definition handed :: "'d tcp_connection \<Rightarrow> 'd tcp_connection \<Rightarrow> byte list" where
  "handed before behind = drop (length (sent before)) (sent behind)"

definition exchange_rpc ::
  "('m, 'q, 'r) dispatcher \<Rightarrow> (byte list \<Rightarrow> byte list list) \<Rightarrow> nat \<Rightarrow> tinypb \<Rightarrow> 'd \<Rightarrow> 'd \<Rightarrow>
     ('d, 'e) tcp_client \<Rightarrow> 's tcp_connection \<Rightarrow> ('d tcp_connection \<times> 's tcp_connection) cpp" where
  "exchange_rpc services deliver n req written answered cl server =
     bind_cpp (writeMessage (TinyPB req) written cl) (\<lambda>cl.
     bind_cpp (connection_of cl) (\<lambda>c.
     bind_cpp (onWrite [WriteAccepts n] c) (\<lambda>c1.
     bind_cpp (fold_cpp (arrival (dispatch_request services)) (deliver (handed c c1)) server) (\<lambda>s1.
     bind_cpp (onWrite [WriteAccepts n] s1) (\<lambda>s2.
     bind_cpp (readMessage (m_msg_id req) answered (cl\<lparr>cl_connection := Some c1\<rparr>)) (\<lambda>cl2.
     bind_cpp (connection_of cl2) (\<lambda>c2.
     bind_cpp (fold_cpp (arrival (\<lambda>_ _. Inr)) (deliver (handed s1 s2)) c2) (\<lambda>c3.
       Inr (c3, s2)))))))))"

text \<open>A network that neither loses nor invents bytes.\<close>

definition faithful :: "(byte list \<Rightarrow> byte list list) \<Rightarrow> bool" where
  "faithful deliver \<longleftrightarrow> (\<forall>bs. concat (deliver bs) = bs \<and> [] \<notin> set (deliver bs))"

section \<open>The three parts\<close>

lemma client_sends:
  assumes "awaiting c" and "buffer_ok (m_out_buffer c)" and "contents (m_out_buffer c) = []" and "m_write_dones c = []"
    and "encodable req" and "room (m_out_buffer c) (length (packet (with_msg_id req)))"
    and "length (packet (with_msg_id req)) \<le> n"
  shows "\<exists>c1 new. onWrite [WriteAccepts n] (listenWrite (pushSendMessage (TinyPB req) cb c)) = Inr c1 \<and>
           sent c1 = sent c @ packet (with_msg_id req) \<and> awaiting c1 \<and> m_in_buffer c1 = m_in_buffer c \<and>
           m_read_dones c1 = m_read_dones c \<and> effects c1 = effects c @ new \<and> (\<forall>k. filter (answers k) new = [])"
proof -
  define c0 where "c0 = listenWrite (pushSendMessage (TinyPB req) cb c)"
  have c0: "awaiting c0" "m_out_buffer c0 = m_out_buffer c" "sent c0 = sent c" "m_in_buffer c0 = m_in_buffer c"
    "m_read_dones c0 = m_read_dones c" "m_write_dones c0 = [(TinyPB req, cb)]"
    using assms(1,4) by (simp_all add: c0_def awaiting_def pushSendMessage_def listenWrite_def addEpoll_def emit_def)
  have e0: "effects c0 = effects c @ [AddEpollEvent (m_listen_event (m_fd_event c0))]"
    using assms(1) by (simp add: c0_def awaiting_def pushSendMessage_def listenWrite_def addEpoll_def emit_def)
  obtain b where b: "encode [TinyPB req] (m_out_buffer c) = Inr ([TinyPB (stamped (with_msg_id req))], b)" "buffer_ok b"
      "contents b = packet (with_msg_id req)"
    using encode_ok [OF assms(2), of "[TinyPB req]"] assms(3,5,6) by auto
  obtain b' where b': "write_loop [WriteAccepts n] b = Inr (WroteAll, b', packet (with_msg_id req))"
    using write_loop_all [OF b(2), of n] b(3) assms(7) by auto
  have "readAble (m_out_buffer c) = 0"
    using assms(2,3) contents_empty by blast
  then show ?thesis
    using c0 e0 b(1) b' unfolding c0_def [symmetric]
    by (simp add: onWrite_def awaiting_def Let_def addEpoll_def emit_def)
qed

lemma server_answers:
  assumes "server_open sc (length (packet (with_msg_id (response_to req data))))"
    and "in_buffer_ok (m_in_buffer sc) (length (packet (with_msg_id req)))" and "contents (m_in_buffer sc) = []"
    and "contents (m_out_buffer sc) = []" and "encodable req" and "m_msg_id req \<noteq> []"
    and "parseServiceFullName (m_method_name req) = Some (s, m)" and "map_find services s = Some svc"
    and "FindMethodByName svc m = Some meth" and "ParseRequest svc meth (m_pb_data req) = Some q"
    and "call svc meth q = [r]" and "SerializeToString svc r = (True, data)"
    and "encodable (response_to req data)" and "length (packet (with_msg_id (response_to req data))) \<le> n"
    and "concat pieces = packet (with_msg_id req)" and "[] \<notin> set pieces"
  shows "\<exists>s1 s2 new. fold_cpp (arrival (dispatch_request services)) pieces sc = Inr s1 \<and> sent s1 = sent sc \<and>
           onWrite [WriteAccepts n] s1 = Inr s2 \<and>
           sent s2 = sent sc @ packet (with_msg_id (response_to req data)) \<and>
           effects s2 = effects sc @ new \<and> filter is_call new = [MethodCalled s m]"
proof -
  define req' where "req' = stamped (with_msg_id req)"
  define rsp where "rsp = response_to req data"
  have req': "m_method_name req' = m_method_name req" "m_pb_data req' = m_pb_data req" "response_to req' data = rsp"
    using assms(6) by (simp_all add: req'_def rsp_def stamped_def with_msg_id_def response_to_def)
  have wire: "concat (wire_chunks [TinyPB rsp]) = packet (with_msg_id rsp)"
    using assms(13) by (simp add: rsp_def)
  obtain r' c1 es where c1: "dispatch services req' newTinyPB sc = Inr (r', c1)" "server_open c1 0" "sent c1 = sent sc"
      "contents (m_out_buffer c1) = packet (with_msg_id rsp)"
      "effects c1 = effects sc @ [SetRunTime (m_msg_id req') m, MethodCalled s m] @ es" "filter is_call es = []"
    using dispatch_success [of req' s m services svc meth q r data sc 0] assms(1,4,7-12) req' wire
    by (auto simp: rsp_def)
  have "decode_bytes (concat pieces) = ([req'], [])"
    using decode_packet [OF assms(5), of "[]"] by (simp add: assms(15) req'_def wire.dec_empty)
  moreover have "serving sc"
    using assms(1) by (simp add: server_open_def serving_def)
  ultimately obtain b where b: "fold_cpp (arrival (dispatch_request services)) pieces sc = Inr (c1\<lparr>m_in_buffer := b\<rparr>)"
    using rpc.stream_ok [of sc pieces "[req']" "[]" services c1] assms(2,3,15,16) c1(1)
    by (auto simp: wire.dec_empty dispatch_request_def)
  have out: "buffer_ok (m_out_buffer c1)"
    using c1(2) by (simp add: server_open_def)
  obtain b' where b': "write_loop [WriteAccepts n] (m_out_buffer c1) = Inr (WroteAll, b', packet (with_msg_id rsp))"
    using write_loop_all [OF out, of n] c1(4) assms(14) by (auto simp: rsp_def)
  have "\<exists>s2 e. onWrite [WriteAccepts n] (c1\<lparr>m_in_buffer := b\<rparr>) = Inr s2 \<and> sent s2 = sent sc @ packet (with_msg_id rsp) \<and>
      effects s2 = effects c1 @ [AddEpollEvent e]"
    using c1(2,3) b' by (auto simp: onWrite_def server_open_def Let_def addEpoll_def emit_def)
  then obtain s2 e where "onWrite [WriteAccepts n] (c1\<lparr>m_in_buffer := b\<rparr>) = Inr s2" "sent s2 = sent sc @ packet (with_msg_id rsp)"
      "effects s2 = effects c1 @ [AddEpollEvent e]"
    by blast
  with b c1(3,5,6) show ?thesis
    by (intro exI [of _ "c1\<lparr>m_in_buffer := b\<rparr>"] exI [of _ s2] exI [of _ "[SetRunTime (m_msg_id req') m, MethodCalled s m] @ es @ [AddEpollEvent e]"])
      (simp add: rsp_def)
qed

lemma client_gets_answer:
  assumes "awaiting c" and "in_buffer_ok (m_in_buffer c) (length (packet (with_msg_id rsp)))" and "contents (m_in_buffer c) = []"
    and "map_ok (m_read_dones c)" and "encodable rsp" and "m_msg_id rsp \<noteq> []"
    and "map_find (m_read_dones c) (m_msg_id rsp) = None"
    and "concat pieces = packet (with_msg_id rsp)" and "[] \<notin> set pieces"
  shows "\<exists>c'. fold_cpp (arrival dsp) pieces (listenRead (pushReadMessage (m_msg_id rsp) cb c)) = Inr c' \<and>
           (\<exists>e. effects c' = effects c @ [e, ReadDone cb (TinyPB (stamped (with_msg_id rsp)))] \<and> (\<forall>k. \<not> answers k e)) \<and>
           map_find (m_read_dones c') = map_find (m_read_dones c)"
proof -
  define rsp' where "rsp' = stamped (with_msg_id rsp)"
  have id: "m_msg_id rsp' = m_msg_id rsp"
    using assms(6) by (simp add: rsp'_def stamped_def with_msg_id_def)
  define c0 where "c0 = listenRead (pushReadMessage (m_msg_id rsp) cb c)"
  have c0: "awaiting c0" "m_in_buffer c0 = m_in_buffer c" "m_read_dones c0 = map_insert (m_msg_id rsp) cb (m_read_dones c)"
    using assms(1) by (simp_all add: c0_def awaiting_def pushReadMessage_def listenRead_def addEpoll_def emit_def)
  have e0: "effects c0 = effects c @ [AddEpollEvent (m_listen_event (m_fd_event c0))]"
    using assms(1) by (simp add: c0_def awaiting_def pushReadMessage_def listenRead_def addEpoll_def emit_def)
  have dones: "map_find (m_read_dones c0) = (map_find (m_read_dones c))(m_msg_id rsp \<mapsto> cb)" "map_ok (m_read_dones c0)"
    using assms(4,7) by (simp_all add: c0(3) map_insert_def map_find_assign map_ok_assign)
  have "decode_bytes (concat pieces) = ([rsp'], [])"
    using decode_packet [OF assms(5), of "[]"] by (simp add: assms(8) rsp'_def wire.dec_empty)
  then obtain b where "fold_cpp (arrival dsp) pieces c0 = Inr ((run_read_done rsp' c0)\<lparr>m_in_buffer := b\<rparr>)"
    using client.stream_ok [of c0 pieces "[rsp']" "[]" "run_read_done rsp' c0" dsp] c0(1,2) assms(2,3,8,9)
    by (auto simp: wire.dec_empty)
  moreover have "run_read_done rsp' c0 = emit [ReadDone cb (TinyPB rsp')] (c0\<lparr>m_read_dones := map_erase (m_msg_id rsp) (m_read_dones c0)\<rparr>)"
    by (simp add: run_read_done_def id dones)
  moreover have "map_find (map_erase (m_msg_id rsp) (m_read_dones c0)) = map_find (m_read_dones c)"
    using assms(7) by (auto simp: map_find_erase dones)
  ultimately show ?thesis
    unfolding c0_def [symmetric] using e0
    by (intro exI [of _ "(run_read_done rsp' c0)\<lparr>m_in_buffer := b\<rparr>"]) (simp add: emit_def rsp'_def)
qed

text \<open>Fresh connections have room for a packet each way.\<close>

lemma packet_size: "encodable msg \<Longrightarrow> int (length (packet (with_msg_id msg))) \<le> MAX_PACKAGE_SIZE"
  by (simp add: encodable_def MIN_PACKAGE_SIZE_def)

lemma opened_room:
  assumes "int k \<le> MAX_PACKAGE_SIZE" and "0 \<le> fd"
  shows "room (m_out_buffer (opened type fd)) k" "in_buffer_ok (m_in_buffer (opened type fd)) k"
    "buffer_ok (m_out_buffer (opened type fd))" "contents (m_in_buffer (opened type fd)) = []"
    "contents (m_out_buffer (opened type fd)) = []" "server_open (opened TcpConnectionByServer fd) k"
    "awaiting (opened TcpConnectionByClient fd)"
  using assms by (auto simp: opened_def room_def in_buffer_ok_def buffer_defs server_open_def awaiting_def
      MAX_PACKAGE_SIZE_def INT_MAX_def)

lemma exchange_ok:
  fixes cl :: "('d, 'e) tcp_client" and sc :: "'s tcp_connection"
  assumes "encodable req" and "m_msg_id req \<noteq> []"
    and "parseServiceFullName (m_method_name req) = Some (s, m)" and "map_find services s = Some svc"
    and "FindMethodByName svc m = Some meth" and "ParseRequest svc meth (m_pb_data req) = Some q"
    and "call svc meth q = [r]" and "SerializeToString svc r = (True, data)" and "encodable (response_to req data)"
    and "cl_connection cl = Some (opened TcpConnectionByClient fd)" and "0 \<le> fd" and "0 \<le> fd'" and "faithful deliver"
    and "MAX_PACKAGE_SIZE \<le> int n" and "sc = opened TcpConnectionByServer fd'"
  shows "\<exists>c' s'. exchange_rpc services deliver n req written answered cl sc = Inr (c', s') \<and>
           filter is_call (effects s') = [MethodCalled s m] \<and>
           filter (answers (m_msg_id req)) (effects c') = [ReadDone answered (TinyPB (stamped (with_msg_id (response_to req data))))] \<and>
           map_find (m_read_dones c') (m_msg_id req) = None"
proof -
  define c where "c = (opened TcpConnectionByClient fd :: 'd tcp_connection)"
  define rsp where "rsp = response_to req data"
  define c0 where "c0 = listenWrite (pushSendMessage (TinyPB req) written c)"
  have small: "int (length (packet (with_msg_id req))) \<le> MAX_PACKAGE_SIZE" "int (length (packet (with_msg_id rsp))) \<le> MAX_PACKAGE_SIZE"
    using packet_size assms(1,9) by (simp_all add: rsp_def)
  have fits: "length (packet (with_msg_id req)) \<le> n" "length (packet (with_msg_id rsp)) \<le> n"
    using small assms(14) by linarith+
  have id: "m_msg_id rsp = m_msg_id req"
    by (simp add: rsp_def response_to_def)
  have fresh: "m_write_dones c = []" "m_read_dones c = []" "sent c = []" "effects c = []" "sent sc = []" "effects sc = []" "sent c0 = []"
    by (simp_all add: c_def c0_def assms(15) opened_def pushSendMessage_def)
  have net: "concat (deliver bs) = bs" "[] \<notin> set (deliver bs)" for bs
    using assms(13) by (simp_all add: faithful_def)
  have room_c: "room (m_out_buffer c) (length (packet (with_msg_id req)))" "buffer_ok (m_out_buffer c)"
    "contents (m_out_buffer c) = []" "awaiting c" "contents (m_in_buffer c) = []"
    "in_buffer_ok (m_in_buffer c) (length (packet (with_msg_id rsp)))"
    using opened_room [OF small(1) assms(11)] opened_room(2) [OF small(2) assms(11)] by (simp_all add: c_def)
  have room_s: "server_open sc (length (packet (with_msg_id rsp)))" "in_buffer_ok (m_in_buffer sc) (length (packet (with_msg_id req)))"
    "contents (m_in_buffer sc) = []" "contents (m_out_buffer sc) = []"
    using opened_room [OF small(1) assms(12)] opened_room(6) [OF small(2) assms(12)] by (simp_all add: assms(15))
  obtain c1 e1 where c1: "onWrite [WriteAccepts n] c0 = Inr c1" "sent c1 = packet (with_msg_id req)" "awaiting c1"
      "m_in_buffer c1 = m_in_buffer c" "m_read_dones c1 = []" "effects c1 = e1" "\<forall>k. filter (answers k) e1 = []"
    using client_sends [of c req n written] room_c assms(1) fits(1) fresh by (auto simp: c0_def)
  obtain s1 s2 new where s2: "fold_cpp (arrival (dispatch_request services)) (deliver (packet (with_msg_id req))) sc = Inr s1"
      "sent s1 = []" "onWrite [WriteAccepts n] s1 = Inr s2" "sent s2 = packet (with_msg_id rsp)"
      "effects s2 = new" "filter is_call new = [MethodCalled s m]"
    using server_answers [of sc req data s m services svc meth q r n "deliver (packet (with_msg_id req))"] assms(1-9) fits(2) net
      room_s fresh(5,6) by (auto simp: rsp_def)
  obtain c3 e where c3: "fold_cpp (arrival (\<lambda>_ _. Inr)) (deliver (packet (with_msg_id rsp))) (listenRead (pushReadMessage (m_msg_id rsp) answered c1)) = Inr c3"
      "effects c3 = e1 @ [e, ReadDone answered (TinyPB (stamped (with_msg_id rsp)))]" "\<forall>k. \<not> answers k e"
      "map_find (m_read_dones c3) = map_find (m_read_dones c1)"
    using client_gets_answer [OF c1(3), of rsp "deliver (packet (with_msg_id rsp))" "\<lambda>_ _. Inr" answered] c1(4,5,6) assms(2,9) net id room_c(5,6)
    by (auto simp: rsp_def)
  have "m_msg_id (stamped (with_msg_id rsp)) = m_msg_id req"
    using assms(2) id by (simp add: stamped_def with_msg_id_def)
  then have "filter (answers (m_msg_id req)) (effects c3) = [ReadDone answered (TinyPB (stamped (with_msg_id rsp)))]"
    using c3(2,3) c1(7) by simp
  moreover have "exchange_rpc services deliver n req written answered cl sc = Inr (c3, s2)"
    using assms(10) c1(1,2) s2(1-4) c3(1) fresh(7) id
    by (simp add: exchange_rpc_def writeMessage_def readMessage_def with_connection_def connection_of_def handed_def
        c_def [symmetric] c0_def [symmetric])
  ultimately show ?thesis
    using s2(5,6) c3(4) c1(5) by (auto simp: rsp_def)
qed

section \<open>Properties\<close>

text \<open>
  C1. A remote procedure call, end to end: a call that \<open>CallMethod\<close> has started towards a server
  that offers its method is carried out over two fresh connections, however the network cuts the
  two byte streams. No step faults, the method is called exactly once, the callback that waits for
  the message id gets exactly one response and no longer waits, and handling this response stores
  the parsed result, reports no error, finishes the controller and runs the caller's closure once.
\<close>

theorem rpc_round_trip:
  assumes "CallMethod cancel inet stubs i ctrl = Inr (Started st req)" and "ci_has_closure i \<or> ci_has_done i"
    and "encodable req" and "m_msg_id req \<noteq> []"
    and "parseServiceFullName (ci_method_full_name i) = Some (s, m)" and "map_find services s = Some svc"
    and "FindMethodByName svc m = Some meth" and "ParseRequest svc meth (m_pb_data req) = Some q"
    and "call svc meth q = [r]" and "SerializeToString svc r = (True, data)" and "encodable (response_to req data)"
    and "cl_connection cl = Some (opened TcpConnectionByClient fd)" and "0 \<le> fd" and "0 \<le> fd'" and "faithful deliver"
    and "MAX_PACKAGE_SIZE \<le> int n"
  shows "\<exists>c' s' rsp new. exchange_rpc services deliver n req written answered cl (opened TcpConnectionByServer fd') = Inr (c', s') \<and>
           filter is_call (effects s') = [MethodCalled s m] \<and>
           filter (answers (m_msg_id req)) (effects c') = [ReadDone answered (TinyPB rsp)] \<and>
           map_find (m_read_dones c') (m_msg_id req) = None \<and>
           new = on_response parse (TinyPB rsp) st \<and>
           (fst (parse data) \<longrightarrow> rs_response new = Some (snd (parse data)) \<and> m_is_failed (rs_controller new) = m_is_failed (rs_controller st)) \<and>
           m_is_finished (rs_controller new) \<and> closure_runs new = 1"
proof -
  obtain c' where st: "st = start_request cancel i req c'" and name: "m_method_name req = ci_method_full_name i"
    using Started_shape [OF assms(1)] Started_request [OF assms(1)] by blast
  have idle: "\<not> completed st" "state_alive st" "closure_runs st = 0" "rs_closure st"
    using assms(2) by (simp_all add: st start_request_def Let_def split_beta)
  define rsp where "rsp = stamped (with_msg_id (response_to req data))"
  have rsp: "m_pb_data rsp = data" "m_err_code rsp = 0"
    by (simp_all add: rsp_def stamped_def with_msg_id_def response_to_def newTinyPB_def)
  define new where "new = on_response parse (TinyPB rsp) st"
  have "m_is_finished (rs_controller new) \<and> closure_runs new = 1"
    using on_response_first [OF idle(1,2), of parse "TinyPB rsp"] idle(3,4) by (auto simp: new_def)
  moreover have "fst (parse data) \<Longrightarrow> rs_response new = Some (snd (parse data)) \<and> m_is_failed (rs_controller new) = m_is_failed (rs_controller st)"
    using on_response_success [OF idle(2,1), of parse rsp "snd (parse data)"] rsp by (simp add: new_def prod_eq_iff)
  ultimately show ?thesis
    using exchange_ok [OF assms(3,4) _ assms(6-16) refl, where written = written and answered = answered] assms(5) name
    unfolding rsp_def [symmetric]
    by (metis new_def)
qed

definition echo_call :: call_input where
  "echo_call = sample_call\<lparr>ci_method_full_name := ''Echo.say'', ci_serialized := Some ''hi''\<rparr>"

lemma echo_call_starts:
  "\<exists>st. CallMethod () (\<lambda>_. 1) [] echo_call newRpcController =
     Inr (Started st (newTinyPB\<lparr>m_msg_id := ''42'', m_method_name := ''Echo.say'', m_pb_data := ''hi''\<rparr>))"
  using sample_addr_valid
  by (simp add: CallMethod_def echo_call_def sample_call_def newRpcController_def serviceDiscovery_def FindAddr_def issue_request_def
      choose_msg_id_def c_str_to_string_def Let_def)

definition connected_client :: "(string, nat) tcp_client" where
  "connected_client = \<lparr>cl_connection = Some (opened TcpConnectionByClient 7), cl_event_loop = idle_loop, cl_fd = 7, cl_fd_event = True,
     cl_local_addr = None, m_connect_error_code = 0, m_connect_error_info = [], connect_dones = 1, loop_entries = 1\<rparr>"

text \<open>A network that delivers byte by byte.\<close>

lemma faithful_bytewise: "faithful (map (\<lambda>b. [b]))"
  by (auto simp: faithful_def)

theorem rpc_round_trip_witness:
  "\<exists>st req c' s' rsp. CallMethod () (\<lambda>_. 1) [] echo_call newRpcController = Inr (Started st req) \<and>
     exchange_rpc [(''Echo'', echo_service)] (map (\<lambda>b. [b])) 20000000 req ''written'' ''answered'' connected_client
       (opened TcpConnectionByServer 9 :: nat tcp_connection) = Inr (c', s') \<and>
     filter is_call (effects s') = [MethodCalled ''Echo'' ''say''] \<and>
     rs_response (on_response (Pair True) (TinyPB rsp) st) = Some ''hi''"
proof -
  define req where "req = newTinyPB\<lparr>m_msg_id := ''42'', m_method_name := ''Echo.say'', m_pb_data := ''hi''\<rparr>"
  obtain st :: "(unit, string) request_state" where c: "CallMethod () (\<lambda>_. 1) [] echo_call newRpcController = Inr (Started st req)"
    using echo_call_starts by (auto simp: req_def)
  have facts: "ci_has_closure echo_call \<or> ci_has_done echo_call" "encodable req" "m_msg_id req \<noteq> []"
    "parseServiceFullName (ci_method_full_name echo_call) = Some (''Echo'', ''say'')"
    "ParseRequest echo_service () (m_pb_data req) = Some ''hi''" "encodable (response_to req ''hi'')"
    "cl_connection connected_client = Some (opened TcpConnectionByClient 7)" "MAX_PACKAGE_SIZE \<le> int 20000000"
    by (simp_all add: echo_call_def sample_call_def req_def encodable_def with_msg_id_def payload_length_def newTinyPB_def
        MIN_PACKAGE_SIZE_def MAX_PACKAGE_SIZE_def parseServiceFullName_def substr_def echo_service_def response_to_def connected_client_def)
  show ?thesis
    using rpc_round_trip [OF c facts(1-4) echo_facts(2,3) facts(5) echo_facts(5,6) facts(6,7) _ _ faithful_bytewise facts(8),
        of 9 "''written''" "''answered''" "Pair True"] c by auto
qed

end
