(* ===== verification/ClientProps.thy ===== *)
theory ClientProps
  imports ClientLoop ServedProps EndToEnd
begin

text \<open>
  A call that is answered, on the loop of its caller (theory \<open>ClientLoop\<close>): the iterations from the attempt to
  connect to the response, for any kernel that takes at least one byte per write and delivers the
  response in any pieces.
\<close>

section \<open>Iterations\<close>

text \<open>What the kernel does in an iteration that is then woken by one event of the descriptor.\<close>

definition woken :: "sys_read list \<Rightarrow> sys_write list \<Rightarrow> connect_result \<Rightarrow> int \<Rightarrow> epoll_mask \<Rightarrow> kernel" where
  "woken reads writes rt fd events =
     \<lparr>k_reads = reads, k_writes = writes, k_connect = rt, k_wait = WaitEvents [(Some (nat fd), events)]\<rparr>"

lemma woken_simps [simp]:
  "k_reads (woken reads writes rt fd events) = reads" "k_writes (woken reads writes rt fd events) = writes"
  "k_connect (woken reads writes rt fd events) = rt" "k_wait (woken reads writes rt fd events) = WaitEvents [(Some (nat fd), events)]"
  by (simp_all add: woken_def)

definition queued :: "client_cb \<Rightarrow> ('c, 'r) client_thread \<Rightarrow> ('c, 'r) client_thread" where
  "queued cb x = on_loop (addTask (Some (User cb)) False) x"

text \<open>
  A call on the way: the loop runs and has nothing queued, the events of the descriptor lead to the
  callbacks that the connection has installed, and the request is not completed.
\<close>

definition calling :: "('c, 'r) client_thread \<Rightarrow> call_cb tcp_connection \<Rightarrow> bool" where
  "calling x c \<longleftrightarrow> cl_connection (ct_client x) = Some c \<and> fe_fd (m_fd_event c) = tc_fd c \<and> 0 \<le> tc_fd c \<and>
     fd_events (ct_loop x) (nat (tc_fd c)) = map_event (\<lambda>cb. User (ConnCb cb)) (m_fd_event c) \<and>
     \<not> m_stop_flag (ct_loop x) \<and> m_is_looping (ct_loop x) \<and> m_pending_tasks (ct_loop x) = [] \<and>
     \<not> completed (ct_request x) \<and> state_alive (ct_request x) \<and> rs_client (ct_request x)"

lemma callingD:
  assumes "calling x c"
  shows "cl_connection (ct_client x) = Some c" "event_addr c = nat (tc_fd c)" "\<not> m_stop_flag (ct_loop x)"
    "m_is_looping (ct_loop x)" "m_pending_tasks (ct_loop x) = []" "\<not> is_closed c"
    "\<not> completed (ct_request x)" "state_alive (ct_request x)" "rs_client (ct_request x)"
  using assms by (auto simp: calling_def event_addr_def is_closed_def)

lemma carry_client_event:
  assumes "cl_connection cl = Some c" and "cl_connection cl' = Some c'"
  shows "fd_events (cl_event_loop (carry_client cl cl')) (event_addr c) = map_event (\<lambda>cb. User (ConnCb cb)) (m_fd_event c')"
  using assms by (simp add: carry_client_def Let_def)

lemma calling_carried:
  assumes "calling x c" and "fe_fd (m_fd_event c') = tc_fd c" and "tc_fd c' = tc_fd c"
    and "cl_connection cl' = Some c'" and "cl_event_loop cl' = ct_loop x"
    and "\<not> completed s'" and "state_alive s'" and "rs_client s'"
  shows "calling \<lparr>ct_client = carry_client (ct_client x) cl', ct_request = s', ct_arrivals = a\<rparr> c'"
  using assms carry_client_event [OF callingD(1) [OF assms(1)] assms(4)] callingD(2) [OF assms(1)]
  by (auto simp: calling_def)

lemma idle_round:
  assumes "calling x c"
  shows "client_iteration env (woken [] writes rt fd events) x = Inr (on_loop (dispatch_event (Some (nat fd), events)) x)"
  using callingD(5) [OF assms]
  by (cases x, cases "ct_client x", cases "ct_loop x") (simp add: client_iteration_def on_loop_def Let_def)

lemma task_round:
  assumes "calling x c" and "run_client_cb env k cb (x\<lparr>ct_arrivals := ct_arrivals x @ k_reads k\<rparr>) = Inr t"
  shows "client_iteration env k (queued cb x) = Inr (client_dispatch (k_wait k) t)"
proof -
  have l: "(ct_loop x)\<lparr>m_pending_tasks := []\<rparr> = ct_loop x" "\<not> m_stop_flag (ct_loop x)"
    using callingD(3,5) [OF assms(1)] by simp_all
  have x: "on_loop (\<lambda>l. l\<lparr>m_pending_tasks := []\<rparr>) ((queued cb x)\<lparr>ct_arrivals := a\<rparr>) = x\<lparr>ct_arrivals := a\<rparr>" for a
    using l by (simp add: queued_def on_loop_def addTask_def Let_def)
  have "m_pending_tasks (ct_loop (queued cb x)) = [Some (User cb)]" "ct_arrivals (queued cb x) = ct_arrivals x"
    using callingD(3,5) [OF assms(1)] by (simp_all add: queued_def on_loop_def)
  then show ?thesis
    using assms(2) l(2) x by (simp add: client_iteration_def run_client_closure_def Let_def)
qed

lemma wakes:
  assumes "calling x c" and "handler e (m_fd_event c) = Some cb" and "e = IN_EVENT \<and> events = EPOLLIN \<or> e = OUT_EVENT \<and> events = EPOLLOUT"
  shows "client_dispatch (WaitEvents [(Some (nat (tc_fd c)), events)]) x = queued (ConnCb cb) x"
    "on_loop (dispatch_event (Some (nat (tc_fd c)), events)) x = queued (ConnCb cb) x"
proof -
  have "dispatch_event (Some (nat (tc_fd c)), events) (ct_loop x) = addTask (Some (User (ConnCb cb))) False (ct_loop x)"
    using assms by (auto simp: dispatch_ready calling_def simp del: handler.simps)
  then show "client_dispatch (WaitEvents [(Some (nat (tc_fd c)), events)]) x = queued (ConnCb cb) x"
    "on_loop (dispatch_event (Some (nat (tc_fd c)), events)) x = queued (ConnCb cb) x"
    by (simp_all add: queued_def on_loop_def)
qed

text \<open>
  The events that tell a connecting socket that its attempt has ended: it is not yet watched for
  input, so the kernel reports that it is writable, or one of the terminal events, or both; a
  failed attempt is reported by Linux as \<open>EPOLLOUT | EPOLLERR | EPOLLHUP\<close>. The loop takes a terminal
  event as an error and unregisters the descriptor.
\<close>

definition attempt_ended :: "epoll_mask \<Rightarrow> bool" where
  "attempt_ended events \<longleftrightarrow> events AND EPOLLIN = 0 \<and>
     (events AND EPOLLOUT \<noteq> 0 \<or> events AND (EPOLLERR OR EPOLLHUP OR EPOLLRDHUP) \<noteq> 0)"

lemma attempt_ended_masks:
  "attempt_ended EPOLLOUT" "attempt_ended (EPOLLERR OR EPOLLHUP)" "attempt_ended (EPOLLOUT OR EPOLLERR OR EPOLLHUP)"
  by (simp_all add: attempt_ended_def EPOLLIN_def EPOLLOUT_def EPOLLERR_def EPOLLHUP_def EPOLLRDHUP_def)

lemma calling_unwatched:
  "calling x c \<Longrightarrow> calling (on_loop (DELETE_TO_EPOLL p) x) c"
  by (simp add: calling_def on_loop_def DELETE_TO_EPOLL_def Let_def)

lemma attempt_wakes:
  assumes "calling x c" and "handler OUT_EVENT (m_fd_event c) = Some cb" and "handler ERROR_EVENT (m_fd_event c) = Some cb"
    and "attempt_ended events" and "p = nat (tc_fd c)"
  obtains x' where "on_loop (dispatch_event (Some p, events)) x = queued (ConnCb cb) x'" "calling x' c"
    "ct_request x' = ct_request x" "ct_arrivals x' = ct_arrivals x"
    "cl_fd_event (ct_client x') = cl_fd_event (ct_client x)" "m_connect_error_code (ct_client x') = m_connect_error_code (ct_client x)"
proof (cases "events AND (EPOLLERR OR EPOLLHUP OR EPOLLRDHUP) = 0")
  case True
  then have "dispatch_event (Some p, events) (ct_loop x) = addTask (Some (User (ConnCb cb))) False (ct_loop x)"
    using assms by (auto simp: dispatch_event_def attempt_ended_def calling_def Let_def simp del: handler.simps)
  then show ?thesis
    using assms(1) by (intro that [of x]) (simp_all add: queued_def on_loop_def)
next
  case False
  then have "dispatch_event (Some p, events) (ct_loop x) =
      addTask (Some (User (ConnCb cb))) False (DELETE_TO_EPOLL p (ct_loop x))"
    using assms by (auto simp: dispatch_event_def attempt_ended_def calling_def deleteEpollEvent_def Let_def simp del: handler.simps)
  then show ?thesis
    using calling_unwatched [OF assms(1), of p]
    by (intro that [of "on_loop (DELETE_TO_EPOLL p) x"]) (simp_all add: queued_def on_loop_def)
qed

lemma client_loop_step:
  assumes "\<not> m_stop_flag (ct_loop x)" and "client_iteration env k x = Inr x'"
  shows "client_loop env (k # ks) x = client_loop env ks x'"
  using assms by (simp add: client_loop.simps [of env "k # ks"])

lemma queued_running: "calling x c \<Longrightarrow> \<not> m_stop_flag (ct_loop (queued cb x))"
  by (simp add: calling_def queued_def on_loop_def)

section \<open>Connecting\<close>

lemma listen_fe_fd [simp]: "fe_fd (listen e cb ecb ev) = fe_fd ev"
  by (cases e) simp_all

lemma cancle_fe_fd [simp]: "fe_fd (cancle e ev) = fe_fd ev"
  by (cases e) simp_all

lemma push_simps [simp]:
  "tc_fd (pushSendMessage m cb c) = tc_fd c" "m_fd_event (pushSendMessage m cb c) = m_fd_event c"
  "tc_fd (pushReadMessage k cb c) = tc_fd c" "m_fd_event (pushReadMessage k cb c) = m_fd_event c"
  by (simp_all add: pushSendMessage_def pushReadMessage_def)

lemma listening_simps [simp]:
  "fe_fd (m_fd_event (listenWrite c)) = fe_fd (m_fd_event c)" "tc_fd (listenRead c) = tc_fd c"
  "fe_fd (m_fd_event (listenRead c)) = fe_fd (m_fd_event c)"
  by (simp_all add: listenWrite_def listenRead_def addEpoll_def emit_def)

text \<open>The two events that make an open call go on.\<close>

lemma connected_event:
  assumes "calling x c"
  shows "\<exists>x'. call_event env (ConnectDone 0 info) x = Inr x' \<and>
     calling x' (listenWrite (pushSendMessage (TinyPB (ce_req env)) OnWritten c)) \<and>
     ct_request x' = client_do [WriteMessage (ce_req env)] (ct_request x) \<and> ct_arrivals x' = ct_arrivals x"
proof -
  define c' where "c' = listenWrite (pushSendMessage (TinyPB (ce_req env)) OnWritten c)"
  define s' where "s' = client_do [WriteMessage (ce_req env)] (ct_request x)"
  note x = callingD [OF assms]
  have "call_event env (ConnectDone 0 info) x =
      Inr \<lparr>ct_client = carry_client (ct_client x) ((ct_client x)\<lparr>cl_connection := Some c'\<rparr>), ct_request = s', ct_arrivals = ct_arrivals x\<rparr>"
    using x by (cases x) (simp add: call_event_def on_connected_def client_do_def writeMessage_def with_connection_def c'_def s'_def Let_def)
  moreover have "calling \<lparr>ct_client = carry_client (ct_client x) ((ct_client x)\<lparr>cl_connection := Some c'\<rparr>), ct_request = s', ct_arrivals = ct_arrivals x\<rparr> c'"
    by (rule calling_carried [OF assms]) (use assms in \<open>simp_all add: c'_def s'_def client_do_def calling_def\<close>)
  ultimately show ?thesis by (auto simp: c'_def s'_def)
qed

lemma written_event:
  assumes "calling x c"
  shows "\<exists>x'. call_event env RequestWritten x = Inr x' \<and>
     calling x' (listenRead (pushReadMessage (m_msg_id (ce_req env)) OnResponse c)) \<and>
     ct_request x' = client_do [ReadMessage (m_msg_id (ce_req env))] (ct_request x) \<and> ct_arrivals x' = ct_arrivals x"
proof -
  define c' where "c' = listenRead (pushReadMessage (m_msg_id (ce_req env)) OnResponse c)"
  define s' where "s' = client_do [ReadMessage (m_msg_id (ce_req env))] (ct_request x)"
  note x = callingD [OF assms]
  have "call_event env RequestWritten x =
      Inr \<lparr>ct_client = carry_client (ct_client x) ((ct_client x)\<lparr>cl_connection := Some c'\<rparr>), ct_request = s', ct_arrivals = ct_arrivals x\<rparr>"
    using x by (cases x) (simp add: call_event_def on_written_def client_do_def readMessage_def with_connection_def c'_def s'_def Let_def)
  moreover have "calling \<lparr>ct_client = carry_client (ct_client x) ((ct_client x)\<lparr>cl_connection := Some c'\<rparr>), ct_request = s', ct_arrivals = ct_arrivals x\<rparr> c'"
    by (rule calling_carried [OF assms]) (use assms in \<open>simp_all add: c'_def s'_def client_do_def calling_def\<close>)
  ultimately show ?thesis by (auto simp: c'_def s'_def)
qed

text \<open>The connect callback, when the connection is established.\<close>

definition connected :: "call_cb tcp_connection \<Rightarrow> call_cb tcp_connection" where
  "connected c = setState Connected (emit [DeleteEpollEvent] (c\<lparr>m_fd_event := cancle OUT_EVENT (m_fd_event c)\<rparr>))"

lemma run_connect_established:
  assumes "calling x c" and "cl_fd_event (ct_client x)" and "m_connect_error_code (ct_client x) = 0"
    and "rt = ConnectOk \<or> rt = ConnectErrno EISCONN"
  shows "\<exists>x'. run_connect env rt x = Inr x' \<and>
     calling x' (listenWrite (pushSendMessage (TinyPB (ce_req env)) OnWritten (connected c))) \<and>
     ct_request x' = client_do [WriteMessage (ce_req env)] (ct_request x) \<and> ct_arrivals x' = ct_arrivals x"
proof -
  define cl where "cl = run_done True ((initLocalAddr (ce_ntoa env) (ce_name env)
      ((ct_client x)\<lparr>cl_connection := Some (emit [DeleteEpollEvent] (c\<lparr>m_fd_event := cancle OUT_EVENT (m_fd_event c)\<rparr>))\<rparr>))\<lparr>cl_connection := Some (connected c)\<rparr>)"
  note x = callingD [OF assms(1)]
  have cb: "connect_callback (ce_strerror env) (ce_ntoa env) rt (ce_name env) True (ct_client x) = Inr cl"
    using assms(2,4) x(1) by (auto simp: connect_callback_def with_fd_event_def with_connection_def cl_def connected_def)
  have cl: "cl_connection cl = Some (connected c)" "cl_event_loop cl = ct_loop x" "connect_dones (ct_client x) < connect_dones cl"
    "m_connect_error_code cl = 0"
    using assms(3) by (simp_all add: cl_def run_done_def)
  define x1 where "x1 = \<lparr>ct_client = carry_client (ct_client x) cl, ct_request = ct_request x, ct_arrivals = ct_arrivals x\<rparr>"
  have "calling x1 (connected c)"
    unfolding x1_def by (rule calling_carried [OF assms(1) _ _ cl(1,2)]) (use assms(1) in \<open>simp_all add: calling_def connected_def setState_def emit_def\<close>)
  moreover have "run_connect env rt x = call_event env (ConnectDone 0 (m_connect_error_info cl)) x1"
    using cb cl(3,4) by (cases x) (simp add: run_connect_def connect_finished_def x1_def)
  ultimately show ?thesis
    using connected_event [of x1 "connected c" env "m_connect_error_info cl"] by (simp add: x1_def)
qed

section \<open>Writing\<close>

text \<open>A connection with the bytes \<open>todo\<close> of its request still to send, encoded or not yet.\<close>

definition sending :: "tinypb \<Rightarrow> call_cb tcp_connection \<Rightarrow> byte list \<Rightarrow> bool" where
  "sending req c todo \<longleftrightarrow> awaiting c \<and> handler OUT_EVENT (m_fd_event c) = Some CallOnWrite \<and> buffer_ok (m_out_buffer c) \<and> todo \<noteq> [] \<and>
     (\<exists>m. m_write_dones c = [(m, OnWritten)] \<and>
        (contents (m_out_buffer c) = todo \<or>
         contents (m_out_buffer c) = [] \<and> m = TinyPB req \<and> encodable req \<and> todo = packet (with_msg_id req) \<and>
         room (m_out_buffer c) (length todo)))"

lemma sending_encoded:
  assumes "sending req c todo"
  shows "\<exists>m b. (if m_connection_type c = TcpConnectionByClient \<and> readAble (m_out_buffer c) = 0
            then encode (map fst (m_write_dones c)) (m_out_buffer c)
            else Inr (map fst (m_write_dones c), m_out_buffer c)) = Inr ([m], b) \<and>
         map snd (m_write_dones c) = [OnWritten] \<and> buffer_ok b \<and> contents b = todo"
proof -
  obtain m where m: "m_write_dones c = [(m, OnWritten)]"
      "contents (m_out_buffer c) = todo \<or>
       contents (m_out_buffer c) = [] \<and> m = TinyPB req \<and> encodable req \<and> todo = packet (with_msg_id req) \<and> room (m_out_buffer c) (length todo)"
    using assms by (auto simp: sending_def)
  have ok: "buffer_ok (m_out_buffer c)" "todo \<noteq> []" using assms by (auto simp: sending_def)
  show ?thesis
  proof (cases "contents (m_out_buffer c) = []")
    case True
    then have r: "m = TinyPB req" "encodable req" "todo = packet (with_msg_id req)" "room (m_out_buffer c) (length todo)"
      using m(2) ok(2) by auto
    obtain b where "encode [TinyPB req] (m_out_buffer c) = Inr ([TinyPB (stamped (with_msg_id req))], b)" "buffer_ok b" "contents b = todo"
      using encode_ok [OF ok(1), of "[TinyPB req]"] True r by auto
    then show ?thesis
      using True m(1) r(1) contents_empty [OF ok(1)] assms by (auto simp: sending_def awaiting_def)
  next
    case False
    then show ?thesis using m ok contents_empty [OF ok(1)] by auto
  qed
qed

lemma write_round:
  assumes "sending req c todo" and "0 < n"
  shows "\<exists>c' out rest. onWrite [WriteAccepts n] c = Inr c' \<and> todo = out @ rest \<and> out \<noteq> [] \<and> sent c' = sent c @ out \<and>
     m_in_buffer c' = m_in_buffer c \<and> m_read_dones c' = m_read_dones c \<and> tc_fd c' = tc_fd c \<and>
     fe_fd (m_fd_event c') = fe_fd (m_fd_event c) \<and> awaiting c' \<and>
     (if rest = [] then \<exists>events m. effects c' = effects c @ [AddEpollEvent events, WriteDone OnWritten m]
      else effects c' = effects c \<and> sending req c' rest)"
proof -
  obtain m b where e: "(if m_connection_type c = TcpConnectionByClient \<and> readAble (m_out_buffer c) = 0
            then encode (map fst (m_write_dones c)) (m_out_buffer c)
            else Inr (map fst (m_write_dones c), m_out_buffer c)) = Inr ([m], b)"
      "map snd (m_write_dones c) = [OnWritten]" "buffer_ok b" "contents b = todo"
    using sending_encoded [OF assms(1)] by (elim exE conjE)
  have c: "m_state c = Connected" "0 \<le> tc_fd c" "m_connection_type c = TcpConnectionByClient" "todo \<noteq> []"
    "handler OUT_EVENT (m_fd_event c) = Some CallOnWrite"
    using assms(1) by (simp_all add: sending_def awaiting_def del: handler.simps)
  obtain ending b' out where w: "write_loop [WriteAccepts n] b = Inr (ending, b', out)" "buffer_ok b'" "ending \<noteq> WriteFailed"
      "contents b = out @ contents b'" "ending = WroteAll \<longleftrightarrow> contents b' = []" "length (contents b') < length (contents b)"
    using write_loop_some [of b n] e(3,4) c(4) assms(2) by blast
  define c1 where "c1 = c\<lparr>m_write_dones := [(m, OnWritten)], m_out_buffer := b', sent := sent c @ out\<rparr>"
  have "onWrite [WriteAccepts n] c = Inr (if contents b' = []
      then (emit [WriteDone OnWritten m] (addEpoll (c1\<lparr>m_fd_event := cancle OUT_EVENT (m_fd_event c1)\<rparr>)))\<lparr>m_write_dones := []\<rparr> else c1)"
    using c e(1,2) w(1,3,5) unfolding onWrite_def by (simp add: c1_def Let_def addEpoll_def emit_def)
  moreover have "out \<noteq> []" using w(4,6) by auto
  moreover have "contents b' \<noteq> [] \<Longrightarrow> sending req c1 (contents b')"
    using c w(2) by (simp add: c1_def sending_def awaiting_def)
  ultimately show ?thesis
    using w(4) e(4) c
    by (intro exI [of _ "if contents b' = []
          then (emit [WriteDone OnWritten m] (addEpoll (c1\<lparr>m_fd_event := cancle OUT_EVENT (m_fd_event c1)\<rparr>)))\<lparr>m_write_dones := []\<rparr> else c1"]
          exI [of _ out] exI [of _ "contents b'"])
      (auto simp: c1_def addEpoll_def emit_def awaiting_def)
qed

text \<open>A function of the connection on a call that is on the way.\<close>

lemma connection_step_calling:
  assumes "calling x c" and "f (ct_arrivals x) c = Inr (c', rest)" and "tc_fd c' = tc_fd c" and "fe_fd (m_fd_event c') = fe_fd (m_fd_event c)"
  shows "\<exists>x1. connection_step env f x = fold_cpp (run_effect env) (drop (length (effects c)) (effects c')) x1 \<and> calling x1 c' \<and>
     ct_request x1 = ct_request x \<and> ct_arrivals x1 = rest"
proof -
  define x1 where "x1 = \<lparr>ct_client = carry_client (ct_client x) ((ct_client x)\<lparr>cl_connection := Some c'\<rparr>), ct_request = ct_request x, ct_arrivals = rest\<rparr>"
  have "calling x1 c'"
    unfolding x1_def by (rule calling_carried [OF assms(1)]) (use assms in \<open>simp_all add: calling_def\<close>)
  moreover have "connection_step env f x = fold_cpp (run_effect env) (drop (length (effects c)) (effects c')) x1"
    using callingD(1,6) [OF assms(1)] assms(2) by (cases x) (simp add: connection_step_def x1_def)
  ultimately show ?thesis by (auto simp: x1_def)
qed

definition receiving :: "string \<Rightarrow> call_cb tcp_connection \<Rightarrow> bool" where
  "receiving msg_id c \<longleftrightarrow> awaiting c \<and> handler IN_EVENT (m_fd_event c) = Some CallOnRead \<and> m_read_dones c = [(msg_id, OnResponse)]"

lemma writes_run:
  fixes x :: "('c, 'r) client_thread"
  assumes "calling x c" and "sending req c todo" and "0 < n" and "m_read_dones c = []"
    and "kw = woken [] [WriteAccepts n] rt (tc_fd c) EPOLLOUT" and "kr = woken [] [WriteAccepts n] rt (tc_fd c) EPOLLIN"
  shows "\<exists>j x' c'. j < length todo \<and>
     (\<forall>ks. client_loop env (replicate j kw @ kr # ks) (queued (ConnCb CallOnWrite) x) = client_loop env ks (queued (ConnCb CallOnRead) x')) \<and>
     calling x' c' \<and> receiving (m_msg_id (ce_req env)) c' \<and> sent c' = sent c @ todo \<and> m_in_buffer c' = m_in_buffer c \<and> tc_fd c' = tc_fd c \<and>
     ct_arrivals x' = ct_arrivals x \<and> ct_request x' = client_do [ReadMessage (m_msg_id (ce_req env))] (ct_request x)"
  using assms
proof (induction "length todo" arbitrary: x c todo rule: less_induct)
  case less
  note x = callingD [OF less.prems(1)]
  obtain c1 out rest where w: "onWrite [WriteAccepts n] c = Inr c1" "todo = out @ rest" "out \<noteq> []" "sent c1 = sent c @ out"
      "m_in_buffer c1 = m_in_buffer c" "m_read_dones c1 = m_read_dones c" "tc_fd c1 = tc_fd c"
      "fe_fd (m_fd_event c1) = fe_fd (m_fd_event c)" "awaiting c1"
      "if rest = [] then \<exists>events m. effects c1 = effects c @ [AddEpollEvent events, WriteDone OnWritten m]
       else effects c1 = effects c \<and> sending req c1 rest"
    using write_round [OF less.prems(2,3)] by blast
  obtain x1 where x1: "connection_step env (\<lambda>reads c. map_cpp (\<lambda>c. (c, reads)) (onWrite [WriteAccepts n] c)) x =
        fold_cpp (run_effect env) (drop (length (effects c)) (effects c1)) x1"
      "calling x1 c1" "ct_request x1 = ct_request x" "ct_arrivals x1 = ct_arrivals x"
    using connection_step_calling [OF less.prems(1), of "\<lambda>reads c. map_cpp (\<lambda>c. (c, reads)) (onWrite [WriteAccepts n] c)" c1 "ct_arrivals x"] w(1,7,8)
    by auto
  have run: "client_loop env (k # ks) (queued (ConnCb CallOnWrite) x) = client_loop env ks (client_dispatch (k_wait k) t)"
    if "fold_cpp (run_effect env) (drop (length (effects c)) (effects c1)) x1 = Inr t" "k_reads k = []" "k_writes k = [WriteAccepts n]" for k ks t
    using client_loop_step [OF queued_running [OF less.prems(1)] task_round [OF less.prems(1), of env k "ConnCb CallOnWrite" t]] that x1(1)
    by simp
  show ?case
  proof (cases "rest = []")
    case True
    then obtain events m where e: "effects c1 = effects c @ [AddEpollEvent events, WriteDone OnWritten m]" using w(10) by auto
    define c2 where "c2 = listenRead (pushReadMessage (m_msg_id (ce_req env)) OnResponse c1)"
    obtain x2 where x2: "call_event env RequestWritten x1 = Inr x2" "calling x2 c2"
        "ct_request x2 = client_do [ReadMessage (m_msg_id (ce_req env))] (ct_request x1)" "ct_arrivals x2 = ct_arrivals x1"
      using written_event [OF x1(2), of env] unfolding c2_def by blast
    have c2: "receiving (m_msg_id (ce_req env)) c2" "sent c2 = sent c @ todo" "m_in_buffer c2 = m_in_buffer c" "tc_fd c2 = tc_fd c"
      using w less.prems(4) True
      by (simp_all add: c2_def receiving_def awaiting_def listenRead_def pushReadMessage_def addEpoll_def emit_def map_insert_def handler_listen
          del: handler.simps)
    then have wk: "client_dispatch (WaitEvents [(Some (nat (tc_fd c)), EPOLLIN)]) x2 = queued (ConnCb CallOnRead) x2"
      using wakes(1) [OF x2(2), of IN_EVENT CallOnRead EPOLLIN] by (simp add: receiving_def del: handler.simps)
    have "client_loop env (replicate 0 kw @ kr # ks) (queued (ConnCb CallOnWrite) x) = client_loop env ks (queued (ConnCb CallOnRead) x2)" for ks
      using run [of x2 kr ks] e x2(1) wk less.prems(6) by simp
    then show ?thesis
      using c2 x2 x1(3,4) less.prems(2) by (intro exI [of _ 0] exI [of _ x2] exI [of _ c2]) (auto simp: sending_def)
  next
    case False
    then have e: "effects c1 = effects c" "sending req c1 rest" using w(10) by simp_all
    have wk: "client_dispatch (WaitEvents [(Some (nat (tc_fd c)), EPOLLOUT)]) x1 = queued (ConnCb CallOnWrite) x1"
      using wakes(1) [OF x1(2), of OUT_EVENT CallOnWrite EPOLLOUT] e(2) w(7) by (simp add: sending_def del: handler.simps)
    have "client_loop env (kw # ks) (queued (ConnCb CallOnWrite) x) = client_loop env ks (queued (ConnCb CallOnWrite) x1)" for ks
      using run [of x1 kw ks] e wk less.prems(5) by simp
    moreover obtain j x' c' where IH: "j < length rest"
        "\<forall>ks. client_loop env (replicate j kw @ kr # ks) (queued (ConnCb CallOnWrite) x1) = client_loop env ks (queued (ConnCb CallOnRead) x')"
        "calling x' c'" "receiving (m_msg_id (ce_req env)) c'" "sent c' = sent c1 @ rest" "m_in_buffer c' = m_in_buffer c1" "tc_fd c' = tc_fd c1"
        "ct_arrivals x' = ct_arrivals x1" "ct_request x' = client_do [ReadMessage (m_msg_id (ce_req env))] (ct_request x1)"
      using less.hyps [of rest x1 c1] x1(2) e(2) w less.prems(3-6) by auto
    moreover have "Suc j < length todo" using IH(1) w(2,3) by (cases out) auto
    ultimately show ?thesis
      using w(2,4-7) x1(3,4) by (intro exI [of _ "Suc j"] exI [of _ x'] exI [of _ c']) auto
  qed
qed

section \<open>Receiving\<close>

lemma clear_sent [simp]: "sent (clear c) = sent c"
  by (simp add: clear_def emit_def Let_def split: option.splits)

lemma perform_completion:
  assumes "cl_connection cl = Some c" and "m_is_looping (cl_event_loop cl)"
  shows "\<exists>cl' c'. fold_cpp (perform env rt) (completion_calls s) cl = Inr cl' \<and> m_stop_flag (cl_event_loop cl') \<and>
     cl_connection cl' = Some c' \<and> is_closed c' \<and> sent c' = sent c"
  using assms
  by (simp add: completion_calls_def client_setDisconnectCallback_def client_removeReadMessage_def client_deleteTimerEvent_def
      loop_deleteTimerEvent_def disconnect_def client_stop_def if_connection_def is_closed_keeps setDisconnectCallback_def removeReadMessage_def)

text \<open>An event that completes an open call disconnects its client and stops the loop.\<close>

lemma completing_run:
  assumes "cl_connection (ct_client x) = Some c" and "m_is_looping (ct_loop x)" and "completing e"
    and "\<not> completed (ct_request x)" and "state_alive (ct_request x)" and "rs_client (ct_request x)"
  shows "\<exists>x' c'. call_event env e x = Inr x' \<and> m_stop_flag (ct_loop x') \<and>
     ct_request x' = handle_event (ce_parse env) (ce_req env) e (ct_request x) \<and>
     cl_connection (ct_client x') = Some c' \<and> is_closed c' \<and> sent c' = sent c"
proof -
  define s' where "s' = handle_event (ce_parse env) (ce_req env) e (ct_request x)"
  have "e \<noteq> OwnerGone" using assms(3) by auto
  then have "client_calls s' = client_calls (ct_request x) @ completion_calls (ct_request x)"
    using open_event [OF assms(4-6) _ s'_def] assms(3) by auto
  moreover obtain cl' c' where "fold_cpp (perform env ConnectOk) (completion_calls (ct_request x)) (ct_client x) = Inr cl'"
      "m_stop_flag (cl_event_loop cl')" "cl_connection cl' = Some c'" "is_closed c'" "sent c' = sent c"
    using perform_completion [OF assms(1,2)] by metis
  ultimately show ?thesis
    by (simp add: call_event_def s'_def [symmetric] Let_def)
qed

lemma onRead_chunk:
  assumes "awaiting c" and "in_buffer_ok (m_in_buffer c) (length bs + k)" and "bs \<noteq> []"
    and "fold run_read_done (fst (decode_bytes (contents (m_in_buffer c) @ bs))) c = c1"
  shows "\<exists>b. onRead dsp [ReadData bs] c = Inr (c1\<lparr>m_in_buffer := b\<rparr>, []) \<and> in_buffer_ok b k \<and>
     contents b = snd (decode_bytes (contents (m_in_buffer c) @ bs))"
proof -
  obtain b where b: "arrival dsp bs c = Inr (c1\<lparr>m_in_buffer := b\<rparr>)" "in_buffer_ok b k"
      "contents b = snd (decode_bytes (contents (m_in_buffer c) @ bs))"
    using client.arrival_ok [OF assms(1-3), of c1 dsp] assms(4) by (auto simp: fold_cpp_total)
  then obtain rest where r: "onRead dsp [ReadData bs] c = Inr (c1\<lparr>m_in_buffer := b\<rparr>, rest)"
    by (auto simp: arrival_def map_cpp_eq_Inr)
  then obtain close b1 where "read_loop [ReadData bs] (m_in_buffer c) = Inr (close, b1, rest)"
    using assms(1) by (auto simp: onRead_def awaiting_def bind_cpp_eq_Inr Let_def split: if_splits)
  then have "rest = []"
    using read_loop_chunk [of "m_in_buffer c" "[ReadData bs]"] assms(2,3) by auto
  then show ?thesis using r b by auto
qed

lemma run_read_done_waiting:
  assumes "receiving (m_msg_id m) c"
  shows "run_read_done m c = emit [ReadDone OnResponse (TinyPB m)] (c\<lparr>m_read_dones := []\<rparr>)"
  using assms by (simp add: receiving_def run_read_done_def map_find_def map_erase_def)

lemma reads_run:
  fixes x :: "('c, 'r) client_thread"
  assumes "calling x c" and "receiving (m_msg_id rsp) c" and "ct_arrivals x = []"
    and "in_buffer_ok (m_in_buffer c) (length (concat pieces))" and "[] \<notin> set pieces"
    and "decode_bytes (contents (m_in_buffer c)) = ([], contents (m_in_buffer c))"
    and "decode_bytes (contents (m_in_buffer c) @ concat pieces) = ([rsp], undecoded)"
  shows "\<exists>x' c'. client_loop env (map (\<lambda>bs. woken [ReadData bs] [] rt (tc_fd c) EPOLLIN) pieces @ ks) (queued (ConnCb CallOnRead) x) = Some (Inr x') \<and>
     ct_request x' = on_response (ce_parse env) (TinyPB rsp) (ct_request x) \<and> m_stop_flag (ct_loop x') \<and> \<not> m_is_looping (ct_loop x') \<and>
     cl_connection (ct_client x') = Some c' \<and> is_closed c' \<and> sent c' = sent c"
  using assms
proof (induction pieces arbitrary: x c)
  case Nil
  then show ?case by simp
next
  case (Cons bs pieces)
  define p where "p = decode_bytes (contents (m_in_buffer c) @ bs)"
  define q where "q = decode_bytes (snd p @ concat pieces)"
  have pq: "fst p @ fst q = [rsp]" "undecoded = snd q"
    using Cons.prems(7) wire.dec_append [of "contents (m_in_buffer c) @ bs" "concat pieces"] by (simp_all add: p_def q_def)
  have aw: "awaiting c" using Cons.prems(2) by (simp add: receiving_def)
  define c1 where "c1 = fold run_read_done (fst p) c"
  obtain b where b: "onRead (\<lambda>_ _. Inr) [ReadData bs] c = Inr (c1\<lparr>m_in_buffer := b\<rparr>, [])" "in_buffer_ok b (length (concat pieces))" "contents b = snd p"
    using onRead_chunk [OF aw, of bs "length (concat pieces)" c1 "\<lambda>_ _. Inr"] Cons.prems(4,5) by (auto simp: p_def c1_def)
  define c2 where "c2 = c1\<lparr>m_in_buffer := b\<rparr>"
  have c1: "c1 = (if fst p = [] then c else emit [ReadDone OnResponse (TinyPB rsp)] (c\<lparr>m_read_dones := []\<rparr>))"
    using pq(1) run_read_done_waiting [OF Cons.prems(2)] by (cases "fst p") (simp_all add: c1_def)
  then have c2: "tc_fd c2 = tc_fd c" "fe_fd (m_fd_event c2) = fe_fd (m_fd_event c)" "sent c2 = sent c"
    by (simp_all add: c2_def emit_def)
  define k where "k = woken [ReadData bs] [] rt (tc_fd c) EPOLLIN"
  have cx: "calling (x\<lparr>ct_arrivals := [ReadData bs]\<rparr>) c" using Cons.prems(1) by (simp add: calling_def)
  obtain x1 where x1: "connection_step env (onRead (\<lambda>_ _. Inr)) (x\<lparr>ct_arrivals := [ReadData bs]\<rparr>) =
        fold_cpp (run_effect env) (drop (length (effects c)) (effects c2)) x1"
      "calling x1 c2" "ct_request x1 = ct_request x" "ct_arrivals x1 = []"
    using connection_step_calling [OF cx, of "onRead (\<lambda>_ _. Inr)" c2 "[]"] b(1) c2 by (auto simp: c2_def)
  have run: "client_loop env (k # rest) (queued (ConnCb CallOnRead) x) = client_loop env rest (client_dispatch (k_wait k) t)"
    if "fold_cpp (run_effect env) (drop (length (effects c)) (effects c2)) x1 = Inr t" for rest t
    using client_loop_step [OF queued_running [OF Cons.prems(1)] task_round [OF Cons.prems(1), of env k "ConnCb CallOnRead" t]] that x1(1) Cons.prems(3)
    by (simp add: k_def)
  show ?case
  proof (cases "fst p = []")
    case True
    then have e: "effects c2 = effects c" "receiving (m_msg_id rsp) c2"
      using c1 Cons.prems(2) by (simp_all add: c2_def receiving_def awaiting_def)
    have wk: "client_dispatch (k_wait k) x1 = queued (ConnCb CallOnRead) x1"
      using wakes(1) [OF x1(2), of IN_EVENT CallOnRead EPOLLIN] e(2) c2(1) by (simp add: k_def receiving_def del: handler.simps)
    have "decode_bytes (contents b) = ([], contents b)"
      using wire.dec_append [of "contents (m_in_buffer c) @ bs" "[]"] by (simp add: b(3) p_def prod_eq_iff)
    moreover have "decode_bytes (contents b @ concat pieces) = ([rsp], undecoded)"
      using pq True by (simp add: q_def b(3) prod_eq_iff)
    ultimately obtain x' c' where "client_loop env (map (\<lambda>bs. woken [ReadData bs] [] rt (tc_fd c2) EPOLLIN) pieces @ ks) (queued (ConnCb CallOnRead) x1) = Some (Inr x')"
        "ct_request x' = on_response (ce_parse env) (TinyPB rsp) (ct_request x1)" "m_stop_flag (ct_loop x')" "\<not> m_is_looping (ct_loop x')"
        "cl_connection (ct_client x') = Some c'" "is_closed c'" "sent c' = sent c2"
      using Cons.IH [OF x1(2) e(2) x1(4)] b(2) Cons.prems(5) by (auto simp: c2_def)
    then show ?thesis
      using run [of x1] e(1) wk c2 x1(3) by (simp add: k_def)
  next
    case False
    then have e: "effects c2 = effects c @ [ReadDone OnResponse (TinyPB rsp)]" using c1 by (simp add: c2_def emit_def)
    obtain t c' where t: "call_event env (ResponseArrived (TinyPB rsp)) x1 = Inr t" "m_stop_flag (ct_loop t)"
        "ct_request t = on_response (ce_parse env) (TinyPB rsp) (ct_request x1)" "cl_connection (ct_client t) = Some c'" "is_closed c'" "sent c' = sent c2"
      using completing_run [OF callingD(1,4) [OF x1(2)] _ callingD(7-9) [OF x1(2)], of "ResponseArrived (TinyPB rsp)" env] by auto
    define t1 where "t1 = client_dispatch (k_wait k) t"
    have t1: "m_stop_flag (ct_loop t1)" "ct_request t1 = ct_request t" "cl_connection (ct_client t1) = cl_connection (ct_client t)"
      using t(2) by (simp_all add: t1_def k_def on_loop_def)
    define fin where "fin = on_loop (\<lambda>l. l\<lparr>m_is_looping := False\<rparr>) t1"
    have "fold_cpp (run_effect env) (drop (length (effects c)) (effects c2)) x1 = Inr t" using e t(1) by simp
    from run [OF this] have "client_loop env (k # rest) (queued (ConnCb CallOnRead) x) = Some (Inr fin)" for rest
      using t1(1) by (simp add: t1_def [symmetric] client_loop.simps [of env _ t1] fin_def)
    moreover have "ct_request fin = on_response (ce_parse env) (TinyPB rsp) (ct_request x)" "m_stop_flag (ct_loop fin)"
        "\<not> m_is_looping (ct_loop fin)" "cl_connection (ct_client fin) = Some c'" "is_closed c'" "sent c' = sent c"
      using t t1 c2(3) x1(3) by (simp_all add: fin_def on_loop_def)
    ultimately show ?thesis by (intro exI [of _ fin] exI [of _ c']) (simp add: k_def)
  qed
qed

section \<open>Properties\<close>

text \<open>The connection of a call while the attempt to connect is in progress.\<close>

definition connecting :: "call_cb tcp_connection \<Rightarrow> call_cb tcp_connection" where
  "connecting c = addEpoll (c\<lparr>m_disconnect_callback := Some OnLost,
     m_fd_event := listen OUT_EVENT (Some CallConnect) (Some CallConnect) (m_fd_event c)\<rparr>)"

lemma started_calling:
  assumes "s = start_request cancel i req ctrl" and "cl_connection cl = Some c" and "fe_fd (m_fd_event c) = tc_fd c" and "0 \<le> tc_fd c"
    and "cl_fd_event cl" and "\<not> m_stop_flag (cl_event_loop cl)" and "\<not> m_is_looping (cl_event_loop cl)" and "m_pending_tasks (cl_event_loop cl) = []"
  shows "\<exists>x. (\<forall>ks. run_call env (ConnectErrno EINPROGRESS) ks s cl = client_loop env ks x) \<and> calling x (connecting c) \<and>
     ct_request x = s \<and> ct_arrivals x = [] \<and> cl_fd_event (ct_client x) \<and> m_connect_error_code (ct_client x) = m_connect_error_code cl"
proof -
  define p where "p = prepared env (m_timeout (rs_controller s)) cl"
  define cl' where "cl' = p\<lparr>cl_connection := Some (connecting c), loop_entries := Suc (loop_entries p)\<rparr>"
  define x0 where "x0 = \<lparr>ct_client = carry_client p cl', ct_request = s, ct_arrivals = []\<rparr>"
  have p: "cl_connection p = Some (setDisconnectCallback (Some OnLost) c)" using assms(2) by (simp add: p_def)
  have "connect (ce_strerror env) (ce_ntoa env) (ConnectErrno EINPROGRESS) (ce_name env) True p = Inr cl'"
    using assms(2,5,7) by (simp add: connect_def with_fd_event_def with_connection_def cl'_def p_def setDisconnectCallback_def connecting_def)
  then have "start_call env (ConnectErrno EINPROGRESS) s cl = Inr x0"
    unfolding start_call_prepared [OF assms(1)] p_def [symmetric] by (simp add: connect_finished_def x0_def cl'_def p_def)
  then have "run_call env (ConnectErrno EINPROGRESS) ks s cl = client_loop env ks (on_loop (\<lambda>l. l\<lparr>m_is_looping := True\<rparr>) x0)" for ks
    by (simp add: run_call_def x0_def cl'_def p_def)
  moreover have "event_addr (setDisconnectCallback (Some OnLost) c) = nat (tc_fd c)"
    using assms(3) by (simp add: event_addr_def setDisconnectCallback_def)
  then have "fd_events (cl_event_loop (carry_client p cl')) (nat (tc_fd c)) = map_event (\<lambda>cb. User (ConnCb cb)) (m_fd_event (connecting c))"
    using carry_client_event [OF p, of cl' "connecting c"] by (simp add: cl'_def)
  then have "calling (on_loop (\<lambda>l. l\<lparr>m_is_looping := True\<rparr>) x0) (connecting c)"
    using assms by (simp add: calling_def on_loop_def x0_def cl'_def p_def connecting_def addEpoll_def emit_def start_request_def Let_def split_beta)
  ultimately show ?thesis
    using assms(5) by (intro exI [of _ "on_loop (\<lambda>l. l\<lparr>m_is_looping := True\<rparr>) x0"]) (simp add: on_loop_def x0_def cl'_def p_def)
qed

lemma fresh_fields:
  assumes "setState Connected c = opened type fd"
  shows "tc_fd c = fd" "m_fd_event c = newFd_Event fd" "m_out_buffer c = m_out_buffer (opened type fd :: 'd tcp_connection)"
    "m_in_buffer c = m_in_buffer (opened type fd :: 'd tcp_connection)" "m_write_dones c = []" "m_read_dones c = []" "sent c = []"
    "m_connection_type c = type"
  using assms by (cases c; simp add: setState_def opened_def)+

text \<open>The connection with the request queued.\<close>

definition requesting :: "tinypb \<Rightarrow> call_cb tcp_connection \<Rightarrow> call_cb tcp_connection" where
  "requesting req c = listenWrite (pushSendMessage (TinyPB req) OnWritten (connected (connecting c)))"

lemma requesting_sending:
  assumes "setState Connected c = opened TcpConnectionByClient fd" and "0 \<le> fd" and "encodable req"
  shows "sending req (requesting req c) (packet (with_msg_id req))" "tc_fd (requesting req c) = fd" "m_read_dones (requesting req c) = []"
    "sent (requesting req c) = []" "m_in_buffer (requesting req c) = m_in_buffer (opened TcpConnectionByClient fd :: call_cb tcp_connection)"
    "handler OUT_EVENT (m_fd_event (requesting req c)) = Some CallOnWrite"
proof -
  note c = fresh_fields [OF assms(1)]
  have o: "room (m_out_buffer (opened TcpConnectionByClient fd :: call_cb tcp_connection)) (length (packet (with_msg_id req)))"
    "buffer_ok (m_out_buffer (opened TcpConnectionByClient fd :: call_cb tcp_connection))"
    "contents (m_out_buffer (opened TcpConnectionByClient fd :: call_cb tcp_connection)) = []"
    using opened_room(1,3,5) [OF packet_size [OF assms(3)] assms(2)] by blast+
  show h: "handler OUT_EVENT (m_fd_event (requesting req c)) = Some CallOnWrite" "tc_fd (requesting req c) = fd"
    "m_read_dones (requesting req c) = []" "sent (requesting req c) = []"
    "m_in_buffer (requesting req c) = m_in_buffer (opened TcpConnectionByClient fd :: call_cb tcp_connection)"
    using c assms(2)
    by (simp_all add: requesting_def connected_def connecting_def listenWrite_def pushSendMessage_def addEpoll_def emit_def setState_def
        handler_listen del: handler.simps)
  have "awaiting (requesting req c)" "m_write_dones (requesting req c) = [(TinyPB req, OnWritten)]"
    "m_out_buffer (requesting req c) = m_out_buffer (opened TcpConnectionByClient fd :: call_cb tcp_connection)"
    using c assms(2)
    by (simp_all add: requesting_def connected_def connecting_def listenWrite_def pushSendMessage_def addEpoll_def emit_def setState_def awaiting_def)
  moreover have "packet (with_msg_id req) \<noteq> []" by (simp add: packet_def)
  ultimately show "sending req (requesting req c) (packet (with_msg_id req))"
    using h(1) o assms(3) by (simp add: sending_def del: handler.simps)
qed

text \<open>The first iteration, woken when the attempt has ended.\<close>

lemma attempt_round:
  assumes "CallMethod cancel inet stubs i ctrl = Inr (Started s req)" and "newTcpClient fd (newFd_Event fd) l = Inr cl" and "0 \<le> fd"
    and "\<not> m_is_looping l" and "m_pending_tasks l = []" and "attempt_ended events"
  shows "\<exists>x c. (\<forall>ks. run_call env (ConnectErrno EINPROGRESS) (woken [] [] r fd events # ks) s cl = client_loop env ks (queued (ConnCb CallConnect) x)) \<and>
     setState Connected c = opened TcpConnectionByClient fd \<and> calling x (connecting c) \<and> ct_request x = s \<and> ct_arrivals x = [] \<and>
     cl_fd_event (ct_client x) \<and> m_connect_error_code (ct_client x) = 0"
proof -
  obtain c1 where s: "s = start_request cancel i req c1"
    using Started_shape [OF assms(1)] by blast
  obtain c where c: "cl_connection cl = Some c" "setState Connected c = opened TcpConnectionByClient fd" "cl_fd_event cl"
      "m_connect_error_code cl = 0" "\<not> m_stop_flag (cl_event_loop cl)"
    by (rule newTcpClient_opened [OF assms(2,3)]) simp
  have loop: "\<not> m_is_looping (cl_event_loop cl)" "m_pending_tasks (cl_event_loop cl) = []"
    using assms(2-5) by (auto simp: newTcpClient_def bind_cpp_eq_Inr Let_def split: if_splits)
  note f = fresh_fields [OF c(2)]
  obtain x where x: "\<forall>ks. run_call env (ConnectErrno EINPROGRESS) ks s cl = client_loop env ks x" "calling x (connecting c)"
      "ct_request x = s" "ct_arrivals x = []" "cl_fd_event (ct_client x)" "m_connect_error_code (ct_client x) = 0"
    using started_calling [OF s c(1) _ _ c(3,5) loop, of env] f(1,2) assms(3) c(4) by (auto simp: newFd_Event_def fe_reset_def)
  have "tc_fd (connecting c) = fd" "handler OUT_EVENT (m_fd_event (connecting c)) = Some CallConnect"
      "handler ERROR_EVENT (m_fd_event (connecting c)) = Some CallConnect"
    using f by (simp_all add: connecting_def addEpoll_def emit_def handler_listen del: handler.simps)
  then obtain x' where x': "on_loop (dispatch_event (Some (nat fd), events)) x = queued (ConnCb CallConnect) x'" "calling x' (connecting c)"
      "ct_request x' = ct_request x" "ct_arrivals x' = ct_arrivals x" "cl_fd_event (ct_client x') = cl_fd_event (ct_client x)"
      "m_connect_error_code (ct_client x') = m_connect_error_code (ct_client x)"
    using attempt_wakes [OF x(2) _ _ assms(6)] by metis
  have "client_loop env (woken [] [] r fd events # ks) x = client_loop env ks (queued (ConnCb CallConnect) x')" for ks
    using client_loop_step [OF callingD(3) [OF x(2)] idle_round [OF x(2)]] x'(1) by simp
  then show ?thesis using x x'(2-) c(2) by (intro exI [of _ x'] exI [of _ c]) simp
qed

lemma connect_round:
  assumes "calling x c" and "ct_arrivals x = []" and "run_connect env r x = Inr t"
  shows "client_loop env (woken [] [] r fd events # ks) (queued (ConnCb CallConnect) x) =
    client_loop env ks (client_dispatch (WaitEvents [(Some (nat fd), events)]) t)"
proof -
  define k where "k = woken [] [] r fd events"
  have "x\<lparr>ct_arrivals := ct_arrivals x @ k_reads k\<rparr> = x" by (simp add: k_def)
  then have "run_client_cb env k (ConnCb CallConnect) (x\<lparr>ct_arrivals := ct_arrivals x @ k_reads k\<rparr>) = Inr t"
    unfolding k_def using assms(3) by (metis run_client_cb.simps(4) woken_simps(3))
  from client_loop_step [OF queued_running [OF assms(1)] task_round [OF assms(1) this]] show ?thesis
    by (simp add: k_def)
qed

text \<open>The connect callback, when the attempt has failed.\<close>

definition connect_error :: "int \<Rightarrow> int32" where
  "connect_error e = (if e = ECONNREFUSED then ERROR_PEER_CLOSED else ERROR_FAILED_CONNECT)"

definition connect_error_text :: "(int \<Rightarrow> string) \<Rightarrow> int \<Rightarrow> string" where
  "connect_error_text strerror e =
     (if e = ECONNREFUSED then ''connect refused, sys error = '' else ''connect unkonwn error, sys error = '') @ strerror e"

lemma run_connect_refused:
  assumes "calling x c" and "cl_fd_event (ct_client x)" and "e \<noteq> EISCONN"
  shows "\<exists>x' c'. run_connect env (ConnectErrno e) x = Inr x' \<and> m_stop_flag (ct_loop x') \<and>
     ct_request x' = on_connected (connect_error e) (connect_error_text (ce_strerror env) e) (ce_req env) (ct_request x) \<and>
     cl_connection (ct_client x') = Some c' \<and> is_closed c'"
proof -
  note x = callingD [OF assms(1)]
  define cl where "cl = run_done True ((set_connect_error (connect_error e) (connect_error_text (ce_strerror env) e) (ct_client x))
      \<lparr>cl_connection := Some (clear (setDisconnectCallback None (emit [DeleteEpollEvent] (c\<lparr>m_fd_event := cancle OUT_EVENT (m_fd_event c)\<rparr>)))),
       cl_fd := - 1, cl_fd_event := False\<rparr>)"
  have cb: "connect_callback (ce_strerror env) (ce_ntoa env) (ConnectErrno e) (ce_name env) True (ct_client x) = Inr cl"
    using assms(2,3) x(1) by (simp add: connect_callback_def with_fd_event_def with_connection_def cl_def set_connect_error_def
        connect_error_def connect_error_text_def)
  define x1 where "x1 = x\<lparr>ct_client := carry_client (ct_client x) cl\<rparr>"
  have "run_connect env (ConnectErrno e) x = call_event env (ConnectDone (connect_error e) (connect_error_text (ce_strerror env) e)) x1"
    by (simp add: run_connect_def cb connect_finished_def x1_def) (simp add: cl_def run_done_def set_connect_error_def)
  moreover obtain c1 where "cl_connection (ct_client x1) = Some c1" by (simp add: x1_def cl_def run_done_def)
  moreover have "m_is_looping (ct_loop x1)" "ct_request x1 = ct_request x" "connect_error e \<noteq> 0"
    using x(4) by (simp_all add: x1_def cl_def run_done_def set_connect_error_def connect_error_def)
  ultimately show ?thesis
    using completing_run [of x1 c1 "ConnectDone (connect_error e) (connect_error_text (ce_strerror env) e)" env] x(7-9) by auto
qed

lemma refused_run:
  assumes "CallMethod cancel inet stubs i ctrl = Inr (Started s req)" and "newTcpClient fd (newFd_Event fd) l = Inr cl" and "0 \<le> fd"
    and "\<not> m_is_looping l" and "m_pending_tasks l = []" and "ce_req env = req" and "e \<noteq> EISCONN" and "attempt_ended events"
    and "k = woken [] [] (ConnectErrno e) fd events" and "k' = woken [] [] (ConnectErrno e) fd events'"
  shows "\<exists>x c'. run_call env (ConnectErrno EINPROGRESS) [k, k'] s cl = Some (Inr x) \<and> m_stop_flag (ct_loop x) \<and> \<not> m_is_looping (ct_loop x) \<and>
     ct_request x = on_connected (connect_error e) (connect_error_text (ce_strerror env) e) req s \<and>
     cl_connection (ct_client x) = Some c' \<and> is_closed c'"
proof -
  obtain x1 c0 where x1: "\<forall>ks. run_call env (ConnectErrno EINPROGRESS) (k # ks) s cl = client_loop env ks (queued (ConnCb CallConnect) x1)"
      "calling x1 (connecting c0)" "ct_request x1 = s" "ct_arrivals x1 = []" "cl_fd_event (ct_client x1)"
    using attempt_round [OF assms(1-5,8), where r = "ConnectErrno e" and env = env] unfolding assms(9) by metis
  obtain t c' where t: "run_connect env (ConnectErrno e) x1 = Inr t" "m_stop_flag (ct_loop t)"
      "ct_request t = on_connected (connect_error e) (connect_error_text (ce_strerror env) e) req s"
      "cl_connection (ct_client t) = Some c'" "is_closed c'"
    using run_connect_refused [OF x1(2,5) assms(7), of env] x1(3) assms(6) by auto
  define t1 where "t1 = client_dispatch (WaitEvents [(Some (nat fd), events')]) t"
  have t1: "m_stop_flag (ct_loop t1)" "ct_request t1 = ct_request t" "cl_connection (ct_client t1) = cl_connection (ct_client t)"
    using t(2) by (simp_all add: t1_def on_loop_def)
  have "run_call env (ConnectErrno EINPROGRESS) [k, k'] s cl = client_loop env [] t1"
    using x1(1) connect_round [OF x1(2,4) t(1), of fd events' "[]"] by (simp add: assms(10) t1_def)
  also have "\<dots> = Some (Inr (on_loop (\<lambda>l. l\<lparr>m_is_looping := False\<rparr>) t1))"
    using t1(1) by (simp add: client_loop.simps [of env "[]"])
  finally show ?thesis
    using t t1 by (intro exI [of _ "on_loop (\<lambda>l. l\<lparr>m_is_looping := False\<rparr>) t1"] exI [of _ c']) (simp add: on_loop_def)
qed

text \<open>
  C2. A call that the server answers is completed by the loop of its caller: with the attempt to connect
  in progress, the iteration that is woken when it has ended, the next one, which connects and queues
  the request, at most as many more as the request has bytes, as long as the kernel takes at least one
  byte each time, and one for each piece in which the response arrives, however it is cut, run without
  a fault. Then the loop has ended, the bytes handed to the kernel are exactly the packet of the
  request, the caller's response is the parsed one, no error is reported, the closure has been run
  exactly once, and the connection is closed.
\<close>

theorem call_answered_in_loop:
  assumes "CallMethod cancel inet stubs i ctrl = Inr (Started s req)" and "ci_has_closure i \<or> ci_has_done i" and "ce_req env = req"
    and "newTcpClient fd (newFd_Event fd) l = Inr cl" and "0 \<le> fd" and "\<not> m_is_looping l" and "m_pending_tasks l = []"
    and "encodable req" and "m_msg_id req \<noteq> []" and "0 < n" and "r = ConnectOk \<or> r = ConnectErrno EISCONN"
    and "encodable rsp" and "m_msg_id rsp = m_msg_id req" and "ce_parse env (m_pb_data rsp) = (True, v)" and "m_err_code rsp = 0"
    and "concat pieces = packet (with_msg_id rsp)" and "[] \<notin> set pieces"
  shows "\<exists>j x c'. j < length (packet (with_msg_id req)) \<and>
     run_call env (ConnectErrno EINPROGRESS)
       ([woken [] [] r fd EPOLLOUT, woken [] [] r fd EPOLLOUT] @
        replicate j (woken [] [WriteAccepts n] r fd EPOLLOUT) @ [woken [] [WriteAccepts n] r fd EPOLLIN] @
        map (\<lambda>bs. woken [ReadData bs] [] r fd EPOLLIN) pieces) s cl = Some (Inr x) \<and>
     m_stop_flag (ct_loop x) \<and> \<not> m_is_looping (ct_loop x) \<and> cl_connection (ct_client x) = Some c' \<and> is_closed c' \<and>
     sent c' = packet (with_msg_id req) \<and> rs_response (ct_request x) = Some v \<and>
     m_is_failed (rs_controller (ct_request x)) = m_is_failed (rs_controller s) \<and>
     Finished (rs_controller (ct_request x)) \<and> closure_runs (ct_request x) = 1"
proof -
  obtain c1 where s: "s = start_request cancel i req c1"
    using Started_shape [OF assms(1)] by blast
  define k where "k = woken [] [] r fd EPOLLOUT"
  obtain x1 c0 where x1: "\<forall>ks. run_call env (ConnectErrno EINPROGRESS) (k # ks) s cl = client_loop env ks (queued (ConnCb CallConnect) x1)"
      "setState Connected c0 = opened TcpConnectionByClient fd" "calling x1 (connecting c0)" "ct_request x1 = s" "ct_arrivals x1 = []"
      "cl_fd_event (ct_client x1)" "m_connect_error_code (ct_client x1) = 0"
    using attempt_round [OF assms(1,4-7) attempt_ended_masks(1)] unfolding k_def by metis
  note q = requesting_sending [OF x1(2) assms(5,8)]
  obtain x2 where x2: "run_connect env r x1 = Inr x2" "calling x2 (requesting req c0)" "ct_request x2 = client_do [WriteMessage req] s"
      "ct_arrivals x2 = []"
    using run_connect_established [OF x1(3,6,7) assms(11), of env] x1(4,5) by (auto simp: requesting_def assms(3))
  have "client_dispatch (WaitEvents [(Some (nat fd), EPOLLOUT)]) x2 = queued (ConnCb CallOnWrite) x2"
    using wakes(1) [OF x2(2) q(6), of EPOLLOUT] q(2) by simp
  then have run2: "client_loop env (k # ks) (queued (ConnCb CallConnect) x1) = client_loop env ks (queued (ConnCb CallOnWrite) x2)" for ks
    using connect_round [OF x1(3,5) x2(1), of fd EPOLLOUT ks] by (simp add: k_def)
  obtain j x3 c3 where x3: "j < length (packet (with_msg_id req))"
      "\<forall>ks. client_loop env (replicate j (woken [] [WriteAccepts n] r fd EPOLLOUT) @ woken [] [WriteAccepts n] r fd EPOLLIN # ks)
         (queued (ConnCb CallOnWrite) x2) = client_loop env ks (queued (ConnCb CallOnRead) x3)"
      "calling x3 c3" "receiving (m_msg_id req) c3" "sent c3 = packet (with_msg_id req)"
      "m_in_buffer c3 = m_in_buffer (opened TcpConnectionByClient fd :: call_cb tcp_connection)" "tc_fd c3 = fd" "ct_arrivals x3 = []"
      "ct_request x3 = client_do [ReadMessage (m_msg_id req)] (ct_request x2)"
    using writes_run [OF x2(2) q(1) assms(10) q(3) refl refl, where env = env and rt = r] q x2(4) assms(3) by auto
  define rsp' where "rsp' = stamped (with_msg_id rsp)"
  have rsp': "m_msg_id rsp' = m_msg_id req" "m_pb_data rsp' = m_pb_data rsp" "m_err_code rsp' = 0"
    using assms(9,13,15) by (simp_all add: rsp'_def stamped_def with_msg_id_def)
  have dec: "decode_bytes (concat pieces) = ([rsp'], [])"
    using decode_packet [OF assms(12), of "[]"] by (simp add: assms(16) rsp'_def wire.dec_empty)
  have o: "in_buffer_ok (m_in_buffer c3) (length (concat pieces))" "contents (m_in_buffer c3) = []"
    using opened_room(2,4) [OF packet_size [OF assms(12)] assms(5)] unfolding x3(6) assms(16) by blast+
  obtain x c' where x: "client_loop env (map (\<lambda>bs. woken [ReadData bs] [] r fd EPOLLIN) pieces) (queued (ConnCb CallOnRead) x3) = Some (Inr x)"
      "ct_request x = on_response (ce_parse env) (TinyPB rsp') (ct_request x3)" "m_stop_flag (ct_loop x)" "\<not> m_is_looping (ct_loop x)"
      "cl_connection (ct_client x) = Some c'" "is_closed c'" "sent c' = sent c3"
    using reads_run [OF x3(3), where rsp = rsp' and pieces = pieces and undecoded = "[]" and env = env and rt = r and ks = "[]"] x3(4,7,8) rsp'(1) o dec assms(17) by (auto simp: wire.dec_empty)
  note st = callingD(7,8) [OF x3(3)]
  have cl: "closure_runs (ct_request x3) = 0" "rs_closure (ct_request x3)" "m_is_failed (rs_controller (ct_request x3)) = m_is_failed (rs_controller s)"
    using assms(2) by (auto simp: x3(9) x2(3) client_do_def s start_request_def Let_def split_beta)
  have "rs_response (ct_request x) = Some v" "m_is_failed (rs_controller (ct_request x)) = m_is_failed (rs_controller s)"
    using on_response_success [OF st(2,1), of "ce_parse env" rsp' v] rsp' assms(14) cl(3) by (simp_all add: x(2))
  moreover have "Finished (rs_controller (ct_request x))" "closure_runs (ct_request x) = 1"
    using on_response_first [OF st(1,2), of "ce_parse env" "TinyPB rsp'"] cl(1,2) by (auto simp: x(2) Finished_def)
  moreover have "run_call env (ConnectErrno EINPROGRESS) ([k, k] @ replicate j (woken [] [WriteAccepts n] r fd EPOLLOUT) @
      [woken [] [WriteAccepts n] r fd EPOLLIN] @ map (\<lambda>bs. woken [ReadData bs] [] r fd EPOLLIN) pieces) s cl = Some (Inr x)"
    using x1(1) run2 x3(2) x(1) by simp
  ultimately show ?thesis
    using x3(1,5) x(3-7) unfolding k_def by (intro exI [of _ j] exI [of _ x] exI [of _ c']) simp
qed

text \<open>
  C4. A call that enters the loop of its thread leaves it completed: when an attempt to connect is in
  progress and the thread is not in its loop already, then whatever the kernel does from there on
  (connecting or failing to, taking and delivering any bytes, ending the stream, waking the loop for
  any events in any order, the deadline passing), if the loop returns then the call is completed, its
  closure has been run exactly once, the controller is finished, the connection is closed, and the
  loop is stopped and not running.
\<close>

theorem loop_returns_completed:
  assumes "CallMethod cancel inet stubs i c = Inr (Started s req)" and "ci_has_closure i \<or> ci_has_done i"
    and "newTcpClient fd ev l = Inr cl" and "0 \<le> fd" and "\<not> m_is_looping l"
    and "run_call env (ConnectErrno EINPROGRESS) ks s cl = Some (Inr x)"
  shows "completed (ct_request x) \<and> closure_runs (ct_request x) = 1 \<and> Finished (rs_controller (ct_request x)) \<and>
     (\<exists>c'. cl_connection (ct_client x) = Some c' \<and> is_closed c') \<and> m_stop_flag (ct_loop x) \<and> \<not> m_is_looping (ct_loop x)"
proof -
  obtain c1 where s: "s = start_request cancel i req c1"
    using Started_shape [OF assms(1)] by blast
  note cl = newTcpClient_idle [OF assms(3,4)]
  obtain c0 where c0: "cl_connection cl = Some c0" using cl(1) by blast
  obtain x0 where x0: "start_call env (ConnectErrno EINPROGRESS) s cl = Inr x0"
    using assms(6) by (auto simp: run_call_def split: sum.splits)
  note ok = start_call_ok [OF s assms(2) c0 cl(2) x0]
  have "call_ok (on_loop (\<lambda>l. l\<lparr>m_is_looping := True\<rparr>) x0)"
    using ok(1) by (auto intro: on_loop_ok)
  moreover have "client_loop env ks (on_loop (\<lambda>l. l\<lparr>m_is_looping := True\<rparr>) x0) = Some (Inr x)"
    using assms(5,6) x0 ok(2) cl(4) by (simp add: run_call_def)
  ultimately have x: "call_ok x" "m_stop_flag (ct_loop x)" "\<not> m_is_looping (ct_loop x)"
    using client_loop_ok by blast+
  then have "completed (ct_request x)" by (simp add: call_ok_def)
  with x show ?thesis by (auto simp: call_ok_def request_ok_def Finished_def)
qed

text \<open>
  C31. A call whose connection fails is reported: when the attempt to connect is in progress and ends with
  an error, however the kernel signals the end (the socket is writable, or an error or a hang-up is
  reported, or both), the loop ends after two iterations without a fault; the call is completed with
  the error for a refused connection or for another failure and its text, the closure has been run
  exactly once, and the connection is closed.
\<close>

theorem failed_connect_is_reported:
  assumes "CallMethod cancel inet stubs i ctrl = Inr (Started s req)" and "ci_has_closure i \<or> ci_has_done i"
    and "newTcpClient fd (newFd_Event fd) l = Inr cl" and "0 \<le> fd" and "\<not> m_is_looping l" and "m_pending_tasks l = []"
    and "ce_req env = req" and "e \<noteq> EISCONN" and "attempt_ended events"
    and "k = woken [] [] (ConnectErrno e) fd events" and "k' = woken [] [] (ConnectErrno e) fd events'"
  shows "\<exists>x c'. run_call env (ConnectErrno EINPROGRESS) [k, k'] s cl = Some (Inr x) \<and> m_stop_flag (ct_loop x) \<and> \<not> m_is_looping (ct_loop x) \<and>
     cl_connection (ct_client x) = Some c' \<and> is_closed c' \<and> Finished (rs_controller (ct_request x)) \<and> Failed (rs_controller (ct_request x)) \<and>
     GetErrorCode (rs_controller (ct_request x)) = (if e = ECONNREFUSED then ERROR_PEER_CLOSED else ERROR_FAILED_CONNECT) \<and>
     ErrorText (rs_controller (ct_request x)) = connect_error_text (ce_strerror env) e \<and> closure_runs (ct_request x) = 1"
proof -
  obtain c1 where s: "s = start_request cancel i req c1"
    using Started_shape [OF assms(1)] by blast
  have open_s: "\<not> completed s" "state_alive s" "closure_runs s = 0" "rs_closure s"
    using assms(2) by (simp_all add: s start_request_def Let_def split_beta)
  have code: "connect_error e \<noteq> 0" by (simp add: connect_error_def)
  obtain s1 where "on_connected (connect_error e) (connect_error_text (ce_strerror env) e) req s =
      finish (connect_error e) (connect_error_text (ce_strerror env) e) s1" "closure_runs s1 = 0" "rs_closure s1"
    using complete_with_first [OF open_s(1,2)] open_s code by (fastforce simp: on_connected_def)
  moreover note run = refused_run [OF assms(1,3-11)]
  ultimately show ?thesis
    using code finish_view [of "connect_error e"] by (fastforce simp: connect_error_def)
qed

section \<open>Examples\<close>

definition example_env :: "string call_env" where
  "example_env = \<lparr>ce_clock = (\<lambda>i. int i), ce_strerror = (\<lambda>_. ''refused''), ce_ntoa = (\<lambda>_. ''127.0.0.1''), ce_name = None, ce_timer = 0,
     ce_parse = Pair True, ce_req = newTinyPB\<lparr>m_msg_id := ''42'', m_method_name := ''Echo.say'', m_pb_data := ''hi''\<rparr>\<rparr>"

definition caller_loop :: "client_cb eventloop" where
  "caller_loop = \<lparr>m_stop_flag = False, m_is_looping = False, m_listen_fds = {}, m_pending_tasks = [],
     m_timer = newTimer (\<lambda>_. newTimerEvent 0 0 False None), fd_events = (\<lambda>p. newFd_Event (int p)), epoll_calls = [], wakeup_writes = 0\<rparr>"

lemma example_facts:
  "\<not> m_is_looping caller_loop" "m_pending_tasks caller_loop = []" "ci_has_closure echo_call \<or> ci_has_done echo_call"
  "encodable (ce_req example_env)" "m_msg_id (ce_req example_env) \<noteq> []"
  by (simp_all add: caller_loop_def echo_call_def sample_call_def example_env_def encodable_def with_msg_id_def payload_length_def newTinyPB_def
      MIN_PACKAGE_SIZE_def MAX_PACKAGE_SIZE_def)

lemma example_call:
  "\<exists>(s :: (unit, string) request_state) (cl :: (call_cb, client_cb) tcp_client).
     CallMethod () (\<lambda>_. 1) [] echo_call newRpcController = Inr (Started s (ce_req example_env)) \<and>
     newTcpClient 7 (newFd_Event 7) caller_loop = Inr cl"
  using echo_call_starts newTcpClient_defined [of 7 caller_loop] by (auto simp: example_env_def)

theorem call_answered_in_loop_witness:
  "\<exists>(s :: (unit, string) request_state) cl ks x. newTcpClient 7 (newFd_Event 7) caller_loop = Inr cl \<and>
     CallMethod () (\<lambda>_. 1) [] echo_call newRpcController = Inr (Started s (ce_req example_env)) \<and>
     run_call example_env (ConnectErrno EINPROGRESS) ks s cl = Some (Inr x) \<and> rs_response (ct_request x) = Some ''hi'' \<and>
     closure_runs (ct_request x) = 1"
proof -
  obtain s :: "(unit, string) request_state" and cl :: "(call_cb, client_cb) tcp_client" where
    c: "CallMethod () (\<lambda>_. 1) [] echo_call newRpcController = Inr (Started s (ce_req example_env))" "newTcpClient 7 (newFd_Event 7) caller_loop = Inr cl"
    using example_call by blast
  have p: "ce_parse example_env (m_pb_data (ce_req example_env)) = (True, ''hi'')" "m_err_code (ce_req example_env) = 0"
    by (simp_all add: example_env_def newTinyPB_def)
  have b: "concat (map (\<lambda>b. [b]) (packet (with_msg_id (ce_req example_env)))) = packet (with_msg_id (ce_req example_env))"
    "[] \<notin> set (map (\<lambda>b. [b]) (packet (with_msg_id (ce_req example_env))))" by (auto simp: concat_map_singleton)
  from call_answered_in_loop [OF c(1) example_facts(3) refl c(2) _ example_facts(1,2,4,5) _ _ example_facts(4) refl p b,
      of 3 "ConnectErrno EISCONN"] c show ?thesis by auto
qed

theorem failed_connect_is_reported_witness:
  "\<exists>(s :: (unit, string) request_state) cl. newTcpClient 7 (newFd_Event 7) caller_loop = Inr cl \<and>
     CallMethod () (\<lambda>_. 1) [] echo_call newRpcController = Inr (Started s (ce_req example_env)) \<and>
     (\<forall>events \<in> {EPOLLOUT, EPOLLERR OR EPOLLHUP, EPOLLOUT OR EPOLLERR OR EPOLLHUP}. \<exists>ks x.
        run_call example_env (ConnectErrno EINPROGRESS) (woken [] [] (ConnectErrno ECONNREFUSED) 7 events # ks) s cl = Some (Inr x) \<and>
        GetErrorCode (rs_controller (ct_request x)) = ERROR_PEER_CLOSED \<and> closure_runs (ct_request x) = 1)"
proof -
  obtain s :: "(unit, string) request_state" and cl :: "(call_cb, client_cb) tcp_client" where
    c: "CallMethod () (\<lambda>_. 1) [] echo_call newRpcController = Inr (Started s (ce_req example_env))" "newTcpClient 7 (newFd_Event 7) caller_loop = Inr cl"
    using example_call by blast
  have "\<exists>ks x. run_call example_env (ConnectErrno EINPROGRESS) (woken [] [] (ConnectErrno ECONNREFUSED) 7 events # ks) s cl = Some (Inr x) \<and>
      GetErrorCode (rs_controller (ct_request x)) = ERROR_PEER_CLOSED \<and> closure_runs (ct_request x) = 1"
    if ended: "attempt_ended events" for events
  proof -
    have e: "ECONNREFUSED \<noteq> EISCONN" by (simp add: ECONNREFUSED_def EISCONN_def)
    obtain x where "run_call example_env (ConnectErrno EINPROGRESS) [woken [] [] (ConnectErrno ECONNREFUSED) 7 events,
          woken [] [] (ConnectErrno ECONNREFUSED) 7 0] s cl = Some (Inr x)"
        "GetErrorCode (rs_controller (ct_request x)) = ERROR_PEER_CLOSED" "closure_runs (ct_request x) = 1"
      using failed_connect_is_reported [OF c(1) example_facts(3) c(2) _ example_facts(1,2) refl e ended refl refl] by auto
    then show ?thesis by blast
  qed
  with attempt_ended_masks c show ?thesis by blast
qed

theorem loop_returns_completed_witness:
  "\<exists>(s :: (unit, string) request_state) cl ks x. newTcpClient 7 (newFd_Event 7) caller_loop = Inr cl \<and>
     CallMethod () (\<lambda>_. 1) [] echo_call newRpcController = Inr (Started s (ce_req example_env)) \<and>
     run_call example_env (ConnectErrno EINPROGRESS) ks s cl = Some (Inr x) \<and> completed (ct_request x) \<and> closure_runs (ct_request x) = 1"
proof -
  obtain s :: "(unit, string) request_state" and cl :: "(call_cb, client_cb) tcp_client" where
    c: "CallMethod () (\<lambda>_. 1) [] echo_call newRpcController = Inr (Started s (ce_req example_env))" "newTcpClient 7 (newFd_Event 7) caller_loop = Inr cl"
    using example_call by blast
  obtain x where x: "run_call example_env (ConnectErrno EINPROGRESS) [woken [] [] (ConnectErrno ECONNREFUSED) 7 EPOLLOUT, woken [] [] (ConnectErrno ECONNREFUSED) 7 EPOLLOUT] s cl = Some (Inr x)"
    using refused_run [OF c _ example_facts(1,2) refl _ attempt_ended_masks(1) refl refl, of ECONNREFUSED] by (auto simp: ECONNREFUSED_def EISCONN_def)
  from loop_returns_completed [OF c(1) example_facts(3) c(2) _ example_facts(1) x] c x show ?thesis by auto
qed

end
