(* ===== verification/CallDeadline.thy ===== *)
theory CallDeadline
  imports RpcChannel Timer
begin

text \<open>
  A call and the timer of its client's loop: \<open>CallMethod\<close> arms a timer event with the timeout of the
  controller (\<open>net/rpc/rpc_channel.cc\<close>), whose callback completes the call, and the completion of the
  call deletes the event (\<open>net/timer.cc\<close>). The loop may have other timer events.
\<close>

datatype timed_cb = Deadline | OtherTimer nat

record ('c, 'r) timed_call =
  dl_timer :: "timed_cb timer"
  dl_request :: "('c, 'r) request_state"

text \<open>Creating the timer event of the call, at the address \<open>te\<close>, and adding it to the timer.\<close>

definition arm_deadline :: "(nat \<Rightarrow> int) \<Rightarrow> nat \<Rightarrow> int \<Rightarrow> timed_cb timer \<Rightarrow> timed_cb timer" where
  "arm_deadline clock te timeout t =
     (let (now, t) = get_now_ms clock t
      in addTimerEvent clock te (t\<lparr>timer_events := (timer_events t)(te := newTimerEvent now timeout False (Some Deadline))\<rparr>))"

text \<open>What a call on the client does to the timer.\<close>

fun timer_call :: "(nat \<Rightarrow> int) \<Rightarrow> nat \<Rightarrow> client_call \<Rightarrow> timed_cb timer \<Rightarrow> timed_cb timer" where
  "timer_call clock te (AddTimerEvent timeout) t = arm_deadline clock te timeout t"
| "timer_call clock te DeleteTimerEvent t = deleteTimerEvent te t"
| "timer_call clock te _ t = t"

definition with_calls :: "(nat \<Rightarrow> int) \<Rightarrow> nat \<Rightarrow> ('c, 'r) request_state \<Rightarrow> ('c, 'r) timed_call \<Rightarrow> ('c, 'r) timed_call" where
  "with_calls clock te s' x =
     x\<lparr>dl_request := s',
       dl_timer := fold (timer_call clock te) (drop (length (client_calls (dl_request x))) (client_calls s')) (dl_timer x)\<rparr>"

text \<open>The timer descriptor is readable and \<open>onTimer\<close> has run: its callbacks.\<close>

definition expire ::
  "(nat \<Rightarrow> int) \<Rightarrow> nat \<Rightarrow> timed_cb timer \<Rightarrow> timed_cb list \<Rightarrow> ('c, 'r) timed_call \<Rightarrow> ('c, 'r) timed_call" where
  "expire clock te t' cbs x =
     (let x = x\<lparr>dl_timer := t'\<rparr> in
      if Deadline \<in> set cbs then with_calls clock te (on_timeout (dl_request x)) x else x)"

inductive timed_step ::
  "(nat \<Rightarrow> int) \<Rightarrow> nat \<Rightarrow> (string \<Rightarrow> bool \<times> 'r) \<Rightarrow> tinypb \<Rightarrow> ('c, 'r) timed_call \<Rightarrow> ('c, 'r) timed_call \<Rightarrow> bool"
  for clock :: "nat \<Rightarrow> int" and te :: nat and parse :: "string \<Rightarrow> bool \<times> 'r" and req :: tinypb where
  event: "e \<noteq> TimerFired \<Longrightarrow> e \<noteq> OwnerGone \<Longrightarrow>
    timed_step clock te parse req x (with_calls clock te (handle_event parse req e (dl_request x)) x)"
| expiry: "onTimer clock reads (dl_timer x) = Some (t', cbs) \<Longrightarrow> timed_step clock te parse req x (expire clock te t' cbs x)"
| other_add: "e \<noteq> te \<Longrightarrow> e \<notin> pending (dl_timer x) \<Longrightarrow> m_task ev \<noteq> Some Deadline \<Longrightarrow>
    timed_step clock te parse req x
      (x\<lparr>dl_timer := addTimerEvent clock e ((dl_timer x)\<lparr>timer_events := (timer_events (dl_timer x))(e := ev)\<rparr>)\<rparr>)"
| other_delete: "e \<noteq> te \<Longrightarrow> timed_step clock te parse req x (x\<lparr>dl_timer := deleteTimerEvent e (dl_timer x)\<rparr>)"

inductive timed_reach ::
  "(nat \<Rightarrow> int) \<Rightarrow> nat \<Rightarrow> (string \<Rightarrow> bool \<times> 'r) \<Rightarrow> tinypb \<Rightarrow> ('c, 'r) timed_call \<Rightarrow> ('c, 'r) timed_call \<Rightarrow> bool"
  for clock :: "nat \<Rightarrow> int" and te :: nat and parse :: "string \<Rightarrow> bool \<times> 'r" and req :: tinypb and x0 :: "('c, 'r) timed_call" where
  timed_start: "timed_reach clock te parse req x0 x0"
| timed_next: "timed_reach clock te parse req x0 x \<Longrightarrow> timed_step clock te parse req x y \<Longrightarrow> timed_reach clock te parse req x0 y"

section \<open>The invariant\<close>

definition timer_fine :: "nat \<Rightarrow> timed_cb timer \<Rightarrow> bool" where
  "timer_fine te t \<longleftrightarrow> timer_ok t \<and> armed t \<and> (\<forall>e. e \<noteq> te \<longrightarrow> m_task (timer_events t e) \<noteq> Some Deadline)"

definition deadline_set :: "nat \<Rightarrow> int \<Rightarrow> int \<Rightarrow> timed_cb timer \<Rightarrow> bool" where
  "deadline_set te now timeout t \<longleftrightarrow>
     te \<in> pending t \<and> timer_events t te = newTimerEvent now timeout False (Some Deadline)"

definition timed_ok :: "nat \<Rightarrow> int \<Rightarrow> int \<Rightarrow> ('c, 'r) timed_call \<Rightarrow> bool" where
  "timed_ok te now timeout x \<longleftrightarrow> timer_fine te (dl_timer x) \<and> request_ok 1 (dl_request x) \<and>
     (completed (dl_request x) \<or> state_alive (dl_request x) \<and> deadline_set te now timeout (dl_timer x))"

text \<open>Events other than the start never arm a timer, and only a completing one deletes the call's.\<close>

definition quiet_calls :: "('c, 'r) request_state \<Rightarrow> ('c, 'r) request_state \<Rightarrow> bool" where
  "quiet_calls s s' \<longleftrightarrow> (\<exists>new. client_calls s' = client_calls s @ new \<and> (\<forall>timeout. AddTimerEvent timeout \<notin> set new) \<and>
     (\<not> completed s' \<longrightarrow> DeleteTimerEvent \<notin> set new))"

lemma quiet_beginCompletion: "quiet_calls s (snd (beginCompletion s))"
  by (auto simp: quiet_calls_def beginCompletion_def client_do_def Let_def)

lemma quiet_finish: "quiet_calls s s1 \<Longrightarrow> completed s1 \<Longrightarrow> quiet_calls s (finish code info s1)"
  by (auto simp: quiet_calls_def finish_def client_do_def Let_def)

lemma beginCompletion_completed: "completed (snd (beginCompletion s))"
  by (simp add: beginCompletion_def client_do_def Let_def)

lemma quiet_refl [simp]: "quiet_calls s s"
  by (auto simp: quiet_calls_def)

lemma event_calls:
  assumes "e \<noteq> OwnerGone"
  shows "quiet_calls s (handle_event parse req e s)"
proof -
  have q: "quiet_calls s s1" "completed s1" if "beginCompletion s = (b, s1)" for b s1
    using quiet_beginCompletion [of s] beginCompletion_completed [of s] that by simp_all
  have r: "quiet_calls s (s1\<lparr>rs_response := m\<rparr>)" if "beginCompletion s = (b, s1)" for b s1 m
    using q [OF that] by (simp add: quiet_calls_def)
  have c: "quiet_calls s (complete_with code info s)" for code info
    by (auto simp: complete_with_def intro!: quiet_finish dest: q split: prod.splits bool.splits)
  have a: "quiet_calls s (client_do [WriteMessage m] s)" "quiet_calls s (client_do [ReadMessage i] s)" for m i
    by (auto simp: quiet_calls_def client_do_def)
  have o: "quiet_calls s (on_response parse m s)" for m
    by (auto simp: on_response_def Let_def intro!: quiet_finish r dest: q split: prod.splits bool.splits protocol.splits)
  show ?thesis
    using assms c a o by (cases e) (simp_all add: callback_defs)
qed

section \<open>Preservation\<close>

lemma timer_fine_delete: "timer_fine te t \<Longrightarrow> timer_fine te (deleteTimerEvent e t)"
  by (auto simp: timer_fine_def timer_ok_delete deleteTimerEvent_armed deleteTimerEvent_events)

lemma timer_calls_fine:
  assumes "timer_fine te t" and "\<forall>timeout. AddTimerEvent timeout \<notin> set calls"
  shows "timer_fine te (fold (timer_call clock te) calls t)"
  using assms
proof (induction calls arbitrary: t)
  case (Cons c calls)
  have "timer_fine te (timer_call clock te c t)"
    using Cons.prems by (cases c) (auto intro: timer_fine_delete)
  with Cons show ?case by simp
qed simp

lemma timer_calls_none:
  assumes "\<forall>timeout. AddTimerEvent timeout \<notin> set calls" and "DeleteTimerEvent \<notin> set calls"
  shows "fold (timer_call clock te) calls t = t"
  using assms
proof (induction calls)
  case (Cons c calls)
  then show ?case by (cases c) auto
qed simp

lemma with_calls_ok:
  assumes "timer_fine te (dl_timer x)" and "quiet_calls (dl_request x) s'" and "request_ok 1 s'"
    and "completed s' \<or> state_alive s' \<and> deadline_set te now timeout (dl_timer x)"
  shows "timed_ok te now timeout (with_calls clock te s' x)"
proof -
  obtain new where new: "client_calls s' = client_calls (dl_request x) @ new" "\<forall>timeout. AddTimerEvent timeout \<notin> set new"
      "\<not> completed s' \<longrightarrow> DeleteTimerEvent \<notin> set new"
    using assms(2) by (auto simp: quiet_calls_def)
  then show ?thesis
    using assms(1,3,4) timer_calls_fine [OF assms(1) new(2), of clock] timer_calls_none [OF new(2), of clock te "dl_timer x"]
    by (auto simp: timed_ok_def with_calls_def)
qed

text \<open>An expiry keeps a deadline that has not been reached and runs one that has.\<close>

lemma onTimer_deadline:
  assumes "timer_fine te t" and "onTimer clock reads t = Some (t', cbs)"
  shows "timer_fine te t'"
    and "deadline_set te now timeout t \<Longrightarrow> deadline_set te now timeout t' \<or> Deadline \<in> set cbs"
    and "deadline_set te now timeout t \<Longrightarrow> now + timeout \<le> clock (clock_readings t) \<Longrightarrow> Deadline \<in> set cbs"
proof -
  have ok: "timer_ok t" using assms(1) by (simp add: timer_fine_def)
  note o = onTimer_ok [OF ok assms(2)]
  have task: "m_task (timer_events t' e) = m_task (timer_events t e)" for e
    using o(3) [of e] by (auto simp: rescheduled_def split: if_splits)
  show "timer_fine te t'"
    using assms(1) o(1) onTimer_armed [OF ok assms(2)] task by (simp add: timer_fine_def)
  have due: "Deadline \<in> set cbs" if "deadline_set te now timeout t" "now + timeout \<le> clock (clock_readings t)"
  proof -
    have "fired t (clock (clock_readings t)) te" "m_task (timer_events t te) = Some Deadline"
      using that by (simp_all add: deadline_set_def fired_def newTimerEvent_def)
    moreover from this obtain k where "(k, te) \<in> set (m_pending_events t)"
      by (auto simp: fired_def)
    ultimately show ?thesis
      unfolding o(4) by force
  qed
  show "deadline_set te now timeout t \<Longrightarrow> now + timeout \<le> clock (clock_readings t) \<Longrightarrow> Deadline \<in> set cbs"
    by (rule due)
  show "deadline_set te now timeout t' \<or> Deadline \<in> set cbs" if d: "deadline_set te now timeout t"
  proof (cases "now + timeout \<le> clock (clock_readings t)")
    case False
    have ev: "timer_events t te = newTimerEvent now timeout False (Some Deadline)" "te \<in> pending t"
      using d by (simp_all add: deadline_set_def)
    have "te \<in> pending t'" using ev False by (simp add: o(2) newTimerEvent_def)
    moreover have "timer_events t' te = timer_events t te"
      using o(3) [of te] by (simp add: ev newTimerEvent_def)
    ultimately show ?thesis using ev by (simp add: deadline_set_def)
  qed (use due d in blast)
qed

lemma timed_step_ok:
  assumes "timed_step clock te parse req x y" and "timed_ok te now timeout x"
  shows "timed_ok te now timeout y"
  using assms
proof (induction rule: timed_step.induct)
  case (event e x)
  define s' where "s' = handle_event parse req e (dl_request x)"
  have x: "timer_fine te (dl_timer x)" "request_ok 1 (dl_request x)"
    "completed (dl_request x) \<or> state_alive (dl_request x) \<and> deadline_set te now timeout (dl_timer x)"
    using event.prems by (auto simp: timed_ok_def)
  have "completed s' \<or> state_alive s' \<and> deadline_set te now timeout (dl_timer x)"
    using x(3) alive_event [of "dl_request x" e parse req] event.hyps(2) completed_event [of "dl_request x" parse req e]
    by (auto simp: s'_def)
  with x request_ok_event [OF x(2)] event_calls [OF event.hyps(2)] show ?case
    by (auto simp: s'_def intro!: with_calls_ok)
next
  case (expiry reads x t' cbs)
  have x: "timer_fine te (dl_timer x)" "request_ok 1 (dl_request x)"
    "completed (dl_request x) \<or> state_alive (dl_request x) \<and> deadline_set te now timeout (dl_timer x)"
    using expiry.prems by (auto simp: timed_ok_def)
  note o = onTimer_deadline [OF x(1) expiry.hyps]
  show ?case
  proof (cases "Deadline \<in> set cbs")
    case True
    have "completed (on_timeout (dl_request x))"
      using completing_event [of "dl_request x" TimerFired parse req] x(3) by auto
    moreover have "request_ok 1 (on_timeout (dl_request x))"
      using request_ok_event [OF x(2), of parse req TimerFired] by simp
    moreover have "quiet_calls (dl_request x) (on_timeout (dl_request x))"
      using event_calls [of TimerFired "dl_request x" parse req] by simp
    ultimately show ?thesis
      using True o(1) by (auto simp: expire_def intro!: with_calls_ok)
  next
    case False
    then show ?thesis using x o by (auto simp: expire_def timed_ok_def)
  qed
next
  case (other_add e x ev)
  define t where "t = (dl_timer x)\<lparr>timer_events := (timer_events (dl_timer x))(e := ev)\<rparr>"
  have fine: "timer_fine te (dl_timer x)" using other_add.prems by (simp add: timed_ok_def)
  have "f \<in> pending (dl_timer x) \<Longrightarrow> timer_events t f = timer_events (dl_timer x) f" for f
    using other_add.hyps(2) by (auto simp: t_def)
  moreover have "timer_ok (dl_timer x)" "armed (dl_timer x)"
    using fine by (simp_all add: timer_fine_def)
  ultimately have t: "timer_ok t" "armed t"
    by (force simp: timer_ok_def t_def armed_def)+
  have e: "e \<notin> pending t" using other_add.hyps(2) by (simp add: t_def)
  have "timer_fine te (addTimerEvent clock e t)"
    using timer_ok_add(1) [OF t(1) e] addTimerEvent_armed [OF t(1) e t(2)] fine other_add.hyps(3)
    by (simp add: timer_fine_def t_def)
  moreover have "deadline_set te now timeout (dl_timer x) \<Longrightarrow> deadline_set te now timeout (addTimerEvent clock e t)"
    using other_add.hyps(1) by (auto simp: deadline_set_def t_def set_multimap_emplace)
  ultimately show ?case
    using other_add.prems by (auto simp: timed_ok_def t_def)
next
  case (other_delete e x)
  have fine: "timer_fine te (dl_timer x)" "timer_ok (dl_timer x)"
    using other_delete.prems by (simp_all add: timed_ok_def timer_fine_def)
  have "deadline_set te now timeout (dl_timer x) \<Longrightarrow> deadline_set te now timeout (deleteTimerEvent e (dl_timer x))"
    using other_delete.hyps timer_ok_delete(2) [OF fine(2), of e] by (simp add: deadline_set_def deleteTimerEvent_events)
  with timer_fine_delete [OF fine(1)] other_delete.prems show ?case
    by (auto simp: timed_ok_def)
qed

lemma timed_reach_ok:
  "timed_reach clock te parse req x0 x \<Longrightarrow> timed_ok te now timeout x0 \<Longrightarrow> timed_ok te now timeout x"
  by (induction rule: timed_reach.induct) (auto intro: timed_step_ok)

text \<open>A call that has just been started.\<close>

definition timed_init :: "(nat \<Rightarrow> int) \<Rightarrow> nat \<Rightarrow> timed_cb timer \<Rightarrow> ('c, 'r) request_state \<Rightarrow> ('c, 'r) timed_call" where
  "timed_init clock te t s = \<lparr>dl_timer = fold (timer_call clock te) (client_calls s) t, dl_request = s\<rparr>"

lemma timed_init_ok:
  assumes "CallMethod cancel inet stubs i c = Inr (Started s req)" and "ci_has_closure i \<or> ci_has_done i"
    and "timer_fine te t" and "te \<notin> pending t"
  shows "timed_ok te (clock (clock_readings t)) (m_timeout (rs_controller s)) (timed_init clock te t s)"
proof -
  obtain c' where s: "s = start_request cancel i req c'"
    using Started_shape [OF assms(1)] by blast
  define t1 where "t1 = t\<lparr>clock_readings := Suc (clock_readings t), timer_events := (timer_events t)(te :=
      newTimerEvent (clock (clock_readings t)) (m_timeout (rs_controller s)) False (Some Deadline))\<rparr>"
  have calls: "client_calls s = [AddTimerEvent (m_timeout (rs_controller s)), SetDisconnectCallback True, Connect]"
    by (simp add: s start_request_def Let_def split_beta)
  have same: "f \<in> pending t \<Longrightarrow> timer_events t1 f = timer_events t f" for f
    using assms(4) by (auto simp: t1_def)
  have "timer_ok t" "armed t" using assms(3) by (simp_all add: timer_fine_def)
  with same have t1: "timer_ok t1" "armed t1"
    by (force simp: timer_ok_def t1_def armed_def)+
  have e: "te \<notin> pending t1" using assms(4) by (simp add: t1_def)
  have "timer_fine te (addTimerEvent clock te t1)"
    using timer_ok_add(1) [OF t1(1) e] addTimerEvent_armed [OF t1(1) e t1(2)] assms(3)
    by (simp add: timer_fine_def t1_def)
  moreover have "deadline_set te (clock (clock_readings t)) (m_timeout (rs_controller s)) (addTimerEvent clock te t1)"
    by (simp add: deadline_set_def t1_def set_multimap_emplace)
  moreover have "request_ok 1 s" "state_alive s"
    using request_ok_start [of i cancel req c'] assms(2) by (simp_all add: s start_request_def Let_def split_beta)
  ultimately show ?thesis
    by (simp add: timed_ok_def timed_init_def calls arm_deadline_def t1_def get_now_ms_def)
qed

section \<open>Properties\<close>

text \<open>
  C7. No call waits for ever: from the start of a call, whatever the connection, the response, a
  cancellation and other timers do and in whatever order (the owner of the call staying), the call is completed or the timer
  descriptor of its loop is armed for its deadline; and if the descriptor is handled when the
  deadline has come and the call is still not completed, the call is completed with the timeout
  error and its closure has been run exactly once.
\<close>

theorem unanswered_call_times_out:
  assumes "CallMethod cancel inet stubs i c = Inr (Started s req)" and "ci_has_closure i \<or> ci_has_done i"
    and "timer_fine te t" and "te \<notin> pending t" and "deadline = clock (clock_readings t) + m_timeout (rs_controller s)"
    and "timed_reach clock te parse req (timed_init clock te t s) x"
  shows "(completed (dl_request x) \<or> covers (m_timerfd (dl_timer x)) deadline) \<and>
     (\<not> completed (dl_request x) \<and> deadline \<le> clock (clock_readings (dl_timer x)) \<and>
      onTimer clock reads (dl_timer x) = Some (t', cbs) \<longrightarrow>
        completed (dl_request (expire clock te t' cbs x)) \<and> closure_runs (dl_request (expire clock te t' cbs x)) = 1 \<and>
        Finished (rs_controller (dl_request (expire clock te t' cbs x))) \<and>
        GetErrorCode (rs_controller (dl_request (expire clock te t' cbs x))) = ERROR_RPC_CALL_TIMEOUT)"
proof -
  define now where "now = clock (clock_readings t)"
  define timeout where "timeout = m_timeout (rs_controller s)"
  have x: "timed_ok te now timeout x"
    using timed_reach_ok [OF assms(6)] timed_init_ok [OF assms(1-4), of clock] by (simp add: now_def timeout_def)
  have dl: "deadline = now + timeout" by (simp add: assms(5) now_def timeout_def)
  have fine: "timer_fine te (dl_timer x)" using x by (simp add: timed_ok_def)
  have "covers (m_timerfd (dl_timer x)) deadline" if "\<not> completed (dl_request x)"
  proof -
    have "te \<in> pending (dl_timer x)" "m_arrive_time (timer_events (dl_timer x) te) = deadline"
      using x that by (auto simp: timed_ok_def deadline_set_def newTimerEvent_def dl)
    then show ?thesis using fine by (auto simp: timer_fine_def armed_def)
  qed
  moreover have "completed (dl_request (expire clock te t' cbs x)) \<and> closure_runs (dl_request (expire clock te t' cbs x)) = 1 \<and>
      Finished (rs_controller (dl_request (expire clock te t' cbs x))) \<and>
      GetErrorCode (rs_controller (dl_request (expire clock te t' cbs x))) = ERROR_RPC_CALL_TIMEOUT"
    if d: "\<not> completed (dl_request x)" "deadline \<le> clock (clock_readings (dl_timer x))" "onTimer clock reads (dl_timer x) = Some (t', cbs)"
  proof -
    have live: "state_alive (dl_request x)" and set: "deadline_set te now timeout (dl_timer x)"
      using x d(1) by (auto simp: timed_ok_def)
    have "Deadline \<in> set cbs"
      using onTimer_deadline(3) [OF fine d(3) set] d(2) by (simp add: dl)
    then have r: "dl_request (expire clock te t' cbs x) = on_timeout (dl_request x)"
      by (simp add: expire_def with_calls_def)
    have "request_ok 1 (on_timeout (dl_request x))"
      using request_ok_event [of 1 "dl_request x" parse req TimerFired] x by (simp add: timed_ok_def)
    moreover have "completed (on_timeout (dl_request x))"
      using completing_event [of "dl_request x" TimerFired parse req] live by simp
    moreover obtain s1 where "on_timeout (dl_request x) = finish ERROR_RPC_CALL_TIMEOUT ''rpc call timeout'' s1"
      using complete_with_first [OF d(1) live] by (auto simp: on_timeout_def)
    ultimately show ?thesis
      unfolding r by (auto simp: request_ok_def finish_view ERROR_RPC_CALL_TIMEOUT_def)
  qed
  ultimately show ?thesis by blast
qed

text \<open>An unanswered call with a timeout of one second, on a clock that advances two seconds at every reading.\<close>

lemma sample_call_timeout:
  assumes "CallMethod () (\<lambda>_. 1) [] sample_call newRpcController = Inr (Started s req)"
  shows "m_timeout (rs_controller s) = 1000" and "\<not> completed s"
  using assms sample_addr_valid
  by (auto simp: CallMethod_def sample_call_def newRpcController_def serviceDiscovery_def FindAddr_def issue_request_def
      choose_msg_id_def c_str_to_string_def start_request_def SetMsgId_def SetCancelCallback_def Let_def)

theorem unanswered_call_times_out_witness:
  "\<exists>(s :: (unit, nat) request_state) req t' cbs. CallMethod () (\<lambda>_. 1) [] sample_call newRpcController = Inr (Started s req) \<and>
     (let clock = (\<lambda>i. 2000 * int i); t = newTimer (\<lambda>_. newTimerEvent 0 0 False None); x = timed_init clock 0 t s
      in onTimer clock [ReadBytes 8, ReadError EAGAIN] (dl_timer x) = Some (t', cbs) \<and>
         closure_runs (dl_request (expire clock 0 t' cbs x)) = 1 \<and>
         GetErrorCode (rs_controller (dl_request (expire clock 0 t' cbs x))) = ERROR_RPC_CALL_TIMEOUT)"
proof -
  obtain s :: "(unit, nat) request_state" and req where
    c: "CallMethod () (\<lambda>_. 1) [] sample_call newRpcController = Inr (Started s req)"
    using sample_call_starts by blast
  define clock where "clock = (\<lambda>i. 2000 * int i)"
  define t :: "timed_cb timer" where "t = newTimer (\<lambda>_. newTimerEvent 0 0 False None)"
  define x where "x = timed_init clock 0 t s"
  have h: "ci_has_closure sample_call \<or> ci_has_done sample_call"
    by (simp add: sample_call_def)
  have t: "timer_fine 0 t" "0 \<notin> pending t"
    by (simp_all add: t_def newTimer_def timer_fine_def timer_ok_def multimap_ok_def armed_def newTimerEvent_def)
  note out = unanswered_call_times_out [OF c h t refl timed_start, where clock = clock, folded x_def]
  obtain t' cbs where o: "onTimer clock [ReadBytes 8, ReadError EAGAIN] (dl_timer x) = Some (t', cbs)"
    by (simp add: onTimer_def Let_def split_beta)
  obtain c' where "s = start_request () sample_call req c'"
    using Started_shape [OF c] by blast
  then have calls: "client_calls s = [AddTimerEvent 1000, SetDisconnectCallback True, Connect]"
    using sample_call_timeout(1) [OF c] by (simp add: start_request_def Let_def split_beta)
  have late: "clock (clock_readings t) + m_timeout (rs_controller s) \<le> clock (clock_readings (dl_timer x))"
    by (simp add: sample_call_timeout(1) [OF c] x_def timed_init_def calls t_def newTimer_def clock_def arm_deadline_def get_now_ms_def
        addTimerEvent_def resetArriveTime_def Let_def)
  have "\<not> completed (dl_request x)"
    using sample_call_timeout(2) [OF c] by (simp add: x_def timed_init_def)
  with out late o c show ?thesis
    by (auto simp: Let_def clock_def t_def x_def)
qed

end
