(* ===== verification/WakeUp.thy ===== *)
theory WakeUp
  imports EventLoop
begin

text \<open>
  Waking a loop from other threads (\<open>net/wakeup_fd_event.cc\<close>, with \<open>addTask\<close>, \<open>stop\<close> and \<open>loop\<close> of
  \<open>net/eventloop.cc\<close>). The wakeup descriptor is an \<open>eventfd\<close>: a counter that a write of eight bytes
  increases and a read resets. A call from another thread is two steps, the change under the mutex
  and the write behind it; the loop's thread takes a batch, runs its tasks one by one and waits. All
  these steps interleave. \<open>epoll_wait\<close> returns when a registered descriptor is ready: for the wakeup
  descriptor that is when it is registered for reading and its counter is not zero. Otherwise it returns
  on another event, after \<open>g_epoll_max_timeout\<close> or when a signal interrupts it.
\<close>

section \<open>The descriptor\<close>

text \<open>The eight bytes that \<open>WakeUpFdEvent::wakeup\<close> writes are the number 97 on a little-endian machine.\<close>

definition wakeup_value :: nat where
  "wakeup_value = 97"

text \<open>A non-blocking write that would exceed the largest counter value fails and changes nothing.\<close>

definition eventfd_write :: "nat \<Rightarrow> nat" where
  "eventfd_write fd = (if fd + wakeup_value \<le> 2 ^ 64 - 2 then fd + wakeup_value else fd)"

text \<open>
  The reader: \<open>while (read(m_wakeup_fd, buf, 8) != -1 && errno != EAGAIN)\<close>. A read of a counter that is
  not zero resets it and leaves \<open>errno\<close> alone; a read of zero fails.
\<close>

function drain_wakeup :: "int \<Rightarrow> nat \<Rightarrow> nat" where
  "drain_wakeup errno fd =
     (if fd = 0 then fd
      else if errno = EAGAIN then 0
      else drain_wakeup errno 0)"
  by auto
termination
  by (relation "measure snd") auto

declare drain_wakeup.simps [simp del]

lemma drain_wakeup_zero [simp]: "drain_wakeup errno fd = 0"
  by (simp add: drain_wakeup.simps [of errno fd] drain_wakeup.simps [of errno 0])

lemma eventfd_write_pos: "0 < eventfd_write fd"
  by (simp add: eventfd_write_def wakeup_value_def)

section \<open>Steps\<close>

datatype 'c loop_phase = AtTop | InBatch "'c closure option list" | Draining "'c closure option list" | InWait

record 'c wake_state =
  wk_loop :: "'c eventloop"
  wk_fd :: nat
  wk_phase :: "'c loop_phase"
  wk_writers :: nat

text \<open>The first halves of \<open>addTask(cb, true)\<close> and \<open>stop\<close>; the second half of both is \<open>post\<close>.\<close>

definition push :: "'c closure option \<Rightarrow> 'c wake_state \<Rightarrow> 'c wake_state" where
  "push cb x =
     (let l = wk_loop x in
      if m_stop_flag l then x
      else x\<lparr>wk_loop := l\<lparr>m_pending_tasks := m_pending_tasks l @ [cb]\<rparr>, wk_writers := Suc (wk_writers x)\<rparr>)"

definition halt :: "'c wake_state \<Rightarrow> 'c wake_state" where
  "halt x =
     (let l = wk_loop x in
      if m_stop_flag l then x
      else x\<lparr>wk_loop := l\<lparr>m_stop_flag := True\<rparr>, wk_writers := Suc (wk_writers x)\<rparr>)"

definition post :: "'c wake_state \<Rightarrow> 'c wake_state" where
  "post x = x\<lparr>wk_loop := wakeup (wk_loop x), wk_fd := eventfd_write (wk_fd x), wk_writers := wk_writers x - 1\<rparr>"

text \<open>The two halves make up the operations of the theory \<open>EventLoop\<close>.\<close>

lemma push_post: "\<not> m_stop_flag (wk_loop x) \<Longrightarrow> wk_loop (post (push cb x)) = addTask cb True (wk_loop x)"
  by (simp add: post_def push_def addTask_def Let_def)

lemma halt_post: "\<not> m_stop_flag (wk_loop x) \<Longrightarrow> wk_loop (post (halt x)) = stop (wk_loop x)"
  by (simp add: post_def halt_def stop_def Let_def)

text \<open>
  Other threads. \<open>p\<close> is the address of the wakeup event here and below; the loop never hands it out, so
  nobody asks to unregister it.
\<close>

inductive foreign_step :: "nat \<Rightarrow> 'c wake_state \<Rightarrow> 'c wake_state \<Rightarrow> bool" for p :: nat where
  f_push: "\<not> m_stop_flag (wk_loop x) \<Longrightarrow> cb \<noteq> Some (DeleteToEpoll p) \<Longrightarrow> foreign_step p x (push cb x)"
| f_halt: "\<not> m_stop_flag (wk_loop x) \<Longrightarrow> foreign_step p x (halt x)"
| f_post: "0 < wk_writers x \<Longrightarrow> foreign_step p x (post x)"

text \<open>The wakeup descriptor is registered for reading and has something to read.\<close>

definition wake_ready :: "nat \<Rightarrow> 'c wake_state \<Rightarrow> bool" where
  "wake_ready p x \<longleftrightarrow> 0 < wk_fd x \<and> fe_fd (fd_events (wk_loop x) p) \<in> m_listen_fds (wk_loop x) \<and>
     m_listen_event (fd_events (wk_loop x) p) AND EPOLLIN \<noteq> 0"

definition g_epoll_max_events :: nat where
  "g_epoll_max_events = 10"

text \<open>
  What \<open>epoll_wait\<close> can return: at most \<open>g_epoll_max_events\<close> events, among them the wakeup event only if it is
  ready, and certainly if it is ready and there is room for it; nothing at all only if it is not ready.
\<close>

definition wait_returns :: "nat \<Rightarrow> 'c wake_state \<Rightarrow> (nat option \<times> epoll_mask) list \<Rightarrow> bool" where
  "wait_returns p x evs \<longleftrightarrow> length evs \<le> g_epoll_max_events \<and> (\<forall>e. (Some p, e) \<in> set evs \<longrightarrow> e = EPOLLIN \<and> wake_ready p x) \<and>
     (wake_ready p x \<longrightarrow> (Some p, EPOLLIN) \<in> set evs \<or> length evs = g_epoll_max_events)"

text \<open>
  The thread of the loop. What a task writes to the descriptor from this thread is in the counter when
  the task returns.
\<close>

inductive own_step :: "nat \<Rightarrow> (nat \<Rightarrow> int) \<Rightarrow> ('c \<Rightarrow> 'c loop_call list) \<Rightarrow> 'c wake_state \<Rightarrow> 'c wake_state \<Rightarrow> bool"
  for p :: nat and clock :: "nat \<Rightarrow> int" and behaviour :: "'c \<Rightarrow> 'c loop_call list" where
  o_batch: "wk_phase x = AtTop \<Longrightarrow> \<not> m_stop_flag (wk_loop x) \<Longrightarrow>
    own_step p clock behaviour x (x\<lparr>wk_phase := InBatch (m_pending_tasks (wk_loop x)),
      wk_loop := (wk_loop x)\<lparr>m_pending_tasks := []\<rparr>\<rparr>)"
| o_run: "wk_phase x = InBatch (cb # ts) \<Longrightarrow> \<not> m_stop_flag (wk_loop x) \<Longrightarrow> cb \<noteq> Some DrainWakeup \<Longrightarrow>
    l' = run_closure clock behaviour cb (wk_loop x) \<Longrightarrow>
    own_step p clock behaviour x (x\<lparr>wk_phase := InBatch ts, wk_loop := l',
      wk_fd := (eventfd_write ^^ (wakeup_writes l' - wakeup_writes (wk_loop x))) (wk_fd x)\<rparr>)"
| o_pop: "wk_phase x = InBatch (Some DrainWakeup # ts) \<Longrightarrow> \<not> m_stop_flag (wk_loop x) \<Longrightarrow>
    own_step p clock behaviour x (x\<lparr>wk_phase := Draining ts\<rparr>)"
| o_drain: "wk_phase x = Draining ts \<Longrightarrow>
    own_step p clock behaviour x (x\<lparr>wk_phase := InBatch ts, wk_fd := drain_wakeup errno (wk_fd x)\<rparr>)"
| o_wait: "wk_phase x = InBatch ts \<Longrightarrow> ts = [] \<or> m_stop_flag (wk_loop x) \<Longrightarrow>
    own_step p clock behaviour x (x\<lparr>wk_phase := InWait\<rparr>)"
| o_return: "wk_phase x = InWait \<Longrightarrow> wait_returns p x evs \<Longrightarrow>
    own_step p clock behaviour x (x\<lparr>wk_phase := AtTop, wk_loop := fold dispatch_event evs (wk_loop x)\<rparr>)"

inductive wake_reach :: "nat \<Rightarrow> (nat \<Rightarrow> int) \<Rightarrow> ('c \<Rightarrow> 'c loop_call list) \<Rightarrow> 'c wake_state \<Rightarrow> 'c wake_state \<Rightarrow> bool"
  for p :: nat and clock :: "nat \<Rightarrow> int" and behaviour :: "'c \<Rightarrow> 'c loop_call list" and a :: "'c wake_state" where
  w_start: "wake_reach p clock behaviour a a"
| w_own: "wake_reach p clock behaviour a x \<Longrightarrow> own_step p clock behaviour x y \<Longrightarrow> wake_reach p clock behaviour a y"
| w_foreign: "wake_reach p clock behaviour a x \<Longrightarrow> foreign_step p x y \<Longrightarrow> wake_reach p clock behaviour a y"

text \<open>The loop sleeps: \<open>epoll_wait\<close> has no reason to return because of the wakeup descriptor.\<close>

definition asleep :: "nat \<Rightarrow> 'c wake_state \<Rightarrow> bool" where
  "asleep p x \<longleftrightarrow> wk_phase x = InWait \<and> \<not> wake_ready p x \<and> wk_writers x = 0"

section \<open>The wakeup event stays registered\<close>

text \<open>Calls of user code that leave the wakeup event alone.\<close>

fun spares :: "nat \<Rightarrow> 'c loop_call \<Rightarrow> bool" where
  "spares p (CallAddTask cb w) = (cb \<noteq> Some (DeleteToEpoll p))"
| "spares p (CallDeleteEpoll q) = (q \<noteq> p)"
| "spares p (CallListen q e cb ecb) = (q \<noteq> p \<and> cb \<noteq> Some (DeleteToEpoll p) \<and> ecb \<noteq> Some (DeleteToEpoll p))"
| "spares p (CallCancle q e) = (q \<noteq> p)"
| "spares p _ = True"

definition wake_event :: "int \<Rightarrow> 'c closure fd_event" where
  "wake_event fd = listen IN_EVENT (Some DrainWakeup) None (newFd_Event fd)"

definition watched :: "nat \<Rightarrow> int \<Rightarrow> 'c eventloop \<Rightarrow> bool" where
  "watched p fd l \<longleftrightarrow> fd_events l p = wake_event fd \<and> fd \<in> m_listen_fds l \<and>
     (\<forall>q. q \<noteq> p \<longrightarrow> fe_fd (fd_events l q) \<noteq> fd) \<and> (\<forall>q e. handler e (fd_events l q) \<noteq> Some (DeleteToEpoll p)) \<and>
     Some (DeleteToEpoll p) \<notin> set (m_pending_tasks l)"

lemma wake_event_simps [simp]:
  "fe_fd (wake_event fd) = fd" "handler IN_EVENT (wake_event fd) = Some DrainWakeup" "handler e (wake_event fd) \<noteq> Some (DeleteToEpoll p)"
  "m_listen_event (wake_event fd) AND EPOLLIN \<noteq> 0"
  by (cases e; simp add: wake_event_def handler_listen newFd_Event_def fe_reset_def interest_def EPOLLIN_def EPOLLRDHUP_def)+

lemma handler_cancle [simp]: "handler e' (cancle e ev) = handler e' ev"
  by (cases e; cases e') simp_all

lemma watched_addTask: "watched p fd l \<Longrightarrow> cb \<noteq> Some (DeleteToEpoll p) \<Longrightarrow> watched p fd (addTask cb w l)"
  by (auto simp: watched_def)

lemma watched_add: "watched p fd l \<Longrightarrow> watched p fd (ADD_TO_EPOLL q l)"
  by (simp add: watched_def ADD_TO_EPOLL_def Let_def)

lemma watched_delete: "watched p fd l \<Longrightarrow> q \<noteq> p \<Longrightarrow> watched p fd (DELETE_TO_EPOLL q l)"
  by (auto simp: watched_def DELETE_TO_EPOLL_def Let_def)

lemma watched_frame:
  assumes "watched p fd l"
  shows "watched p fd (l\<lparr>m_timer := t\<rparr>)" "watched p fd (stop l)" "watched p fd (l\<lparr>m_pending_tasks := []\<rparr>)" "watched p fd (wakeup l)"
    "watched p fd (l\<lparr>m_stop_flag := b\<rparr>)"
  using assms by (simp_all add: watched_def wakeup_def)

lemma watched_call:
  assumes "watched p fd l" and "spares p call"
  shows "watched p fd (call_loop clock inloop call l)"
proof (cases call)
  case (CallListen q e cb ecb)
  then show ?thesis using assms by (auto simp: watched_def handler_listen)
next
  case (CallCancle q e)
  then show ?thesis using assms by (auto simp: watched_def)
qed (use assms in \<open>auto simp: addEpollEvent_def deleteEpollEvent_def loop_addTimerEvent_def loop_deleteTimerEvent_def
    intro: watched_frame watched_addTask watched_add watched_delete split: option.splits\<close>)

lemma watched_calls: "watched p fd l \<Longrightarrow> \<forall>call \<in> set calls. spares p call \<Longrightarrow> watched p fd (fold (call_loop clock True) calls l)"
  by (induction calls arbitrary: l) (auto intro: watched_call)

lemma watched_users:
  "watched p fd l \<Longrightarrow> \<forall>c. \<forall>call \<in> set (behaviour c). spares p call \<Longrightarrow> watched p fd (fold (run_user clock behaviour) cbs l)"
  by (induction cbs arbitrary: l) (auto simp: run_user_def intro: watched_calls)

lemma watched_closure:
  assumes "watched p fd l" and "\<forall>c. \<forall>call \<in> set (behaviour c). spares p call" and "cb \<noteq> Some (DeleteToEpoll p)"
  shows "watched p fd (run_closure clock behaviour cb l)"
  using assms watched_users [OF watched_frame(1) [OF assms(1)] assms(2)]
  by (cases "(clock, behaviour, cb, l)" rule: run_closure.cases)
    (auto simp: run_user_def intro: watched_calls watched_add watched_delete split: option.splits)

lemma watched_dispatch:
  assumes "watched p fd l" and "\<forall>e. snd t = e \<and> fst t = Some p \<longrightarrow> e = EPOLLIN"
  shows "watched p fd (dispatch_event t l)"
proof (cases "fst t = Some p")
  case True
  then have "t = (Some p, EPOLLIN)" using assms(2) by (cases t) auto
  then show ?thesis
    using assms(1) by (auto simp: dispatch_event_def EPOLLIN_def EPOLLOUT_def EPOLLERR_def EPOLLHUP_def EPOLLRDHUP_def Let_def watched_def
        simp del: handler.simps)
next
  case False
  have h: "handler e (fd_events l' q) \<noteq> Some (DeleteToEpoll p)" if "watched p fd l'" for e q l'
    using that by (simp add: watched_def)
  show ?thesis
    using assms(1) False h
    by (cases t) (auto simp: dispatch_event_def deleteEpollEvent_def Let_def simp del: handler.simps
        intro!: watched_addTask watched_delete split: option.splits)
qed

lemma watched_dispatches:
  "watched p fd l \<Longrightarrow> \<forall>e. (Some p, e) \<in> set evs \<longrightarrow> e = EPOLLIN \<Longrightarrow> watched p fd (fold dispatch_event evs l)"
proof (induction evs arbitrary: l)
  case (Cons t evs)
  have "watched p fd (dispatch_event t l)"
    by (rule watched_dispatch) (use Cons.prems in \<open>auto simp: prod_eq_iff\<close>)
  with Cons show ?case by simp
qed simp

text \<open>The invariant of a loop and its waiting tasks.\<close>

fun phase_tasks :: "'c loop_phase \<Rightarrow> 'c closure option list" where
  "phase_tasks (InBatch ts) = ts"
| "phase_tasks (Draining ts) = ts"
| "phase_tasks _ = []"

definition wake_inv :: "nat \<Rightarrow> int \<Rightarrow> 'c wake_state \<Rightarrow> bool" where
  "wake_inv p fd x \<longleftrightarrow> watched p fd (wk_loop x) \<and> Some (DeleteToEpoll p) \<notin> set (phase_tasks (wk_phase x))"

lemma wake_inv_foreign: "foreign_step p x y \<Longrightarrow> wake_inv p fd x \<Longrightarrow> wake_inv p fd y"
  by (induction rule: foreign_step.induct)
    (auto simp: wake_inv_def watched_def push_def halt_def post_def wakeup_def Let_def)

lemma wake_inv_own:
  assumes "own_step p clock behaviour x y" and "wake_inv p fd x" and "\<forall>c. \<forall>call \<in> set (behaviour c). spares p call"
  shows "wake_inv p fd y"
  using assms
proof (induction rule: own_step.induct)
  case (o_batch x)
  then show ?case by (auto simp: wake_inv_def watched_def)
next
  case (o_run x cb ts l')
  then have "watched p fd l'" by (auto simp: wake_inv_def intro: watched_closure)
  with o_run show ?case by (simp add: wake_inv_def)
next
  case (o_return x evs)
  then show ?case by (auto simp: wake_inv_def wait_returns_def intro: watched_dispatches)
qed (auto simp: wake_inv_def)

lemma wake_inv_reach:
  assumes "wake_reach p clock behaviour a x" and "wake_inv p fd a" and "\<forall>c. \<forall>call \<in> set (behaviour c). spares p call"
  shows "wake_inv p fd x"
  using assms by (induction rule: wake_reach.induct) (auto intro: wake_inv_own wake_inv_foreign)

text \<open>A loop that has just been created.\<close>

definition created :: "'c eventloop \<Rightarrow> 'c wake_state" where
  "created l = \<lparr>wk_loop = l, wk_fd = 0, wk_phase = AtTop, wk_writers = 0\<rparr>"

lemma created_inv:
  assumes "newEventloop False epoll_fd (p, fd) timer (\<lambda>q. newFd_Event (fds q)) tevs = Some l"
    and "fst timer \<noteq> p" and "snd timer \<noteq> fd" and "\<forall>q. q \<noteq> p \<longrightarrow> fds q \<noteq> fd"
  shows "wake_inv p fd (created l)"
proof -
  have h: "handler e (newFd_Event f :: 'a closure fd_event) = None" for e f
    by (cases e) (simp_all add: newFd_Event_def fe_reset_def)
  show ?thesis
    using assms by (auto simp: created_def wake_inv_def watched_def newEventloop_def initWakeUpFdEevent_def initTimer_def addEpollEvent_def
        ADD_TO_EPOLL_def wake_event_def handler_listen h Let_def simp del: handler.simps split: if_splits)
qed

section \<open>A loop that waits\<close>

lemma foreign_steps_keep:
  assumes "(foreign_step p)\<^sup>*\<^sup>* x y"
  shows "wk_phase y = wk_phase x \<and> (\<exists>new. m_pending_tasks (wk_loop y) = m_pending_tasks (wk_loop x) @ new) \<and>
         (m_stop_flag (wk_loop x) \<longrightarrow> m_stop_flag (wk_loop y)) \<and> (wake_inv p fd x \<longrightarrow> wake_inv p fd y) \<and>
         (m_pending_tasks (wk_loop y) \<noteq> m_pending_tasks (wk_loop x) \<or> m_stop_flag (wk_loop y) \<noteq> m_stop_flag (wk_loop x) \<longrightarrow>
            0 < wk_fd y \<or> 0 < wk_writers y)"
  using assms
proof (induction rule: rtranclp_induct)
  case (step y z)
  have "wake_inv p fd y \<longrightarrow> wake_inv p fd z" using step(2) wake_inv_foreign by blast
  with step(2,3) show ?case
    by (cases rule: foreign_step.cases) (auto simp: push_def halt_def post_def wakeup_def Let_def eventfd_write_pos)
qed simp

text \<open>At the top of the loop there is one way to go on, or none.\<close>

lemma top_step:
  assumes "wk_phase z = AtTop"
  shows "own_step p clock behaviour z z' \<longleftrightarrow> \<not> m_stop_flag (wk_loop z) \<and>
     z' = z\<lparr>wk_phase := InBatch (m_pending_tasks (wk_loop z)), wk_loop := (wk_loop z)\<lparr>m_pending_tasks := []\<rparr>\<rparr>"
proof
  assume "own_step p clock behaviour z z'"
  then show "\<not> m_stop_flag (wk_loop z) \<and>
     z' = z\<lparr>wk_phase := InBatch (m_pending_tasks (wk_loop z)), wk_loop := (wk_loop z)\<lparr>m_pending_tasks := []\<rparr>\<rparr>"
    using assms by (cases rule: own_step.cases) auto
qed (use assms in \<open>auto intro: own_step.o_batch\<close>)

section \<open>Properties\<close>

text \<open>
  C30. A waiting loop is woken: from the creation of the loop, whatever its tasks and other threads do
  (nobody unregistering the wakeup event), if other threads queue a task with wake-up or stop the loop
  while it waits, in any interleaving, then as soon as their calls have returned the wakeup descriptor
  is registered and readable. \<open>epoll_wait\<close> then cannot go on waiting and returns with events, without
  waiting for its timeout; whichever events these are, the next batch begins with everything that is in
  the queue, in order, unless the loop has been stopped, in which case it takes no batch. Queueing a
  task is one step here; what happens when two calls of \<open>addTask\<close> overlap is in \<open>CriticalSections\<close>.
\<close>

theorem waiting_loop_is_woken:
  assumes "newEventloop False epoll_fd (p, fd) timer (\<lambda>q. newFd_Event (fds q)) tevs = Some l"
    and "fst timer \<noteq> p" and "snd timer \<noteq> fd" and "\<forall>q. q \<noteq> p \<longrightarrow> fds q \<noteq> fd"
    and "\<forall>c. \<forall>call \<in> set (behaviour c). spares p call" and "wake_reach p clock behaviour (created l) x"
    and "wk_phase x = InWait" and "(foreign_step p)\<^sup>*\<^sup>* x y" and "wk_writers y = 0"
    and "m_pending_tasks (wk_loop y) \<noteq> m_pending_tasks (wk_loop x) \<or> m_stop_flag (wk_loop y) \<noteq> m_stop_flag (wk_loop x)"
  shows "wake_ready p y \<and> \<not> wait_returns p y [] \<and> (\<exists>z. own_step p clock behaviour y z) \<and>
         (\<forall>z. own_step p clock behaviour y z \<longrightarrow> wk_phase z = AtTop \<and> m_stop_flag (wk_loop z) = m_stop_flag (wk_loop y) \<and>
            (if m_stop_flag (wk_loop y) then \<not> (\<exists>z'. own_step p clock behaviour z z')
             else \<exists>tasks. \<forall>z'. own_step p clock behaviour z z' \<longleftrightarrow>
                    z' = z\<lparr>wk_phase := InBatch (m_pending_tasks (wk_loop y) @ tasks), wk_loop := (wk_loop z)\<lparr>m_pending_tasks := []\<rparr>\<rparr>))"
proof -
  have x: "wake_inv p fd x"
    using wake_inv_reach [OF assms(6) created_inv [OF assms(1-4)] assms(5)] .
  then have y: "wk_phase y = InWait" "wake_inv p fd y" "0 < wk_fd y"
    using foreign_steps_keep [OF assms(8), of fd] assms(7,9,10) by auto
  then have ready: "wake_ready p y" by (simp add: wake_ready_def wake_inv_def watched_def)
  then have "wait_returns p y [(Some p, EPOLLIN)]" "\<not> wait_returns p y []"
    by (auto simp: wait_returns_def g_epoll_max_events_def)
  moreover from this have "\<exists>z. own_step p clock behaviour y z"
    using own_step.o_return [OF y(1)] by blast
  moreover have "wk_phase z = AtTop \<and> m_stop_flag (wk_loop z) = m_stop_flag (wk_loop y) \<and>
      (if m_stop_flag (wk_loop y) then \<not> (\<exists>z'. own_step p clock behaviour z z')
       else \<exists>tasks. \<forall>z'. own_step p clock behaviour z z' \<longleftrightarrow>
              z' = z\<lparr>wk_phase := InBatch (m_pending_tasks (wk_loop y) @ tasks), wk_loop := (wk_loop z)\<lparr>m_pending_tasks := []\<rparr>\<rparr>)"
    if returned: "own_step p clock behaviour y z" for z
  proof -
    obtain evs where z: "z = y\<lparr>wk_phase := AtTop, wk_loop := fold dispatch_event evs (wk_loop y)\<rparr>"
      using returned y(1) by (cases rule: own_step.cases) auto
    have "\<exists>new. m_pending_tasks (fold dispatch_event evs (wk_loop y)) = m_pending_tasks (wk_loop y) @ new"
      by (rule queueing.R_fold) (rule queueing.R_dispatch)
    then obtain tasks where "m_pending_tasks (wk_loop z) = m_pending_tasks (wk_loop y) @ tasks" by (auto simp: z)
    moreover have "wk_phase z = AtTop" "m_stop_flag (wk_loop z) = m_stop_flag (wk_loop y)" by (simp_all add: z)
    ultimately show ?thesis using top_step [of z p clock behaviour] by (auto intro: exI [of _ tasks])
  qed
  ultimately show ?thesis using ready by blast
qed

text \<open>A loop that has just been created, with its wakeup event at the address 4.\<close>

definition fresh_loop :: "nat eventloop" where
  "fresh_loop = the (newEventloop False 3 (4, 4) (5, 5) (\<lambda>q. newFd_Event (int q)) (\<lambda>_. newTimerEvent 0 0 False None))"

abbreviation fresh_wake :: "nat wake_state" where
  "fresh_wake \<equiv> created fresh_loop"

lemma fresh_created: "newEventloop False 3 (4, 4) (5, 5) (\<lambda>q. newFd_Event (int q)) (\<lambda>_. newTimerEvent 0 0 False None) = Some fresh_loop"
  by (simp add: fresh_loop_def newEventloop_def initWakeUpFdEevent_def)

lemma fresh_loop_simps [simp]: "\<not> m_stop_flag fresh_loop" "m_pending_tasks fresh_loop = []" "wakeup_writes fresh_loop = 0"
  by (simp_all add: fresh_loop_def newEventloop_def initWakeUpFdEevent_def initTimer_def addEpollEvent_def ADD_TO_EPOLL_def Let_def)

theorem waiting_loop_is_woken_witness:
  "\<exists>x. wake_reach 4 (\<lambda>_. 0) (\<lambda>_. []) fresh_wake x \<and> wk_phase x = InWait \<and> wake_ready 4 (post (push (Some (User 7)) x))"
proof -
  define x1 where "x1 = fresh_wake\<lparr>wk_phase := InBatch [], wk_loop := fresh_loop\<lparr>m_pending_tasks := []\<rparr>\<rparr>"
  define x where "x = x1\<lparr>wk_phase := InWait\<rparr>"
  have "own_step 4 (\<lambda>_. 0) (\<lambda>_. []) fresh_wake x1"
    using own_step.o_batch [of fresh_wake 4 "\<lambda>_. 0" "\<lambda>_. []"] by (simp add: x1_def created_def)
  moreover have "own_step 4 (\<lambda>_. 0) (\<lambda>_. []) x1 x"
    unfolding x_def by (rule own_step.o_wait [of _ "[]"]) (simp_all add: x1_def)
  ultimately have r: "wake_reach 4 (\<lambda>_. 0) (\<lambda>_. []) fresh_wake x"
    using wake_reach.intros by metis
  have x: "wk_phase x = InWait" "\<not> m_stop_flag (wk_loop x)" "wk_writers x = 0" "m_pending_tasks (wk_loop x) = []"
    by (simp_all add: x_def x1_def created_def)
  have "foreign_step 4 x (push (Some (User 7)) x)" "foreign_step 4 (push (Some (User 7)) x) (post (push (Some (User 7)) x))"
    using foreign_step.f_push [OF x(2), of "Some (User 7)" 4] foreign_step.f_post [of "push (Some (User 7)) x" 4] x(2)
    by (simp_all add: push_def Let_def)
  then have f: "(foreign_step 4)\<^sup>*\<^sup>* x (post (push (Some (User 7)) x))"
    by (meson rtranclp.rtrancl_into_rtrancl rtranclp.rtrancl_refl)
  have "wake_ready 4 (post (push (Some (User 7)) x))"
    using waiting_loop_is_woken [OF fresh_created _ _ _ _ r x(1) f] x
    by (simp add: post_def push_def wakeup_def Let_def)
  with r x(1) show ?thesis by blast
qed

section \<open>A loop that is draining\<close>

text \<open>The states of a run of a loop whose tasks do nothing to it.\<close>

definition wake_at :: "nat loop_phase \<Rightarrow> nat \<Rightarrow> nat \<Rightarrow> nat closure option list \<Rightarrow> bool \<Rightarrow> nat \<Rightarrow> nat wake_state" where
  "wake_at ph fd w pend st n = \<lparr>wk_loop = \<lparr>m_stop_flag = st, m_is_looping = m_is_looping fresh_loop,
       m_listen_fds = m_listen_fds fresh_loop, m_pending_tasks = pend, m_timer = m_timer fresh_loop, fd_events = fd_events fresh_loop,
       epoll_calls = epoll_calls fresh_loop, wakeup_writes = n\<rparr>,
     wk_fd = fd, wk_phase = ph, wk_writers = w\<rparr>"

lemmas wake_at_defs = wake_at_def created_def

lemma fresh_watched: "watched 4 4 fresh_loop"
  using created_inv [OF fresh_created] by (simp add: wake_inv_def created_def)

lemma wake_at_ready: "wake_ready 4 (wake_at ph fd w pend st n) \<longleftrightarrow> 0 < fd"
  using fresh_watched by (simp add: wake_ready_def watched_def wake_at_def)

lemma wake_at_own:
  "own_step 4 c (\<lambda>_. []) (wake_at AtTop fd w pend False n) (wake_at (InBatch pend) fd w [] False n)"
  "own_step 4 c (\<lambda>_. []) (wake_at (InBatch (Some (User k) # ts)) fd w pend False n) (wake_at (InBatch ts) fd w pend False n)"
  "own_step 4 c (\<lambda>_. []) (wake_at (InBatch (Some DrainWakeup # ts)) fd w pend False n) (wake_at (Draining ts) fd w pend False n)"
  "own_step 4 c (\<lambda>_. []) (wake_at (Draining ts) fd w pend st n) (wake_at (InBatch ts) 0 w pend st n)"
  "own_step 4 c (\<lambda>_. []) (wake_at (InBatch []) fd w pend st n) (wake_at InWait fd w pend st n)"
  "0 < fd \<Longrightarrow> own_step 4 c (\<lambda>_. []) (wake_at InWait fd w pend False n) (wake_at AtTop fd w (pend @ [Some DrainWakeup]) False n)"
proof -
  show "own_step 4 c (\<lambda>_. []) (wake_at AtTop fd w pend False n) (wake_at (InBatch pend) fd w [] False n)"
    using own_step.o_batch [of "wake_at AtTop fd w pend False n" 4 c "\<lambda>_. []"] by (simp add: wake_at_defs)
  show "own_step 4 c (\<lambda>_. []) (wake_at (InBatch (Some (User k) # ts)) fd w pend False n) (wake_at (InBatch ts) fd w pend False n)"
    using own_step.o_run [of "wake_at (InBatch (Some (User k) # ts)) fd w pend False n" "Some (User k)" ts _ c "\<lambda>_. []" 4, OF _ _ _ refl]
    by (simp add: wake_at_defs run_user_def)
  show "own_step 4 c (\<lambda>_. []) (wake_at (InBatch (Some DrainWakeup # ts)) fd w pend False n) (wake_at (Draining ts) fd w pend False n)"
    using own_step.o_pop [of "wake_at (InBatch (Some DrainWakeup # ts)) fd w pend False n" ts 4 c "\<lambda>_. []"] by (simp add: wake_at_defs)
  show "own_step 4 c (\<lambda>_. []) (wake_at (Draining ts) fd w pend st n) (wake_at (InBatch ts) 0 w pend st n)"
    using own_step.o_drain [of "wake_at (Draining ts) fd w pend st n" ts 4 c "\<lambda>_. []" 0] by (simp add: wake_at_defs)
  show "own_step 4 c (\<lambda>_. []) (wake_at (InBatch []) fd w pend st n) (wake_at InWait fd w pend st n)"
    using own_step.o_wait [of "wake_at (InBatch []) fd w pend st n" "[]" 4 c "\<lambda>_. []"] by (simp add: wake_at_defs)
  assume fd: "0 < fd"
  define x where "x = wake_at InWait fd w pend False n"
  have "wait_returns 4 x [(Some 4, EPOLLIN)]"
    using fd by (simp add: wait_returns_def x_def wake_at_ready g_epoll_max_events_def)
  moreover have "handler IN_EVENT (fd_events (wk_loop x) 4) = Some DrainWakeup"
    using fresh_watched by (simp add: x_def wake_at_def watched_def del: handler.simps)
  then have "dispatch_event (Some 4, EPOLLIN) (wk_loop x) = addTask (Some DrainWakeup) False (wk_loop x)"
    by (simp add: dispatch_event_def EPOLLIN_def EPOLLOUT_def EPOLLERR_def EPOLLHUP_def EPOLLRDHUP_def Let_def del: handler.simps)
  ultimately show "own_step 4 c (\<lambda>_. []) (wake_at InWait fd w pend False n) (wake_at AtTop fd w (pend @ [Some DrainWakeup]) False n)"
    using own_step.o_return [of x 4 "[(Some 4, EPOLLIN)]" c "\<lambda>_. []"] by (simp add: x_def wake_at_def addTask_def)
qed

lemma wake_at_foreign:
  "foreign_step 4 (wake_at ph fd w pend False n) (wake_at ph fd (Suc w) (pend @ [Some (User k)]) False n)"
  "foreign_step 4 (wake_at ph fd w pend False n) (wake_at ph fd (Suc w) pend True n)"
  "foreign_step 4 (wake_at ph fd (Suc w) pend st n) (wake_at ph (eventfd_write fd) w pend st (Suc n))"
  using foreign_step.f_push [of "wake_at ph fd w pend False n" "Some (User k)" 4] foreign_step.f_halt [of "wake_at ph fd w pend False n" 4]
    foreign_step.f_post [of "wake_at ph fd (Suc w) pend st n" 4]
  by (simp_all add: wake_at_defs push_def halt_def post_def wakeup_def Let_def)

text \<open>A task wakes the loop and runs, and the loop starts to drain the descriptor.\<close>

lemma wake_run:
  "\<exists>fd n. wake_reach 4 (\<lambda>_. 0) (\<lambda>_. []) fresh_wake (wake_at (Draining []) fd 0 [] False n) \<and>
     wake_reach 4 (\<lambda>_. 0) (\<lambda>_. []) fresh_wake (wake_at (InBatch [Some DrainWakeup]) fd 0 [] False n)"
proof -
  have start: "fresh_wake = wake_at AtTop 0 0 [] False 0"
    by (simp add: wake_at_defs)
  note own = wake_reach.w_own [OF _ wake_at_own(1)] wake_reach.w_own [OF _ wake_at_own(2)] wake_reach.w_own [OF _ wake_at_own(3)]
    wake_reach.w_own [OF _ wake_at_own(5)] wake_reach.w_own [OF _ wake_at_own(6)]
  note foreign = wake_reach.w_foreign [OF _ wake_at_foreign(1) [where k = 1]] wake_reach.w_foreign [OF _ wake_at_foreign(3)]
  have "wake_reach 4 (\<lambda>_. 0) (\<lambda>_. []) fresh_wake (wake_at AtTop 0 0 [] False 0)"
    unfolding start by (rule wake_reach.w_start)
  note own(4) [OF own(1) [OF this]]
  note foreign(2) [OF foreign(1) [OF this]]
  note own(2) [OF own(1) [OF own(5) [OF this eventfd_write_pos, simplified]]]
  with own(3) [OF this] show ?thesis by blast
qed

text \<open>
  A wake-up can be lost: the reader of the descriptor is a task of the batch, so it also takes the
  wake-ups of tasks that were queued after the batch was taken. The loop then goes to sleep although
  a task is queued behind it, and the task waits for another event or for the timeout of \<open>epoll_wait\<close>.
\<close>

lemma lost_wakeup:
  "\<exists>x. wake_reach 4 (\<lambda>_. 0) (\<lambda>_. []) fresh_wake x \<and> asleep 4 x \<and> m_pending_tasks (wk_loop x) = [Some (User 2)] \<and>
     \<not> m_stop_flag (wk_loop x)"
proof -
  obtain fd n where "wake_reach 4 (\<lambda>_. 0) (\<lambda>_. []) fresh_wake (wake_at (InBatch [Some DrainWakeup]) fd 0 [] False n)"
    using wake_run by blast
  note wake_reach.w_foreign [OF wake_reach.w_foreign [OF this wake_at_foreign(1) [where k = 2]] wake_at_foreign(3)]
  note wake_reach.w_own [OF wake_reach.w_own [OF wake_reach.w_own [OF this wake_at_own(3)] wake_at_own(4)] wake_at_own(5)]
  then show ?thesis
    by (intro exI conjI, assumption) (simp_all add: asleep_def wake_at_ready, simp_all add: wake_at_def)
qed

text \<open>The same happens to a stop between the check of the stop flag and the reading of the descriptor.\<close>

lemma lost_stop:
  "\<exists>x. wake_reach 4 (\<lambda>_. 0) (\<lambda>_. []) fresh_wake x \<and> asleep 4 x \<and> m_stop_flag (wk_loop x)"
proof -
  obtain fd n where "wake_reach 4 (\<lambda>_. 0) (\<lambda>_. []) fresh_wake (wake_at (Draining []) fd 0 [] False n)"
    using wake_run by blast
  note wake_reach.w_foreign [OF wake_reach.w_foreign [OF this wake_at_foreign(2)] wake_at_foreign(3)]
  note wake_reach.w_own [OF wake_reach.w_own [OF this wake_at_own(4)] wake_at_own(5)]
  then show ?thesis
    by (intro exI conjI, assumption) (simp_all add: asleep_def wake_at_ready, simp_all add: wake_at_def)
qed

end
