(* ===== verification/Mutex.thy ===== *)
theory Mutex
  imports Prelude
begin

text \<open>
  Mutual exclusion (\<open>common/mutex.h\<close>): \<open>Mutex\<close> wraps a \<open>pthread_mutex_t\<close> of the default type and
  \<open>ScopeMutex\<close> locks it for a scope. Unlocking a mutex that the thread does not hold is undefined;
  \<open>undef\<close>, a parameter, is what happens then: a fault, or the state the implementation leaves.
  The second half runs the two shapes of critical section that the sources use on any number of
  threads.
\<close>

type_synonym tid = nat

text \<open>The thread that holds the mutex.\<close>

record mutex =
  owner :: "tid option"

definition newMutex :: mutex where
  "newMutex = \<lparr>owner = None\<rparr>"

text \<open>\<open>None\<close>: the thread waits.\<close>

definition Mutex_lock :: "tid \<Rightarrow> mutex \<Rightarrow> mutex option" where
  "Mutex_lock t m = (if owner m = None then Some (m\<lparr>owner := Some t\<rparr>) else None)"

definition Mutex_unlock :: "(mutex \<Rightarrow> mutex cpp) \<Rightarrow> tid \<Rightarrow> mutex \<Rightarrow> mutex cpp" where
  "Mutex_unlock undef t m = (if owner m = Some t then Inr (m\<lparr>owner := None\<rparr>) else undef m)"

record scope_mutex =
  m_is_lock :: bool

definition ScopeMutex :: "tid \<Rightarrow> mutex \<Rightarrow> (mutex \<times> scope_mutex) option" where
  "ScopeMutex t m = map_option (\<lambda>m. (m, \<lparr>m_is_lock = True\<rparr>)) (Mutex_lock t m)"

definition ScopeMutex_lock :: "tid \<Rightarrow> scope_mutex \<Rightarrow> mutex \<Rightarrow> mutex option" where
  "ScopeMutex_lock t sc m = (if \<not> m_is_lock sc then Mutex_lock t m else Some m)"

text \<open>The flag is not reset.\<close>

definition ScopeMutex_unlock :: "(mutex \<Rightarrow> mutex cpp) \<Rightarrow> tid \<Rightarrow> scope_mutex \<Rightarrow> mutex \<Rightarrow> mutex cpp" where
  "ScopeMutex_unlock undef t sc m = (if m_is_lock sc then Mutex_unlock undef t m else Inr m)"

definition destroyScopeMutex :: "(mutex \<Rightarrow> mutex cpp) \<Rightarrow> tid \<Rightarrow> scope_mutex \<Rightarrow> mutex \<Rightarrow> (mutex \<times> scope_mutex) cpp" where
  "destroyScopeMutex undef t sc m = map_cpp (\<lambda>m. (m, sc\<lparr>m_is_lock := False\<rparr>)) (Mutex_unlock undef t m)"

section \<open>Critical sections\<close>

text \<open>
  A thread is outside its section, inside it, or past an explicit \<open>unlock\<close> with the scope still
  open. In \<open>FdEventGroup::getFdEvent\<close> the destructor alone ends the section; everywhere else
  an explicit \<open>unlock\<close> comes first (\<open>explicit\<close>).
\<close>

datatype place = Outside | Inside scope_mutex | Released scope_mutex

record threads =
  shared :: mutex
  place_of :: "tid \<Rightarrow> place"

definition all_outside :: threads where
  "all_outside = \<lparr>shared = newMutex, place_of = (\<lambda>_. Outside)\<rparr>"

inductive section_step :: "(mutex \<Rightarrow> mutex cpp) \<Rightarrow> bool \<Rightarrow> threads \<Rightarrow> threads cpp \<Rightarrow> bool" for undef explicit where
  enter: "\<lbrakk>place_of s t = Outside; ScopeMutex t (shared s) = Some (m, sc)\<rbrakk>
    \<Longrightarrow> section_step undef explicit s (Inr (s\<lparr>shared := m, place_of := (place_of s)(t := Inside sc)\<rparr>))"
| unlock: "\<lbrakk>explicit; place_of s t = Inside sc\<rbrakk>
    \<Longrightarrow> section_step undef explicit s
          (map_cpp (\<lambda>m. s\<lparr>shared := m, place_of := (place_of s)(t := Released sc)\<rparr>)
             (ScopeMutex_unlock undef t sc (shared s)))"
| leave: "place_of s t = (if explicit then Released sc else Inside sc)
    \<Longrightarrow> section_step undef explicit s
          (map_cpp (\<lambda>(m, _). s\<lparr>shared := m, place_of := (place_of s)(t := Outside)\<rparr>)
             (destroyScopeMutex undef t sc (shared s)))"

inductive section_run :: "(mutex \<Rightarrow> mutex cpp) \<Rightarrow> bool \<Rightarrow> threads cpp \<Rightarrow> bool" for undef explicit where
  start: "section_run undef explicit (Inr all_outside)"
| step: "\<lbrakk>section_run undef explicit (Inr s); section_step undef explicit s r\<rbrakk> \<Longrightarrow> section_run undef explicit r"

lemmas mutex_defs = Mutex_lock_def Mutex_unlock_def ScopeMutex_def ScopeMutex_unlock_def destroyScopeMutex_def

definition inside :: "threads \<Rightarrow> tid \<Rightarrow> bool" where
  "inside s t \<longleftrightarrow> (\<exists>sc. place_of s t = Inside sc)"

text \<open>Sections that the destructor ends: the thread inside owns the mutex, and only it.\<close>

fun plain_inv :: "threads cpp \<Rightarrow> bool" where
  "plain_inv (Inl e) = False"
| "plain_inv (Inr s) = (\<forall>t. (owner (shared s) = Some t \<longleftrightarrow> inside s t) \<and> (\<forall>sc. place_of s t \<noteq> Released sc))"

lemma plain_step: "section_step undef False s r \<Longrightarrow> plain_inv (Inr s) \<Longrightarrow> plain_inv r"
proof (induction rule: section_step.induct)
  case (leave s t sc)
  then have own: "owner (shared s) = Some t" by (simp add: inside_def)
  have "inside s u \<longleftrightarrow> owner (shared s) = Some u" for u using leave(2) by simp
  then have "inside s u \<longleftrightarrow> u = t" for u using own by auto
  then show ?case using leave own by (auto simp: mutex_defs inside_def)
qed (auto simp: mutex_defs inside_def split: if_splits)

text \<open>
  Critical sections that end with the scope are mutually exclusive: however the threads
  interleave and whatever a wrong unlock would do, none happens, and two threads inside a
  section are the same thread, which owns the mutex.
\<close>

theorem scope_mutex_excludes:
  assumes "section_run undef False r"
  shows "\<exists>s. r = Inr s \<and> (\<forall>t u. inside s t \<and> inside s u \<longrightarrow> t = u \<and> owner (shared s) = Some t)"
proof -
  have "plain_inv r" using assms
    by (induction rule: section_run.induct) (auto simp: all_outside_def newMutex_def inside_def intro: plain_step)
  then show ?thesis by (cases r) (simp_all, metis option.inject)
qed

theorem scope_mutex_excludes_witness:
  "\<exists>s. section_run Inr False (Inr s) \<and> inside s 1 \<and> \<not> inside s 2 \<and> owner (shared s) = Some 1"
proof -
  let ?s = "all_outside\<lparr>shared := \<lparr>owner = Some 1\<rparr>, place_of := (\<lambda>_. Outside)(1 := Inside \<lparr>m_is_lock = True\<rparr>)\<rparr>"
  have "section_run Inr False (Inr ?s)"
    using section_run.step [OF section_run.start section_step.enter [where t = 1]]
    by (simp add: all_outside_def newMutex_def mutex_defs)
  moreover have in1: "inside ?s 1" by (simp add: inside_def)
  moreover obtain s where "Inr ?s = (Inr s :: threads cpp)"
    and "\<forall>t u. inside s t \<and> inside s u \<longrightarrow> t = u \<and> owner (shared s) = Some t"
    using scope_mutex_excludes [OF calculation(1)] by blast
  ultimately show ?thesis by (metis sum.inject(2) one_eq_numeral_iff num.distinct(1))
qed

section \<open>An explicit unlock\<close>

definition frees :: "(mutex \<Rightarrow> mutex cpp) \<Rightarrow> bool" where
  "frees undef \<longleftrightarrow> (\<forall>m m'. undef m = Inr m' \<longrightarrow> owner m' = None)"

fun explicit_inv :: "threads cpp \<Rightarrow> bool" where
  "explicit_inv (Inl e) = True"
| "explicit_inv (Inr s) = (\<forall>t. (owner (shared s) = Some t \<longrightarrow> inside s t) \<and>
     (\<forall>sc. place_of s t = Inside sc \<longrightarrow> m_is_lock sc))"

lemma explicit_step: "section_step undef True s r \<Longrightarrow> frees undef \<Longrightarrow> explicit_inv (Inr s) \<Longrightarrow> explicit_inv r"
proof (induction rule: section_step.induct)
  case (unlock s t sc)
  then show ?case
    by (cases "undef (shared s)") (auto simp: mutex_defs inside_def frees_def)
next
  case (leave s t sc)
  then show ?case
    by (cases "undef (shared s)") (auto simp: mutex_defs inside_def frees_def)
qed (auto simp: mutex_defs inside_def split: if_splits)

lemma explicit_run: "section_run undef True r \<Longrightarrow> frees undef \<Longrightarrow> explicit_inv r"
  by (induction rule: section_run.induct)
    (auto simp: all_outside_def newMutex_def inside_def intro: explicit_step)

text \<open>
  After an explicit \<open>unlock\<close> the destructor unlocks a mutex that its thread does not hold, in
  every reachable state.
\<close>

lemma destructor_unlocks_again:
  assumes "section_run undef True (Inr s)" and "frees undef" and "place_of s t = Released sc"
  shows "destroyScopeMutex undef t sc (shared s) = map_cpp (\<lambda>m. (m, sc\<lparr>m_is_lock := False\<rparr>)) (undef (shared s))"
  using explicit_run [OF assms(1,2)] assms(3) by (auto simp: mutex_defs inside_def)

text \<open>
  With an explicit \<open>unlock\<close> in the section, on an implementation where unlocking frees the
  mutex whoever holds it, two threads can be inside their sections at the same time.
\<close>

theorem explicit_unlock_breaks_exclusion:
  "\<exists>s t u. section_run (\<lambda>m. Inr (m\<lparr>owner := None\<rparr>)) True (Inr s) \<and> t \<noteq> u \<and> inside s t \<and> inside s u"
proof -
  let ?u = "\<lambda>m. Inr (m\<lparr>owner := None\<rparr>)" and ?sc = "\<lparr>m_is_lock = True\<rparr>" and ?O = "\<lambda>_. Outside"
  let ?R = "section_run ?u True"
  define S where "S m p = \<lparr>shared = \<lparr>owner = m\<rparr>, place_of = p\<rparr>" for m and p :: "tid \<Rightarrow> place"
  have enter: "?R (Inr (S (Some t) (p(t := Inside ?sc))))" if "?R (Inr (S None p))" "p t = Outside" for p t
  proof -
    have "section_step ?u True (S None p) (Inr (S (Some t) (p(t := Inside ?sc))))"
      using section_step.enter [of "S None p" t "\<lparr>owner = Some t\<rparr>" ?sc] that(2) by (simp add: S_def mutex_defs)
    with that(1) show ?thesis by (rule section_run.step)
  qed
  have unlock: "?R (Inr (S None (p(t := Released ?sc))))" if "?R (Inr (S (Some t) p))" "p t = Inside ?sc" for p t
  proof -
    have "section_step ?u True (S (Some t) p) (Inr (S None (p(t := Released ?sc))))"
      using section_step.unlock [of True "S (Some t) p" t ?sc ?u] that(2) by (simp add: S_def mutex_defs)
    with that(1) show ?thesis by (rule section_run.step)
  qed
  have leave: "?R (Inr (S None (p(t := Outside))))" if "?R (Inr (S m p))" "p t = Released ?sc" for p t m
  proof -
    have "section_step ?u True (S m p) (Inr (S None (p(t := Outside))))"
      using section_step.leave [of "S m p" t True ?sc ?u] that(2) by (simp add: S_def mutex_defs)
    with that(1) show ?thesis by (rule section_run.step)
  qed
  have "?R (Inr (S None ?O))" using section_run.start by (simp add: S_def all_outside_def newMutex_def)
  then have "?R (Inr (S None (?O(0 := Released ?sc))))" using enter [of ?O 0] unlock [of 0 "?O(0 := Inside ?sc)"] by simp
  then have "?R (Inr (S None (?O(0 := Outside, 1 := Inside ?sc))))"
    using enter [of _ 1] leave [of "Some 1" "?O(0 := Released ?sc, 1 := Inside ?sc)" 0] by (simp add: fun_upd_twist)
  then have "?R (Inr (S (Some 2) (?O(1 := Inside ?sc, 2 := Inside ?sc))))" using enter [of _ 2] by (simp add: fun_upd_def)
  then show ?thesis by (intro exI [of _ "S (Some 2) (?O(1 := Inside ?sc, 2 := Inside ?sc))"] exI [of _ 1] exI [of _ 2])
      (simp add: inside_def S_def)
qed

end
