(* ===== verification/CriticalSections.thy ===== *)
theory CriticalSections
  imports Mutex EventLoop
begin

text \<open>
  Critical sections on shared data, access by access: any number of threads lock a mutex with
  \<open>ScopeMutex\<close> (\<open>common/mutex.h\<close>), read and write what it protects one access at a time, and unlock
  it. A section is given by its single accesses (\<open>access\<close>), the points where its body is over (\<open>over\<close>)
  and those of them that an explicit \<open>unlock\<close> ends (\<open>explicit\<close>). The locale \<open>critical_section\<close> states
  what the accesses of a body have to do with the operation that the other theories take as one
  step; its lemmas show that the threads then run the operations one after the other. It is
  interpreted on \<open>FdEventGroup::getFdEvent\<close> and on \<open>Eventloop::addTask\<close>.
\<close>

section \<open>Threads and their accesses\<close>

text \<open>
  \<open>sc_local\<close> is where a thread is in its section, with its local variables; \<open>sc_began\<close> is where it
  began, and \<open>sc_calls\<close> has the beginnings and ends of the sections that are over.
\<close>

record ('l, 'd) sections =
  sc_threads :: threads
  sc_data :: 'd
  sc_local :: "tid \<Rightarrow> 'l"
  sc_began :: "tid \<Rightarrow> 'l"
  sc_calls :: "('l \<times> 'l) list"

datatype 'l thread_act = Enter tid 'l | Access tid | Unlock tid | Leave tid

definition no_sections :: "(tid \<Rightarrow> 'l) \<Rightarrow> 'd \<Rightarrow> ('l, 'd) sections" where
  "no_sections loc d = \<lparr>sc_threads = all_outside, sc_data = d, sc_local = loc, sc_began = loc, sc_calls = []\<rparr>"

definition move_to :: "tid \<Rightarrow> place \<Rightarrow> mutex \<Rightarrow> ('l, 'd) sections \<Rightarrow> ('l, 'd) sections" where
  "move_to t p m s = s\<lparr>sc_threads := \<lparr>shared = m, place_of = (place_of (sc_threads s))(t := p)\<rparr>\<rparr>"

definition record_call :: "tid \<Rightarrow> ('l, 'd) sections \<Rightarrow> ('l, 'd) sections" where
  "record_call t s = s\<lparr>sc_calls := sc_calls s @ [(sc_began s t, sc_local s t)]\<rparr>"

text \<open>One action of a thread; \<open>None\<close>: the thread waits or is elsewhere.\<close>

fun section_act ::
  "(mutex \<Rightarrow> mutex cpp) \<Rightarrow> ('l \<Rightarrow> 'd \<Rightarrow> 'l \<times> 'd) \<Rightarrow> ('l \<Rightarrow> bool) \<Rightarrow> ('l \<Rightarrow> bool) \<Rightarrow> 'l thread_act \<Rightarrow>
     ('l, 'd) sections \<Rightarrow> ('l, 'd) sections cpp option" where
  "section_act undef access over explicit (Enter t l) s =
     (case place_of (sc_threads s) t of
        Outside \<Rightarrow>
          map_option (\<lambda>(m, sc). Inr (move_to t (Inside sc) m (s\<lparr>sc_local := (sc_local s)(t := l), sc_began := (sc_began s)(t := l)\<rparr>)))
            (ScopeMutex t (shared (sc_threads s)))
      | _ \<Rightarrow> None)"
| "section_act undef access over explicit (Access t) s =
     (case place_of (sc_threads s) t of
        Inside sc \<Rightarrow>
          if over (sc_local s t) then None
          else
            let (l, d) = access (sc_local s t) (sc_data s)
            in Some (Inr (s\<lparr>sc_local := (sc_local s)(t := l), sc_data := d\<rparr>))
      | _ \<Rightarrow> None)"
| "section_act undef access over explicit (Unlock t) s =
     (case place_of (sc_threads s) t of
        Inside sc \<Rightarrow>
          if over (sc_local s t) \<and> explicit (sc_local s t)
          then Some (map_cpp (\<lambda>m. move_to t (Released sc) m (record_call t s)) (ScopeMutex_unlock undef t sc (shared (sc_threads s))))
          else None
      | _ \<Rightarrow> None)"
| "section_act undef access over explicit (Leave t) s =
     (case place_of (sc_threads s) t of
        Inside sc \<Rightarrow>
          if over (sc_local s t) \<and> \<not> explicit (sc_local s t)
          then Some (map_cpp (\<lambda>(m, _). move_to t Outside m (record_call t s)) (destroyScopeMutex undef t sc (shared (sc_threads s))))
          else None
      | Released sc \<Rightarrow> Some (map_cpp (\<lambda>(m, _). move_to t Outside m s) (destroyScopeMutex undef t sc (shared (sc_threads s))))
      | Outside \<Rightarrow> None)"

fun starts_with :: "('l \<Rightarrow> bool) \<Rightarrow> 'l thread_act \<Rightarrow> bool" where
  "starts_with starts (Enter t l) = starts l"
| "starts_with starts _ = True"

inductive sections_reach ::
  "(mutex \<Rightarrow> mutex cpp) \<Rightarrow> ('l \<Rightarrow> 'd \<Rightarrow> 'l \<times> 'd) \<Rightarrow> ('l \<Rightarrow> bool) \<Rightarrow> ('l \<Rightarrow> bool) \<Rightarrow> ('l \<Rightarrow> bool) \<Rightarrow> 'd \<Rightarrow>
     ('l, 'd) sections cpp \<Rightarrow> bool"
  for undef access over explicit starts d0 where
  reach_start: "sections_reach undef access over explicit starts d0 (Inr (no_sections loc d0))"
| reach_act: "\<lbrakk>sections_reach undef access over explicit starts d0 (Inr s); starts_with starts a;
     section_act undef access over explicit a s = Some r\<rbrakk> \<Longrightarrow> sections_reach undef access over explicit starts d0 r"

text \<open>A schedule: actions of threads, one after the other, up to a fault or a thread that waits.\<close>

fun run_acts ::
  "(mutex \<Rightarrow> mutex cpp) \<Rightarrow> ('l \<Rightarrow> 'd \<Rightarrow> 'l \<times> 'd) \<Rightarrow> ('l \<Rightarrow> bool) \<Rightarrow> ('l \<Rightarrow> bool) \<Rightarrow> 'l thread_act list \<Rightarrow>
     ('l, 'd) sections \<Rightarrow> ('l, 'd) sections cpp option" where
  "run_acts undef access over explicit [] s = Some (Inr s)"
| "run_acts undef access over explicit (a # acts) s =
     (case section_act undef access over explicit a s of
        Some (Inr s') \<Rightarrow> run_acts undef access over explicit acts s'
      | r \<Rightarrow> r)"

lemma reach_acts:
  assumes "sections_reach undef access over explicit starts d0 (Inr s)" and "list_all (starts_with starts) acts"
    and "run_acts undef access over explicit acts s = Some r"
  shows "sections_reach undef access over explicit starts d0 r"
  using assms
proof (induction acts arbitrary: s)
  case (Cons a acts)
  then obtain r1 where r1: "section_act undef access over explicit a s = Some r1"
    by (cases "section_act undef access over explicit a s") auto
  have "sections_reach undef access over explicit starts d0 r1"
    using reach_act [OF Cons.prems(1) _ r1] Cons.prems(2) by simp
  then show ?case using Cons.IH Cons.prems r1 by (cases r1) auto
qed simp

text \<open>The accesses of one thread alone, and operations one after the other, each ending as recorded.\<close>

fun accesses :: "('l \<Rightarrow> 'd \<Rightarrow> 'l \<times> 'd) \<Rightarrow> ('l \<Rightarrow> bool) \<Rightarrow> nat \<Rightarrow> 'l \<times> 'd \<Rightarrow> 'l \<times> 'd" where
  "accesses access over 0 x = x"
| "accesses access over (Suc n) x =
     (let (l, d) = accesses access over n x in if over l then (l, d) else access l d)"

fun serial :: "('l \<Rightarrow> 'd \<Rightarrow> 'l \<times> 'd) \<Rightarrow> ('l \<times> 'l) list \<Rightarrow> 'd \<Rightarrow> 'd option" where
  "serial whole [] d = Some d"
| "serial whole ((l0, l1) # calls) d = (let (l, d') = whole l0 d in if l = l1 then serial whole calls d' else None)"

lemma serial_append:
  "serial whole (calls @ calls') d = Option.bind (serial whole calls d) (serial whole calls')"
  by (induction calls arbitrary: d) (auto simp: Let_def split: prod.splits)

text \<open>Without explicit unlocks, the threads move as in theory \<open>Mutex\<close>.\<close>

lemma act_plain:
  assumes "section_act undef access over (\<lambda>_. False) a s = Some r" and "plain_inv (Inr (sc_threads s))"
  shows "plain_inv (map_cpp sc_threads r)"
proof (cases a)
  case (Enter t l)
  then obtain m sc where o: "place_of (sc_threads s) t = Outside" "ScopeMutex t (shared (sc_threads s)) = Some (m, sc)"
      "map_cpp sc_threads r = Inr ((sc_threads s)\<lparr>shared := m, place_of := (place_of (sc_threads s))(t := Inside sc)\<rparr>)"
    using assms(1) by (auto simp: move_to_def split: place.splits)
  then show ?thesis
    using plain_step [OF section_step.enter [OF o(1,2)] assms(2)] by simp
next
  case (Leave t)
  then obtain sc where p: "place_of (sc_threads s) t = (if False then Released sc else Inside sc)"
      "r = map_cpp (\<lambda>(m, _). move_to t Outside m (record_call t s)) (destroyScopeMutex undef t sc (shared (sc_threads s)))"
    using assms by (fastforce split: place.splits if_splits)
  then have "map_cpp sc_threads r = map_cpp (\<lambda>(m, _). (sc_threads s)\<lparr>shared := m, place_of := (place_of (sc_threads s))(t := Outside)\<rparr>)
      (destroyScopeMutex undef t sc (shared (sc_threads s)))"
    by (cases "destroyScopeMutex undef t sc (shared (sc_threads s))") (auto simp: move_to_def record_call_def)
  then show ?thesis
    using plain_step [OF section_step.leave [of s t False sc undef for s, OF p(1)] assms(2)] by simp
qed (use assms in \<open>auto simp: Let_def split: place.splits if_splits prod.splits\<close>)

section \<open>Sections that end with their scope\<close>

text \<open>
  The data is what the ended sections make of it one after the other, or, when a thread is
  inside, what this thread's accesses since then have made of that.
\<close>

definition serial_inv ::
  "('l \<Rightarrow> 'd \<Rightarrow> 'l \<times> 'd) \<Rightarrow> ('l \<Rightarrow> bool) \<Rightarrow> ('l \<Rightarrow> bool) \<Rightarrow> ('l \<Rightarrow> 'd \<Rightarrow> 'l \<times> 'd) \<Rightarrow> ('d \<Rightarrow> bool) \<Rightarrow> 'd \<Rightarrow>
     ('l, 'd) sections \<Rightarrow> 'd \<Rightarrow> bool" where
  "serial_inv access over starts whole ok d0 s d \<longleftrightarrow>
     plain_inv (Inr (sc_threads s)) \<and> ok d \<and> serial whole (sc_calls s) d0 = Some d \<and>
     (\<forall>(l0, l1) \<in> set (sc_calls s). starts l0) \<and> (owner (shared (sc_threads s)) = None \<longrightarrow> sc_data s = d) \<and>
     (\<forall>t. inside (sc_threads s) t \<longrightarrow> starts (sc_began s t) \<and>
        (\<exists>n. accesses access over n (sc_began s t, d) = (sc_local s t, sc_data s)))"

locale critical_section =
  fixes access :: "'l \<Rightarrow> 'd \<Rightarrow> 'l \<times> 'd" and over :: "'l \<Rightarrow> bool" and starts :: "'l \<Rightarrow> bool"
    and whole :: "'l \<Rightarrow> 'd \<Rightarrow> 'l \<times> 'd" and ok :: "'d \<Rightarrow> bool"
  assumes accesses_whole: "ok d \<Longrightarrow> starts l \<Longrightarrow> accesses access over n (l, d) = (l', d') \<Longrightarrow> over l' \<Longrightarrow> whole l d = (l', d')"
    and accesses_end: "ok d \<Longrightarrow> starts l \<Longrightarrow> \<exists>n. over (fst (accesses access over n (l, d)))"
    and accesses_ok: "ok d \<Longrightarrow> starts l \<Longrightarrow> ok (snd (accesses access over n (l, d)))"
begin

abbreviation inv :: "'d \<Rightarrow> ('l, 'd) sections \<Rightarrow> 'd \<Rightarrow> bool" where
  "inv \<equiv> serial_inv access over starts whole ok"

lemma inv_start: "ok d0 \<Longrightarrow> inv d0 (no_sections loc d0) d0"
  by (auto simp: serial_inv_def no_sections_def all_outside_def newMutex_def inside_def)

lemma inv_owner: "inv d0 s d \<Longrightarrow> inside (sc_threads s) t \<Longrightarrow> owner (shared (sc_threads s)) = Some t"
  by (simp add: serial_inv_def)

lemma inv_enter:
  assumes "inv d0 s d" and "starts l" and "section_act undef access over (\<lambda>_. False) (Enter t l) s = Some r"
  shows "\<exists>s'. r = Inr s' \<and> inv d0 s' d"
proof -
  have p: "plain_inv (map_cpp sc_threads r)"
    using act_plain [OF assms(3)] assms(1) by (simp add: serial_inv_def)
  obtain m sc where r: "place_of (sc_threads s) t = Outside" "ScopeMutex t (shared (sc_threads s)) = Some (m, sc)"
      "r = Inr (move_to t (Inside sc) m (s\<lparr>sc_local := (sc_local s)(t := l), sc_began := (sc_began s)(t := l)\<rparr>))"
    using assms(3) by (auto split: place.splits)
  have free: "owner (shared (sc_threads s)) = None" "owner m = Some t"
    using r(2) by (auto simp: ScopeMutex_def Mutex_lock_def split: if_splits)
  then have out: "\<not> inside (sc_threads s) u" for u
    using inv_owner [OF assms(1)] by force
  have ins: "inside \<lparr>shared = m, place_of = (place_of (sc_threads s))(t := Inside sc)\<rparr> u \<longleftrightarrow> u = t" for u
    using out [of u] by (simp add: inside_def)
  have "accesses access over 0 (l, d) = (l, sc_data s)"
    using assms(1) free(1) by (simp add: serial_inv_def)
  with p free assms(1,2) ins show ?thesis
    unfolding r(3) by (auto simp: serial_inv_def move_to_def simp del: accesses.simps)
qed

lemma inv_access:
  assumes "inv d0 s d" and "section_act undef access over (\<lambda>_. False) (Access t) s = Some r"
  shows "\<exists>s'. r = Inr s' \<and> inv d0 s' d"
proof -
  obtain sc l d' where r: "place_of (sc_threads s) t = Inside sc" "\<not> over (sc_local s t)" "access (sc_local s t) (sc_data s) = (l, d')"
      "r = Inr (s\<lparr>sc_local := (sc_local s)(t := l), sc_data := d'\<rparr>)"
    using assms(2) by (auto simp: Let_def split: place.splits if_splits prod.splits)
  have t: "inside (sc_threads s) u \<longleftrightarrow> u = t" for u
    using inv_owner [OF assms(1)] r(1) by (metis inside_def option.inject)
  obtain n where n: "starts (sc_began s t)" "accesses access over n (sc_began s t, d) = (sc_local s t, sc_data s)"
    using assms(1) t by (auto simp: serial_inv_def)
  then have "accesses access over (Suc n) (sc_began s t, d) = (l, d')"
    using r(2,3) by simp
  then show ?thesis
    using assms(1) t n(1) inv_owner [OF assms(1)] unfolding r(4) serial_inv_def by (auto simp del: accesses.simps)
qed

lemma inv_leave:
  assumes "inv d0 s d" and "section_act undef access over (\<lambda>_. False) (Leave t) s = Some r"
  shows "\<exists>s'. r = Inr s' \<and> inv d0 s' (sc_data s) \<and> owner (shared (sc_threads s')) = None"
proof -
  have p: "plain_inv (map_cpp sc_threads r)"
    using act_plain [OF assms(2)] assms(1) by (simp add: serial_inv_def)
  obtain sc where r: "place_of (sc_threads s) t = Inside sc" "over (sc_local s t)"
      "r = map_cpp (\<lambda>(m, _). move_to t Outside m (record_call t s)) (destroyScopeMutex undef t sc (shared (sc_threads s)))"
    using assms by (fastforce simp: serial_inv_def split: place.splits if_splits)
  have t: "inside (sc_threads s) t" using r(1) by (simp add: inside_def)
  define s' where "s' = move_to t Outside ((shared (sc_threads s))\<lparr>owner := None\<rparr>) (record_call t s)"
  have s': "r = Inr s'"
    using inv_owner [OF assms(1) t] r(3) by (simp add: s'_def mutex_defs)
  obtain n where n: "starts (sc_began s t)" "accesses access over n (sc_began s t, d) = (sc_local s t, sc_data s)"
    using assms(1) t by (auto simp: serial_inv_def)
  moreover have d: "ok d" "serial whole (sc_calls s) d0 = Some d" "\<forall>(l0, l1) \<in> set (sc_calls s). starts l0"
    using assms(1) by (simp_all add: serial_inv_def)
  ultimately have "whole (sc_began s t) d = (sc_local s t, sc_data s)" "ok (sc_data s)"
    using accesses_whole [OF _ _ n(2) r(2)] accesses_ok [of d "sc_began s t" n] by simp_all
  moreover have "owner (shared (sc_threads s')) = None" "\<not> inside (sc_threads s') u" for u
    using p by (auto simp: s' s'_def move_to_def)
  ultimately show ?thesis
    using p d n(1) by (auto simp: s' serial_inv_def) (auto simp: s'_def move_to_def record_call_def serial_append)
qed

lemma inv_act:
  assumes "inv d0 s d" and "starts_with starts a" and "section_act undef access over (\<lambda>_. False) a s = Some r"
  shows "\<exists>s' d'. r = Inr s' \<and> inv d0 s' d'"
proof (cases a)
  case (Enter t l)
  with assms(2) have "starts l" by simp
  then show ?thesis using inv_enter [OF assms(1)] assms(3) unfolding Enter by blast
next
  case (Access t)
  then show ?thesis using inv_access [OF assms(1)] assms(3) by blast
next
  case (Unlock t)
  then show ?thesis using assms(3) by (auto split: place.splits)
next
  case (Leave t)
  then show ?thesis using inv_leave [OF assms(1)] assms(3) by blast
qed

lemma reach_inv:
  assumes "sections_reach undef access over (\<lambda>_. False) starts d0 r" and "ok d0"
  shows "\<exists>s d. r = Inr s \<and> inv d0 s d"
  using assms(1)
proof (induction rule: sections_reach.induct)
  case (reach_start loc)
  then show ?case using inv_start [OF assms(2)] by blast
next
  case (reach_act s a r)
  then show ?case using inv_act by blast
qed

lemma inv_data_ok:
  assumes "inv d0 s d"
  shows "ok (sc_data s)"
proof (cases "owner (shared (sc_threads s))")
  case None
  then show ?thesis using assms by (simp add: serial_inv_def)
next
  case (Some t)
  then have "inside (sc_threads s) t" using assms by (auto simp: serial_inv_def)
  then obtain n where "ok d" "starts (sc_began s t)" "accesses access over n (sc_began s t, d) = (sc_local s t, sc_data s)"
    using assms by (auto simp: serial_inv_def)
  then show ?thesis using accesses_ok [of d "sc_began s t" n] by simp
qed

text \<open>A thread inside its section needs nobody else to end it.\<close>

lemma section_leaves:
  assumes "inv d0 s d" and "place_of (sc_threads s) t = Inside sc" and "over (sc_local s t)"
  shows "\<exists>s'. run_acts undef access over (\<lambda>_. False) (replicate 0 (Access t) @ [Leave t]) s = Some (Inr s') \<and>
    owner (shared (sc_threads s')) = None \<and> sc_calls s' = sc_calls s @ [(sc_began s t, fst (whole (sc_began s t) d))]"
proof -
  have t: "inside (sc_threads s) t" using assms(2) by (simp add: inside_def)
  then obtain n where n: "starts (sc_began s t)" "accesses access over n (sc_began s t, d) = (sc_local s t, sc_data s)" "ok d"
    using assms(1) by (auto simp: serial_inv_def)
  have "whole (sc_began s t) d = (sc_local s t, sc_data s)"
    using accesses_whole [OF n(3,1,2) assms(3)] .
  then show ?thesis
    using assms(2,3) inv_owner [OF assms(1) t] by (simp add: mutex_defs move_to_def record_call_def)
qed

lemma section_finishes:
  assumes "inv d0 s d" and "place_of (sc_threads s) t = Inside sc" and "accesses access over n (sc_began s t, d) = (sc_local s t, sc_data s)"
    and "over (fst (accesses access over (n + k) (sc_began s t, d)))"
  shows "\<exists>j s'. run_acts undef access over (\<lambda>_. False) (replicate j (Access t) @ [Leave t]) s = Some (Inr s') \<and>
    owner (shared (sc_threads s')) = None \<and> sc_calls s' = sc_calls s @ [(sc_began s t, fst (whole (sc_began s t) d))]"
  using assms
proof (induction k arbitrary: s n)
  case 0
  then have "over (sc_local s t)" by simp
  then show ?case using section_leaves [OF 0(1,2)] by blast
next
  case (Suc k)
  show ?case
  proof (cases "over (sc_local s t)")
    case True
    then show ?thesis using section_leaves [OF Suc.prems(1,2)] by blast
  next
    case False
    obtain l d' where a: "access (sc_local s t) (sc_data s) = (l, d')" by (cases "access (sc_local s t) (sc_data s)")
    define s1 where "s1 = s\<lparr>sc_local := (sc_local s)(t := l), sc_data := d'\<rparr>"
    have act: "section_act undef access over (\<lambda>_. False) (Access t) s = Some (Inr s1)"
      using Suc.prems(2) False a by (simp add: s1_def)
    then have "inv d0 s1 d" using inv_access [OF Suc.prems(1)] by blast
    moreover have "accesses access over (Suc n) (sc_began s1 t, d) = (sc_local s1 t, sc_data s1)"
      using Suc.prems(3) False a by (simp add: s1_def)
    moreover have "over (fst (accesses access over (Suc n + k) (sc_began s1 t, d)))"
      using Suc.prems(4) by (simp add: s1_def del: accesses.simps)
    ultimately obtain j s' where "run_acts undef access over (\<lambda>_. False) (replicate j (Access t) @ [Leave t]) s1 = Some (Inr s')"
        "owner (shared (sc_threads s')) = None" "sc_calls s' = sc_calls s @ [(sc_began s t, fst (whole (sc_began s t) d))]"
      using Suc.IH [of s1 "Suc n"] Suc.prems(2) by (auto simp: s1_def)
    moreover have "run_acts undef access over (\<lambda>_. False) (replicate (Suc j) (Access t) @ [Leave t]) s =
        run_acts undef access over (\<lambda>_. False) (replicate j (Access t) @ [Leave t]) s1" for j
      using act by simp
    ultimately show ?thesis by metis
  qed
qed

lemma accesses_stay_over: "over (fst (accesses access over n x)) \<Longrightarrow> over (fst (accesses access over (m + n) x))"
  by (induction m) (auto split: prod.splits)

lemma section_ends:
  assumes "inv d0 s d" and "inside (sc_threads s) t"
  shows "\<exists>j s'. run_acts undef access over (\<lambda>_. False) (replicate j (Access t) @ [Leave t]) s = Some (Inr s') \<and>
    owner (shared (sc_threads s')) = None \<and> sc_calls s' = sc_calls s @ [(sc_began s t, fst (whole (sc_began s t) d))]"
proof -
  obtain sc where "place_of (sc_threads s) t = Inside sc" using assms(2) by (auto simp: inside_def)
  moreover obtain n where n: "starts (sc_began s t)" "accesses access over n (sc_began s t, d) = (sc_local s t, sc_data s)" "ok d"
    using assms by (auto simp: serial_inv_def)
  moreover obtain k where "over (fst (accesses access over (n + k) (sc_began s t, d)))"
    using accesses_end [OF n(3,1)] accesses_stay_over by blast
  ultimately show ?thesis using section_finishes [OF assms(1)] by blast
qed

end

lemma accesses_end_measure:
  assumes "\<And>n. \<not> over (fst (accesses access over n x)) \<Longrightarrow> (\<mu> (accesses access over (Suc n) x) :: nat) < \<mu> (accesses access over n x)"
  shows "\<exists>n. over (fst (accesses access over n x))"
proof (rule ccontr)
  assume "\<nexists>n. over (fst (accesses access over n x))"
  then have dec: "\<mu> (accesses access over (Suc n) x) < \<mu> (accesses access over n x)" for n
    using assms by blast
  have "\<mu> (accesses access over n x) + n \<le> \<mu> (accesses access over 0 x)" for n
  proof (induction n)
    case (Suc n)
    then show ?case using dec [of n] by linarith
  qed simp
  from this [of "Suc (\<mu> (accesses access over 0 x))"] show False by simp
qed

section \<open>The event group\<close>

text \<open>
  \<open>FdEventGroup::getFdEvent\<close>: the comparison with the size, the loop that appends events, the
  indexed access. Its section ends with its scope on every path.
\<close>

datatype get_event = CompareSize int | Append int nat int | Fetch int | Got nat | GetFault fault

fun get_access :: "get_event \<Rightarrow> 'c fd_event_group \<Rightarrow> get_event \<times> 'c fd_event_group" where
  "get_access (CompareSize fd) g =
     (if 0 \<le> fd \<and> fd < int (length (m_fd_group g)) then (Fetch fd, g)
      else case checked_int (scaled_size fd) of
             Inl e \<Rightarrow> (GetFault e, g)
           | Inr new_size \<Rightarrow> (Append fd (length (m_fd_group g)) new_size, g))"
| "get_access (Append fd i new_size) g =
     (if int i < new_size
      then (Append fd (Suc i) new_size, g\<lparr>m_fd_group := m_fd_group g @ [newFd_Event (int i)]\<rparr>)
      else (Fetch fd, g))"
| "get_access (Fetch fd) g =
     (if 0 \<le> fd \<and> fd < int (length (m_fd_group g)) then (Got (nat fd), g) else (GetFault OutOfRange, g))"
| "get_access l g = (l, g)"

fun get_over :: "get_event \<Rightarrow> bool" where
  "get_over (Got i) = True"
| "get_over (GetFault e) = True"
| "get_over _ = False"

fun get_starts :: "get_event \<Rightarrow> bool" where
  "get_starts (CompareSize fd) = (0 \<le> fd \<and> scaled_size fd \<le> INT_MAX)"
| "get_starts _ = False"

fun get_whole :: "get_event \<Rightarrow> 'c fd_event_group \<Rightarrow> get_event \<times> 'c fd_event_group" where
  "get_whole (CompareSize fd) g = (case getFdEvent fd g of Inl e \<Rightarrow> (GetFault e, g) | Inr (i, g') \<Rightarrow> (Got i, g'))"
| "get_whole l g = (l, g)"

text \<open>Where a thread can be, if it started at \<open>g0\<close> and was alone.\<close>

definition appended :: "'c fd_event_group \<Rightarrow> nat \<Rightarrow> 'c fd_event_group" where
  "appended g0 i = g0\<lparr>m_fd_group := m_fd_group g0 @ map (\<lambda>i. newFd_Event (int i)) [length (m_fd_group g0)..<i]\<rparr>"

fun get_inv :: "int \<Rightarrow> 'c fd_event_group \<Rightarrow> get_event \<times> 'c fd_event_group \<Rightarrow> bool" where
  "get_inv fd g0 (CompareSize fd', g) = (fd' = fd \<and> g = g0)"
| "get_inv fd g0 (Append fd' i new_size, g) = (fd' = fd \<and> new_size = scaled_size fd \<and> int (length (m_fd_group g0)) \<le> fd \<and>
     length (m_fd_group g0) \<le> i \<and> i \<le> nat new_size \<and> g = appended g0 i)"
| "get_inv fd g0 (Fetch fd', g) = (fd' = fd \<and> getFdEvent fd g0 = Inr (nat fd, g))"
| "get_inv fd g0 (Got i, g) = (i = nat fd \<and> getFdEvent fd g0 = Inr (nat fd, g))"
| "get_inv fd g0 (GetFault e, g) = False"

lemma scaled_size_more:
  assumes "group_ok g" and "int (length (m_fd_group g)) \<le> fd"
  shows "fd < scaled_size fd"
  using assms by (auto simp: group_ok_def scaled_size_def)

lemma getFdEvent_appended:
  assumes "group_ok g" and "scaled_size fd \<le> INT_MAX" and "int (length (m_fd_group g)) \<le> fd"
  shows "getFdEvent fd g = Inr (nat fd, appended g (nat (scaled_size fd)))"
proof -
  have "0 \<le> fd" "fd < scaled_size fd" using scaled_size_more [OF assms(1,3)] assms(3) by auto
  moreover from this have "INT_MIN \<le> scaled_size fd" by (intro INT_MIN_le_nonneg) simp
  ultimately show ?thesis
    using assms(2,3) by (auto simp: getFdEvent_def appended_def Let_def)
qed

lemma get_access_inv:
  assumes "group_ok g0" and "0 \<le> fd" and "scaled_size fd \<le> INT_MAX" and "get_inv fd g0 (l, g)" and "\<not> get_over l"
  shows "get_inv fd g0 (get_access l g)"
proof (cases l)
  case (CompareSize f)
  then show ?thesis
    using assms scaled_size_more [OF assms(1), of fd] INT_MIN_le_nonneg [of "scaled_size fd"]
    by (auto simp: getFdEvent_def appended_def)
next
  case (Append f i new_size)
  then have i: "f = fd" "new_size = scaled_size fd" "int (length (m_fd_group g0)) \<le> fd" "length (m_fd_group g0) \<le> i"
      "i \<le> nat new_size" "g = appended g0 i"
    using assms(4) by auto
  show ?thesis
  proof (cases "int i < new_size")
    case True
    then show ?thesis using i Append by (auto simp: appended_def)
  next
    case False
    then have "i = nat (scaled_size fd)" using i by simp
    then show ?thesis using i False Append getFdEvent_appended [OF assms(1,3)] by simp
  qed
next
  case (Fetch f)
  obtain g' where "getFdEvent fd g0 = Inr (nat fd, g')" "fd < int (length (m_fd_group g'))"
    using getFdEvent_ok [OF assms(1-3)] by blast
  then show ?thesis using assms(2,4) Fetch by auto
qed (use assms in auto)

lemma get_accesses_inv:
  assumes "group_ok g0" and "get_starts (CompareSize fd)"
  shows "get_inv fd g0 (accesses get_access get_over n (CompareSize fd, g0))"
proof (induction n)
  case (Suc n)
  obtain l g where x: "accesses get_access get_over n (CompareSize fd, g0) = (l, g)" by fastforce
  with Suc get_access_inv [OF assms(1), of fd l g] assms(2) show ?case by simp
qed simp

lemma get_inv_ok:
  assumes "group_ok g0" and "get_starts (CompareSize fd)" and "get_inv fd g0 (l, g)"
  shows "group_ok g"
proof -
  have a: "group_ok (appended g0 i)" if "length (m_fd_group g0) \<le> i" for i
    using assms(1) that by (auto simp: group_ok_def appended_def nth_append)
  obtain g' where "getFdEvent fd g0 = Inr (nat fd, g')" "group_ok g'"
    using getFdEvent_ok [OF assms(1), of fd] assms(2) by auto
  then show ?thesis using assms a by (cases l) auto
qed

fun get_measure :: "get_event \<times> 'c fd_event_group \<Rightarrow> nat" where
  "get_measure (CompareSize fd, g) = 3 + nat (scaled_size fd)"
| "get_measure (Append fd i new_size, g) = 2 + (nat new_size - i)"
| "get_measure (Fetch fd, g) = 1"
| "get_measure (_, g) = 0"

interpretation event_group: critical_section get_access get_over get_starts get_whole group_ok
proof
  fix g :: "'c fd_event_group" and l n l' g'
  assume g: "group_ok g" "get_starts l"
  then obtain fd where l: "l = CompareSize fd" by (cases l) auto
  have inv: "get_inv fd g (accesses get_access get_over n (l, g))" for n
    using get_accesses_inv g unfolding l by blast
  show "get_whole l g = (l', g')" if "accesses get_access get_over n (l, g) = (l', g')" "get_over l'"
    using inv [of n] that by (cases l') (auto simp: l)
  show "group_ok (snd (accesses get_access get_over n (l, g)))"
    using get_inv_ok [OF g(1), of fd] g(2) inv [of n] by (metis l prod.collapse)
  show "\<exists>n. get_over (fst (accesses get_access get_over n (l, g)))"
  proof (rule accesses_end_measure [where \<mu> = get_measure])
    fix n
    assume o: "\<not> get_over (fst (accesses get_access get_over n (l, g)))"
    obtain l1 g1 where x: "accesses get_access get_over n (l, g) = (l1, g1)" by fastforce
    show "get_measure (accesses get_access get_over (Suc n) (l, g)) < get_measure (accesses get_access get_over n (l, g))"
      using inv [of n] o x by (cases l1) (auto simp: checked_int_def)
  qed
qed

section \<open>The task queue\<close>

text \<open>
  \<open>Eventloop::addTask\<close> behind its first check of the stop flag: the second check, whose early return
  leaves the unlocking to the scope, and the \<open>push\<close>, which reads the queue and writes it back. Behind the \<open>push\<close>
  there is an explicit \<open>unlock\<close>. Waking the loop up comes after the section.
\<close>

datatype 'c add_task = CheckStop "'c closure option" | PushTo "'c closure option" "'c closure option list" | Pushed | Refused

fun add_access :: "'c add_task \<Rightarrow> 'c eventloop \<Rightarrow> 'c add_task \<times> 'c eventloop" where
  "add_access (CheckStop cb) l = (if m_stop_flag l then (Refused, l) else (PushTo cb (m_pending_tasks l), l))"
| "add_access (PushTo cb tasks) l = (Pushed, l\<lparr>m_pending_tasks := tasks @ [cb]\<rparr>)"
| "add_access x l = (x, l)"

fun add_over :: "'c add_task \<Rightarrow> bool" where
  "add_over Pushed = True"
| "add_over Refused = True"
| "add_over _ = False"

fun add_explicit :: "'c add_task \<Rightarrow> bool" where
  "add_explicit Pushed = True"
| "add_explicit _ = False"

fun add_starts :: "'c add_task \<Rightarrow> bool" where
  "add_starts (CheckStop cb) = True"
| "add_starts _ = False"

fun add_whole :: "'c add_task \<Rightarrow> 'c eventloop \<Rightarrow> 'c add_task \<times> 'c eventloop" where
  "add_whole (CheckStop cb) l = (if m_stop_flag l then Refused else Pushed, addTask cb False l)"
| "add_whole x l = (x, l)"

lemma add_accesses:
  "accesses add_access add_over n (CheckStop cb, l) =
     (if n = 0 then (CheckStop cb, l)
      else if m_stop_flag l then (Refused, l)
      else if n = 1 then (PushTo cb (m_pending_tasks l), l)
      else (Pushed, l\<lparr>m_pending_tasks := m_pending_tasks l @ [cb]\<rparr>))"
  by (induction n) auto

interpretation task_queue: critical_section add_access add_over add_starts add_whole "\<lambda>_. True"
proof
  fix x :: "'c add_task" and l :: "'c eventloop" and n x' l'
  assume "add_starts x"
  then obtain cb where x: "x = CheckStop cb" by (cases x) auto
  show "add_whole x l = (x', l')" if "accesses add_access add_over n (x, l) = (x', l')" "add_over x'"
    using that unfolding x add_accesses by (auto simp: addTask_def Let_def split: if_splits)
  show "\<exists>n. add_over (fst (accesses add_access add_over n (x, l)))"
    unfolding x add_accesses by (intro exI [of _ 2]) simp
qed simp

section \<open>Properties\<close>

lemma get_calls_results:
  assumes "group_ok g0" and "serial get_whole calls g0 = Some g" and "\<forall>(l0, l1) \<in> set calls. get_starts l0"
    and "(CompareSize fd, l) \<in> set calls"
  shows "l = Got (nat fd)"
  using assms
proof (induction calls arbitrary: g0)
  case (Cons c calls)
  obtain l0 l1 where c: "c = (l0, l1)" by (cases c)
  moreover obtain f where f: "l0 = CompareSize f" "0 \<le> f" "scaled_size f \<le> INT_MAX"
    using Cons.prems(3) c by (cases l0) auto
  moreover obtain g1 where g1: "getFdEvent f g0 = Inr (nat f, g1)" "group_ok g1"
    using getFdEvent_ok [OF Cons.prems(1) f(2,3)] by blast
  ultimately show ?case
    using Cons.IH [OF g1(2)] Cons.prems(2-4) by (auto split: if_splits)
qed simp

text \<open>
  C33. \<open>getFdEvent\<close> acts as one step: however any number of threads interleave their accesses to the
  group, no wrong unlock happens, at most one thread is inside, and the group is what the ended
  calls make of it one after the other in the order of their ends; each of them returns the event
  of its own descriptor, the indices of the group match the descriptors at every moment, and a
  thread that is inside gets out by its own accesses alone.
\<close>

theorem getFdEvent_is_atomic:
  assumes "group_ok g0" and "sections_reach undef get_access get_over (\<lambda>_. False) get_starts g0 r"
  shows "\<exists>s g. r = Inr s \<and> serial get_whole (sc_calls s) g0 = Some g \<and>
     (owner (shared (sc_threads s)) = None \<longrightarrow> sc_data s = g) \<and> group_ok (sc_data s) \<and>
     (\<forall>fd l. (CompareSize fd, l) \<in> set (sc_calls s) \<longrightarrow> l = Got (nat fd)) \<and>
     (\<forall>t. inside (sc_threads s) t \<longrightarrow> owner (shared (sc_threads s)) = Some t \<and>
        (\<exists>j s'. run_acts undef get_access get_over (\<lambda>_. False) (replicate j (Access t) @ [Leave t]) s = Some (Inr s') \<and>
           owner (shared (sc_threads s')) = None))"
proof -
  obtain s g where s: "r = Inr s" and i: "serial_inv get_access get_over get_starts get_whole group_ok g0 s g"
    using event_group.reach_inv [OF assms(2,1)] by blast
  have "group_ok (sc_data s)" using event_group.inv_data_ok [OF i] .
  moreover have "\<forall>fd l. (CompareSize fd, l) \<in> set (sc_calls s) \<longrightarrow> l = Got (nat fd)"
    using get_calls_results [OF assms(1)] i unfolding serial_inv_def by blast
  moreover have "serial get_whole (sc_calls s) g0 = Some g" "owner (shared (sc_threads s)) = None \<longrightarrow> sc_data s = g"
    using i by (simp_all add: serial_inv_def)
  moreover have "\<exists>j s'. run_acts undef get_access get_over (\<lambda>_. False) (replicate j (Access t) @ [Leave t]) s = Some (Inr s') \<and>
      owner (shared (sc_threads s')) = None" if "inside (sc_threads s) t" for t
    using event_group.section_ends [OF i that] by blast
  ultimately show ?thesis
    using s event_group.inv_owner [OF i] by (intro exI [of _ s] exI [of _ g]) simp
qed

definition grow_schedule :: "get_event thread_act list" where
  "grow_schedule = [Enter 1 (CompareSize 3), Access 1, Access 1, Access 1, Access 1, Access 1, Leave 1, Enter 2 (CompareSize 2), Access 2]"

theorem getFdEvent_is_atomic_witness:
  "\<exists>s :: (get_event, nat fd_event_group) sections.
     run_acts Inr get_access get_over (\<lambda>_. False) grow_schedule (no_sections (\<lambda>_. Got 0) (newFdEventGroup 2)) = Some (Inr s) \<and>
     sc_calls s = [(CompareSize 3, Got 3)] \<and> inside (sc_threads s) 2 \<and> group_ok (sc_data s)"
proof -
  obtain s :: "(get_event, nat fd_event_group) sections" where
    s: "run_acts Inr get_access get_over (\<lambda>_. False) grow_schedule (no_sections (\<lambda>_. Got 0) (newFdEventGroup 2)) = Some (Inr s)"
      "sc_calls s = [(CompareSize 3, Got 3)]" "inside (sc_threads s) 2"
    by (simp add: grow_schedule_def no_sections_def all_outside_def newMutex_def mutex_defs move_to_def record_call_def newFdEventGroup_def
        scaled_size_def checked_int_def INT_MIN_def INT_MAX_def inside_def upt_rec)
  have "sections_reach Inr get_access get_over (\<lambda>_. False) get_starts (newFdEventGroup 2) (Inr s)"
    using reach_acts [OF reach_start _ s(1)] by (simp add: grow_schedule_def scaled_size_def INT_MAX_def)
  from getFdEvent_is_atomic [OF _ this] s group_ok_new [of 2] show ?thesis by auto
qed

text \<open>The queue, if the section of \<open>addTask\<close> ended with its scope only: every task of a call is in it, in order.\<close>

lemma serial_pushes:
  assumes "serial add_whole calls l0 = Some l" and "\<forall>(x0, x1) \<in> set calls. add_starts x0"
  shows "m_pending_tasks l = m_pending_tasks l0 @ [cb. (CheckStop cb, Pushed) \<leftarrow> calls]"
  using assms
proof (induction calls arbitrary: l0)
  case (Cons c calls)
  obtain cb x where c: "c = (CheckStop cb, x)"
    using Cons.prems(2) by (cases c, cases "fst c") auto
  then show ?case
    using Cons.IH [of "addTask cb False l0"] Cons.prems by (auto simp: addTask_def Let_def split: if_splits)
qed simp

lemma scoped_addTask_keeps_tasks:
  assumes "sections_reach undef add_access add_over (\<lambda>_. False) add_starts l0 (Inr s)" and "owner (shared (sc_threads s)) = None"
  shows "m_pending_tasks (sc_data s) = m_pending_tasks l0 @ [cb. (CheckStop cb, Pushed) \<leftarrow> sc_calls s]"
  using task_queue.reach_inv [OF assms(1)] assms(2) by (auto simp: serial_inv_def intro!: serial_pushes)

text \<open>
  As the code has it, with an explicit \<open>unlock\<close> and the destructor unlocking once more: on an
  implementation where an unlock frees the mutex whoever holds it, three threads add a task each,
  every call ends, and one of the tasks is lost.
\<close>

definition race_schedule :: "nat add_task thread_act list" where
  "race_schedule = [Enter 0 (CheckStop (Some (User 0))), Access 0, Access 0, Unlock 0,
     Enter 1 (CheckStop (Some (User 1))), Access 1, Leave 0,
     Enter 2 (CheckStop (Some (User 2))), Access 2, Access 2, Access 1, Unlock 1, Unlock 2, Leave 1, Leave 2]"

theorem explicit_unlock_loses_task:
  "\<exists>s. run_acts (\<lambda>m. Inr (m\<lparr>owner := None\<rparr>)) add_access add_over add_explicit race_schedule (no_sections (\<lambda>_. Refused) idle_loop) = Some (Inr s) \<and>
     map snd (sc_calls s) = [Pushed, Pushed, Pushed] \<and> m_pending_tasks (sc_data s) = [Some (User 0), Some (User 1)] \<and>
     (\<forall>t. place_of (sc_threads s) t = Outside)"
  by (simp add: race_schedule_def no_sections_def all_outside_def newMutex_def mutex_defs move_to_def record_call_def idle_loop_def)

end
