(* ===== verification/RpcInterface.thy ===== *)
theory RpcInterface
  imports Prelude
begin

text \<open>
  The object of one call on the server (\<open>net/rpc/rpc_interface.h\<close>, \<open>rpc_interface.cc\<close>), the
  closures that keep it alive (\<open>net/rpc/rpc_closure.h\<close>) and the run time of the thread
  (\<open>common/run_time.h\<close>). An interface is reference counted: \<open>use_count\<close> counts its owner and the
  closures that still hold it. How a callback ends is an input; \<open>setError\<close>, which the generated
  class implements, is recorded, and \<open>handle\<close> of an exception, also user code, returns.
\<close>

section \<open>Interfaces\<close>

text \<open>
  The four objects an interface owns are flags, true while the pointer is set, with a count of how
  often each was deleted. \<open>m_done\<close> is the closure of the dispatcher, which holds no interface and
  whose callback sends the reply.
\<close>

record rpc_interface =
  use_count :: nat
  m_req_base :: bool
  m_rsp_base :: bool
  m_done :: bool
  m_controller :: bool
  del_req :: nat
  del_rsp :: nat
  del_done :: nat
  del_controller :: nat
  replies :: nat
  errors :: "(int \<times> string) list"

definition newRpcInterface :: "bool \<Rightarrow> bool \<Rightarrow> bool \<Rightarrow> bool \<Rightarrow> rpc_interface" where
  "newRpcInterface req rsp done' controller =
     \<lparr>use_count = 1, m_req_base = req, m_rsp_base = rsp, m_done = done', m_controller = controller,
      del_req = 0, del_rsp = 0, del_done = 0, del_controller = 0, replies = 0, errors = []\<rparr>"

definition reply_interface :: "rpc_interface \<Rightarrow> rpc_interface" where
  "reply_interface it = (if m_done it then it\<lparr>replies := replies it + 1\<rparr> else it)"

definition destroy_interface :: "rpc_interface \<Rightarrow> rpc_interface" where
  "destroy_interface it =
     (let it = (if m_req_base it then it\<lparr>del_req := del_req it + 1, m_req_base := False\<rparr> else it);
          it = (if m_rsp_base it then it\<lparr>del_rsp := del_rsp it + 1, m_rsp_base := False\<rparr> else it);
          it = (if m_done it then it\<lparr>del_done := del_done it + 1, m_done := False\<rparr> else it)
      in if m_controller it then it\<lparr>del_controller := del_controller it + 1, m_controller := False\<rparr> else it)"

definition destroyRpcInterface :: "rpc_interface \<Rightarrow> rpc_interface" where
  "destroyRpcInterface it = destroy_interface (reply_interface it)"

text \<open>\<open>shared_ptr::reset\<close> of one reference.\<close>

definition reset_ref :: "rpc_interface \<Rightarrow> rpc_interface" where
  "reset_ref it =
     (let it = it\<lparr>use_count := use_count it - 1\<rparr> in if use_count it = 0 then destroyRpcInterface it else it)"

definition setError :: "int \<Rightarrow> string \<Rightarrow> rpc_interface \<Rightarrow> rpc_interface" where
  "setError code err_info it = it\<lparr>errors := errors it @ [(code, err_info)]\<rparr>"

section \<open>Closures\<close>

text \<open>Whether the closure holds the interface, and whether it has a callback.\<close>

record rpc_closure =
  m_rpc_interface :: bool
  m_cb :: bool

datatype cb_end = Returns | Talon_exception int string | Std_exception | Other_exception

text \<open>The run time of a thread; the pointer to the interface is a flag.\<close>

record run_time =
  rt_msgid :: string
  rt_method_name :: string
  rt_rpc_interface :: bool

definition newRpcClosure :: "bool \<Rightarrow> rpc_interface \<Rightarrow> rpc_closure \<times> rpc_interface" where
  "newRpcClosure cb it = (\<lparr>m_rpc_interface = True, m_cb = cb\<rparr>, it\<lparr>use_count := use_count it + 1\<rparr>)"

text \<open>The error that \<open>Run\<close> sets for the way the callback ended.\<close>

fun cb_error :: "cb_end \<Rightarrow> (int \<times> string) option" where
  "cb_error Returns = None"
| "cb_error (Talon_exception code info) = Some (code, info)"
| "cb_error Std_exception = Some (- 1, ''unkonwn std::exception'')"
| "cb_error Other_exception = Some (- 1, ''unkonwn exception'')"

text \<open>\<open>Run\<close>; the last component tells whether the callback was called.\<close>

definition RpcClosure_Run :: "cb_end \<Rightarrow> run_time \<Rightarrow> rpc_closure \<Rightarrow> rpc_interface \<Rightarrow> run_time \<times> rpc_closure \<times> rpc_interface \<times> bool" where
  "RpcClosure_Run r rt c it =
     (let rt = (if \<not> m_rpc_interface c then rt\<lparr>rt_rpc_interface := m_rpc_interface c\<rparr> else rt);
          err = (if m_cb c then cb_error r else None)
      in if m_rpc_interface c
         then (rt, c\<lparr>m_rpc_interface := False\<rparr>,
               reset_ref (case err of None \<Rightarrow> it | Some (code, info) \<Rightarrow> setError code info it), m_cb c)
         else (rt, c, it, m_cb c))"

definition destroyRpcClosure :: "rpc_closure \<Rightarrow> rpc_interface \<Rightarrow> rpc_interface" where
  "destroyRpcClosure c it = (if m_rpc_interface c then reset_ref it else it)"

section \<open>The life of an interface\<close>

text \<open>
  One call: the interface, whether its creator still holds it, and the closures that exist. Only
  a holder can make a new closure (\<open>shared_from_this\<close>).
\<close>

record call =
  it :: rpc_interface
  owned :: bool
  closures :: "rpc_closure list"
  rt :: run_time

definition new_call :: "run_time \<Rightarrow> bool \<Rightarrow> bool \<Rightarrow> bool \<Rightarrow> bool \<Rightarrow> call" where
  "new_call r req rsp done' controller =
     \<lparr>it = newRpcInterface req rsp done' controller, owned = True, closures = [], rt = r\<rparr>"

text \<open>
  What a program can do with the call. \<open>reply\<close> and \<open>destroy\<close> are public, so a holder can also call
  them itself.
\<close>

datatype call_event =
    NewClosure bool
  | RunClosure nat cb_end
  | DropClosure nat
  | Release
  | Reply
  | Destroy

inductive call_step :: "call_event \<Rightarrow> call \<Rightarrow> call \<Rightarrow> bool" where
  closure: "\<lbrakk>use_count (it s) > 0; newRpcClosure cb (it s) = (c, i)\<rbrakk>
    \<Longrightarrow> call_step (NewClosure cb) s (s\<lparr>it := i, closures := closures s @ [c]\<rparr>)"
| run: "\<lbrakk>k < length (closures s); RpcClosure_Run r (rt s) (closures s ! k) (it s) = (rt', c, i, called)\<rbrakk>
    \<Longrightarrow> call_step (RunClosure k r) s (s\<lparr>it := i, closures := (closures s)[k := c], rt := rt'\<rparr>)"
| drop: "\<lbrakk>closures s = xs @ c # ys; length xs = k\<rbrakk>
    \<Longrightarrow> call_step (DropClosure k) s (s\<lparr>it := destroyRpcClosure c (it s), closures := xs @ ys\<rparr>)"
| release: "owned s \<Longrightarrow> call_step Release s (s\<lparr>it := reset_ref (it s), owned := False\<rparr>)"
| reply: "use_count (it s) > 0 \<Longrightarrow> call_step Reply s (s\<lparr>it := reply_interface (it s)\<rparr>)"
| destroy: "use_count (it s) > 0 \<Longrightarrow> call_step Destroy s (s\<lparr>it := destroy_interface (it s)\<rparr>)"

inductive call_run :: "call \<Rightarrow> call_event list \<Rightarrow> call \<Rightarrow> bool" for s0 where
  start: "call_run s0 [] s0"
| step: "\<lbrakk>call_run s0 es s; call_step e s s'\<rbrakk> \<Longrightarrow> call_run s0 (es @ [e]) s'"

definition holders :: "call \<Rightarrow> nat" where
  "holders s = of_bool (owned s) + length (filter m_rpc_interface (closures s))"

text \<open>How often \<open>reply\<close> was called by hand while there was still somebody to reply to.\<close>

definition asked :: "call_event list \<Rightarrow> nat" where
  "asked es = count_list (takeWhile (\<lambda>e. e \<noteq> Destroy) es) Reply"

lemma asked_snoc [simp]:
  "asked [] = 0" "asked (es @ [e]) = asked es + of_bool (e = Reply \<and> Destroy \<notin> set es)"
proof -
  show "asked (es @ [e]) = asked es + of_bool (e = Reply \<and> Destroy \<notin> set es)"
    by (induction es) (auto simp: asked_def)
qed (simp add: asked_def)

text \<open>
  The state of the interface, from the number of holders \<open>n\<close>, the replies asked for, and whether it
  has been destroyed by hand: its objects are there until then or until the last holder goes, and
  have been deleted once afterwards; the last holder's going replies once more if the closure is
  still there.
\<close>

definition it_inv :: "bool \<Rightarrow> bool \<Rightarrow> bool \<Rightarrow> bool \<Rightarrow> nat \<Rightarrow> bool \<Rightarrow> nat \<Rightarrow> rpc_interface \<Rightarrow> bool" where
  "it_inv req rsp done' controller a destroyed n i \<longleftrightarrow> use_count i = n \<and>
     (let gone = (destroyed \<or> n = 0) in
      m_req_base i = (req \<and> \<not> gone) \<and> m_rsp_base i = (rsp \<and> \<not> gone) \<and> m_done i = (done' \<and> \<not> gone) \<and>
      m_controller i = (controller \<and> \<not> gone) \<and>
      del_req i = of_bool (req \<and> gone) \<and> del_rsp i = of_bool (rsp \<and> gone) \<and> del_done i = of_bool (done' \<and> gone) \<and>
      del_controller i = of_bool (controller \<and> gone)) \<and>
     replies i = (if done' then a + of_bool (n = 0 \<and> \<not> destroyed) else 0)"

lemma destroyRpcInterface_fields [simp]:
  "replies (destroyRpcInterface i) = replies i + of_bool (m_done i)"
  "del_req (destroyRpcInterface i) = del_req i + of_bool (m_req_base i)"
  "del_rsp (destroyRpcInterface i) = del_rsp i + of_bool (m_rsp_base i)"
  "del_done (destroyRpcInterface i) = del_done i + of_bool (m_done i)"
  "del_controller (destroyRpcInterface i) = del_controller i + of_bool (m_controller i)"
  "\<not> m_req_base (destroyRpcInterface i)" "\<not> m_rsp_base (destroyRpcInterface i)"
  "\<not> m_done (destroyRpcInterface i)" "\<not> m_controller (destroyRpcInterface i)"
  "use_count (destroyRpcInterface i) = use_count i" "errors (destroyRpcInterface i) = errors i"
  by (simp_all add: destroyRpcInterface_def reply_interface_def destroy_interface_def Let_def)

lemma reset_ref_inv: "it_inv q p d c a x (Suc n) i \<Longrightarrow> it_inv q p d c a x n (reset_ref i)"
  by (auto simp: it_inv_def reset_ref_def Let_def)

lemma errors_reset_ref [simp]: "errors (reset_ref i) = errors i"
  by (simp add: reset_ref_def Let_def)

lemma setError_inv [simp]: "it_inv q p d c a x n (setError code info i) = it_inv q p d c a x n i"
  by (simp add: it_inv_def setError_def Let_def)

lemma newRpcClosure_inv: "it_inv q p d e a x n i \<Longrightarrow> n > 0 \<Longrightarrow> it_inv q p d e a x (Suc n) (i\<lparr>use_count := Suc (use_count i)\<rparr>)"
  by (simp add: it_inv_def Let_def)

lemma reply_inv: "it_inv q p d e a x n i \<Longrightarrow> n > 0 \<Longrightarrow> it_inv q p d e (a + of_bool (\<not> x)) x n (reply_interface i)"
  by (auto simp: it_inv_def reply_interface_def Let_def)

lemma destroy_inv: "it_inv q p d e a x n i \<Longrightarrow> n > 0 \<Longrightarrow> it_inv q p d e a True n (destroy_interface i)"
  by (auto simp: it_inv_def destroy_interface_def Let_def)

lemma use_count_inv: "it_inv q p d e a x n i \<Longrightarrow> use_count i = n"
  by (simp add: it_inv_def)

lemma Run_cases:
  assumes "RpcClosure_Run r t c i = (t', c', i', called)"
  shows "if m_rpc_interface c
         then c' = c\<lparr>m_rpc_interface := False\<rparr> \<and> (\<exists>j. i' = reset_ref j \<and> (\<forall>q p d c a x n. it_inv q p d c a x n j = it_inv q p d c a x n i))
         else c' = c \<and> i' = i"
  using assms by (auto simp: RpcClosure_Run_def Let_def split: if_splits option.splits)

lemma length_filter_update:
  "k < length xs \<Longrightarrow> P (xs ! k) \<Longrightarrow> \<not> P c \<Longrightarrow> length (filter P xs) = Suc (length (filter P (xs[k := c])))"
  by (induction xs arbitrary: k) (auto split: nat.splits)

lemma call_step_inv:
  assumes "call_step ev s s'" and "it_inv q p d e (asked es) (Destroy \<in> set es) (holders s) (it s)"
  shows "it_inv q p d e (asked (es @ [ev])) (Destroy \<in> set (es @ [ev])) (holders s') (it s')"
  using assms
proof (induction rule: call_step.induct)
  case (closure s cb c i)
  then show ?case
    using newRpcClosure_inv [OF closure(3)] use_count_inv [OF closure(3)]
    by (auto simp: newRpcClosure_def holders_def)
next
  case (run k s r rt' c i called)
  show ?case
  proof (cases "m_rpc_interface (closures s ! k)")
    case True
    have "holders s = Suc (holders (s\<lparr>closures := (closures s)[k := c]\<rparr>))"
      using True Run_cases [OF run(2)] length_filter_update [OF run(1), of m_rpc_interface c] by (simp add: holders_def)
    moreover obtain j where "i = reset_ref j" and "it_inv q p d e (asked es) (Destroy \<in> set es) (holders s) j"
      using True Run_cases [OF run(2)] run(3) by auto
    ultimately show ?thesis using reset_ref_inv by (simp add: holders_def)
  next
    case False
    then show ?thesis using Run_cases [OF run(2)] run(3) by (simp add: holders_def list_update_id)
  qed
next
  case (drop s xs c ys)
  then show ?case by (auto simp: destroyRpcClosure_def holders_def intro: reset_ref_inv)
next
  case (release s)
  then show ?case by (auto simp: holders_def intro: reset_ref_inv)
next
  case (reply s)
  then show ?case using reply_inv [OF reply(2)] use_count_inv [OF reply(2)] by (simp add: holders_def)
next
  case (destroy s)
  then show ?case using destroy_inv [OF destroy(2)] use_count_inv [OF destroy(2)] by (simp add: holders_def)
qed

lemma call_run_inv:
  "call_run (new_call r req rsp done' controller) es s \<Longrightarrow>
     it_inv req rsp done' controller (asked es) (Destroy \<in> set es) (holders s) (it s)"
proof (induction rule: call_run.induct)
  case start
  show ?case by (simp add: new_call_def newRpcInterface_def it_inv_def holders_def)
next
  case (step es s e s')
  from step(2,3) show ?case by (rule call_step_inv)
qed

text \<open>
  C22. What an interface sends and deletes, over its whole life: however closures are created, run
  (more than once, with or without exceptions) and dropped, and whenever \<open>reply\<close> and \<open>destroy\<close> are
  called by hand, the reference count is the number of holders; each object that was given is
  deleted exactly once, by the first \<open>destroy\<close> or else when the last holder goes, and never before;
  and a client is replied to once for every \<open>reply\<close> by hand before that and once more when the last
  holder goes, unless \<open>destroy\<close> was called. So a call that leaves both to the destructor replies
  exactly once, and at the end.
\<close>

theorem interface_lifecycle:
  assumes "call_run (new_call r req rsp done' controller) es s" and "gone \<longleftrightarrow> Destroy \<in> set es \<or> holders s = 0"
  shows "use_count (it s) = holders s \<and>
         del_req (it s) = of_bool (req \<and> gone) \<and> del_rsp (it s) = of_bool (rsp \<and> gone) \<and>
         del_done (it s) = of_bool (done' \<and> gone) \<and> del_controller (it s) = of_bool (controller \<and> gone) \<and>
         replies (it s) = (if done' then asked es + of_bool (Destroy \<notin> set es \<and> holders s = 0) else 0) \<and>
         (Reply \<notin> set es \<and> Destroy \<notin> set es \<longrightarrow> replies (it s) = of_bool (done' \<and> holders s = 0))"
proof -
  have "asked es = 0" if "Reply \<notin> set es"
    using that by (simp add: asked_def count_list_0_iff) (meson set_takeWhileD)
  then show ?thesis
    using call_run_inv [OF assms(1)] assms(2) by (auto simp: it_inv_def Let_def)
qed

definition no_run_time :: run_time where
  "no_run_time = \<lparr>rt_msgid = [], rt_method_name = [], rt_rpc_interface = False\<rparr>"

lemma sample_lives:
  "\<exists>s. call_run (new_call no_run_time True True True True) [Release] s \<and> holders s = 0"
  "\<exists>s. call_run (new_call no_run_time True True True True) [Reply, Release] s \<and> holders s = 0"
proof -
  define s where "s = new_call no_run_time True True True True"
  define t where "t = s\<lparr>it := reply_interface (it s)\<rparr>"
  have o: "owned s" "owned t" "use_count (it s) > 0" "closures s = []" "closures t = []"
    by (simp_all add: s_def t_def new_call_def newRpcInterface_def)
  have "call_run s ([] @ [Release]) (s\<lparr>it := reset_ref (it s), owned := False\<rparr>)"
    by (rule call_run.step [OF call_run.start call_step.release]) (rule o)
  moreover have "call_run s ([] @ [Reply]) t"
    unfolding t_def by (rule call_run.step [OF call_run.start call_step.reply]) (rule o)
  then have "call_run s (([] @ [Reply]) @ [Release]) (t\<lparr>it := reset_ref (it t), owned := False\<rparr>)"
    by (rule call_run.step) (rule call_step.release [OF o(2)])
  ultimately show "\<exists>s. call_run (new_call no_run_time True True True True) [Release] s \<and> holders s = 0"
    "\<exists>s. call_run (new_call no_run_time True True True True) [Reply, Release] s \<and> holders s = 0"
    using o(4,5) by (force simp: s_def [symmetric] holders_def)+
qed

theorem interface_lifecycle_witness:
  "\<exists>s. call_run (new_call no_run_time True True True True) [Release] s \<and> holders s = 0 \<and>
     replies (it s) = 1 \<and> del_req (it s) = 1 \<and> del_done (it s) = 1"
proof -
  obtain s where s: "call_run (new_call no_run_time True True True True) [Release] s" "holders s = 0"
    using sample_lives(1) by blast
  from interface_lifecycle [OF s(1) refl] s show ?thesis by auto
qed

text \<open>
  The comment of \<open>reply\<close> asks the user to call it when the response is to be sent. Then the
  client gets the response twice, because the destructor replies again.
\<close>

lemma reply_by_hand_is_repeated:
  "\<exists>s. call_run (new_call no_run_time True True True True) [Reply, Release] s \<and> replies (it s) = 2"
proof -
  obtain s where s: "call_run (new_call no_run_time True True True True) [Reply, Release] s" "holders s = 0"
    using sample_lives(2) by blast
  then have "replies (it s) = 2"
    using call_run_inv [OF s(1)] by (simp add: it_inv_def asked_def)
  with s show ?thesis by blast
qed

text \<open>
  The comment of \<open>Run\<close> says that the run time is set to the interface of the closure. The condition
  is inverted: no \<open>Run\<close> ever sets it, and one without an interface clears it.
\<close>

lemma Run_never_sets_run_time:
  assumes "RpcClosure_Run r t c i = (t', c', i', called)" and "\<not> rt_rpc_interface t"
  shows "\<not> rt_rpc_interface t'"
  using assms by (auto simp: RpcClosure_Run_def Let_def split: if_splits)

text \<open>
  An exception of the callback never leaves \<open>Run\<close> and reaches the response: the first run of a
  closure that holds the interface records exactly the error of the way the callback ended, and
  gives the interface up, so that a second run sets no error and releases nothing.
\<close>

theorem closure_reports_error:
  assumes "m_rpc_interface c" and "m_cb c" and "RpcClosure_Run r t c i = (t', c', i', called)"
  shows "errors i' = errors i @ (case cb_error r of None \<Rightarrow> [] | Some e \<Rightarrow> [e]) \<and> called \<and>
         (\<exists>t''. RpcClosure_Run r' t' c' i' = (t'', c', i', True))"
proof -
  have "c' = c\<lparr>m_rpc_interface := False\<rparr>" and "called"
    and i': "i' = reset_ref (case cb_error r of None \<Rightarrow> i | Some (code, info) \<Rightarrow> setError code info i)"
    using assms by (auto simp: RpcClosure_Run_def Let_def)
  moreover have "errors i' = errors i @ (case cb_error r of None \<Rightarrow> [] | Some e \<Rightarrow> [e])"
    by (cases "cb_error r") (auto simp: i' setError_def)
  ultimately show ?thesis using assms(2) by (simp add: RpcClosure_Run_def Let_def)
qed

theorem closure_reports_error_witness:
  "\<exists>t' c' i' called. RpcClosure_Run Std_exception \<lparr>rt_msgid = [], rt_method_name = [], rt_rpc_interface = False\<rparr> \<lparr>m_rpc_interface = True, m_cb = True\<rparr> (newRpcInterface True True True True) = (t', c', i', called) \<and>
     errors i' = [(- 1, ''unkonwn std::exception'')]"
proof -
  let ?t = "\<lparr>rt_msgid = [], rt_method_name = [], rt_rpc_interface = False\<rparr>"
  let ?c = "\<lparr>m_rpc_interface = True, m_cb = True\<rparr>" and ?i = "newRpcInterface True True True True"
  obtain t' c' i' called where run: "RpcClosure_Run Std_exception ?t ?c ?i = (t', c', i', called)"
    by (cases "RpcClosure_Run Std_exception ?t ?c ?i") auto
  then show ?thesis
    using closure_reports_error [OF _ _ run, of Returns] by (auto simp: newRpcInterface_def)
qed

end
