(* ===== verification/Lifetimes.thy ===== *)
theory Lifetimes
  imports TcpServer RpcInterface
begin

text \<open>
  What a process creates once and what the destructors release: the process-wide and thread-wide
  objects (\<open>net/fd_event_group.cc\<close>, \<open>net/rpc/rpc_dispatcher.cc\<close>, \<open>common/run_time.cc\<close>), the identity of
  threads (\<open>common/util.cc\<close>, \<open>Eventloop::isInLoopThread\<close>) and the destructors of the classes that own
  descriptors, events or threads. A new object is an argument, so that two objects can be told apart.
\<close>

section \<open>Objects that exist once\<close>

definition GetFdEventGroup :: "'a \<Rightarrow> 'a option \<Rightarrow> 'a \<times> 'a option" where
  "GetFdEventGroup fresh g_fd_event_group =
     (case g_fd_event_group of Some g \<Rightarrow> (g, g_fd_event_group) | None \<Rightarrow> (fresh, Some fresh))"

definition GetRpcDispatcher :: "'a \<Rightarrow> 'a option \<Rightarrow> 'a \<times> 'a option" where
  "GetRpcDispatcher fresh g_rpc_dispatcher =
     (case g_rpc_dispatcher of Some d \<Rightarrow> (d, g_rpc_dispatcher) | None \<Rightarrow> (fresh, Some fresh))"

text \<open>The run time is an object of the calling thread.\<close>

definition GetRunTime :: "'a \<Rightarrow> 'a option \<Rightarrow> 'a \<times> 'a option" where
  "GetRunTime fresh t_run_time = (case t_run_time of Some r \<Rightarrow> (r, t_run_time) | None \<Rightarrow> (fresh, Some fresh))"

fun get_calls :: "('a \<Rightarrow> 'a option \<Rightarrow> 'a \<times> 'a option) \<Rightarrow> 'a list \<Rightarrow> 'a option \<Rightarrow> 'a list" where
  "get_calls get [] g = []"
| "get_calls get (fresh # news) g = (case get fresh g of (x, g') \<Rightarrow> x # get_calls get news g')"

locale singleton =
  fixes get :: "'a \<Rightarrow> 'a option \<Rightarrow> 'a \<times> 'a option"
  assumes get_first: "get fresh None = (fresh, Some fresh)"
    and get_again: "get fresh (Some x) = (x, Some x)"
begin

lemma existing_object: "get_calls get news (Some x) = replicate (length news) x"
  by (induction news) (simp_all add: get_again)

lemma one_object: "get_calls get (fresh # news) None = replicate (Suc (length news)) fresh"
  by (simp add: get_first existing_object)

end

interpretation event_group: singleton GetFdEventGroup
  by unfold_locales (simp_all add: GetFdEventGroup_def)

interpretation rpc_dispatcher: singleton GetRpcDispatcher
  by unfold_locales (simp_all add: GetRpcDispatcher_def)

interpretation thread_run_time: singleton GetRunTime
  by unfold_locales (simp_all add: GetRunTime_def)

section \<open>Threads\<close>

text \<open>The caches of the two ids; no function of the program stores anything in them.\<close>

record id_cache =
  g_pid :: int
  t_thread_id :: int

definition new_id_cache :: id_cache where
  "new_id_cache = \<lparr>g_pid = 0, t_thread_id = 0\<rparr>"

definition get_pid :: "int \<Rightarrow> id_cache \<Rightarrow> int" where
  "get_pid getpid c = (if g_pid c \<noteq> 0 then g_pid c else getpid)"

definition get_thread_id :: "int \<Rightarrow> id_cache \<Rightarrow> int" where
  "get_thread_id gettid c = (if t_thread_id c \<noteq> 0 then t_thread_id c else gettid)"

definition isInLoopThread :: "int \<Rightarrow> int \<Rightarrow> id_cache \<Rightarrow> bool" where
  "isInLoopThread m_thread_id gettid c \<longleftrightarrow> get_thread_id gettid c = m_thread_id"

text \<open>A call is made on the thread of the loop exactly if the kernel's thread ids are the same.\<close>

lemma isInLoopThread_iff:
  assumes "m_thread_id = get_thread_id creator new_id_cache"
  shows "isInLoopThread m_thread_id gettid new_id_cache \<longleftrightarrow> gettid = creator"
  using assms by (simp add: isInLoopThread_def get_thread_id_def new_id_cache_def)

section \<open>Descriptors\<close>

text \<open>\<open>if (m_fd >= 0) { close(m_fd); m_fd = -1; }\<close>: the descriptor afterwards and what is closed.\<close>

definition destroyTimer :: "int \<Rightarrow> int \<times> int list" where
  "destroyTimer m_fd = (if 0 \<le> m_fd then (- 1, [m_fd]) else (m_fd, []))"

definition destroyWakeUpFdEvent :: "int \<Rightarrow> int \<times> int list" where
  "destroyWakeUpFdEvent m_fd = (if 0 \<le> m_fd then (- 1, [m_fd]) else (m_fd, []))"

definition destroyTcpAcceptor :: "tcp_acceptor \<Rightarrow> tcp_acceptor \<times> int list" where
  "destroyTcpAcceptor a =
     (if 0 \<le> m_listenfd a then (a\<lparr>m_listenfd := - 1\<rparr>, [m_listenfd a]) else (a, []))"

text \<open>The destructor of the loop closes its epoll instance and destroys the wakeup event and the timer.\<close>

lemma destroyEventloop_descriptors:
  assumes "own_fds th = [epoll_fd, wake_fd, timer_fd]"
  shows "thread_loop.closed_fds (snd (destroyEventloop th)) =
     thread_loop.closed_fds th @ (if 0 \<le> epoll_fd then [epoll_fd] else []) @
       snd (destroyWakeUpFdEvent wake_fd) @ snd (destroyTimer timer_fd)"
  using assms by (simp add: destroyEventloop_def destroyWakeUpFdEvent_def destroyTimer_def)

text \<open>The events of the group: the destructor frees as many as the constructor made.\<close>

definition destroyFdEventGroup :: "'c fd_event_group \<Rightarrow> 'c fd_event list \<times> 'c fd_event list" where
  "destroyFdEventGroup g = (take (nat (feg_size g)) (m_fd_group g), drop (nat (feg_size g)) (m_fd_group g))"

text \<open>
  The second component is what is never freed: \<open>getFdEvent\<close> appends to the group without changing
  \<open>m_size\<close>, so every event it has added is leaked.
\<close>

lemma grown_group_leaks:
  assumes "128 \<le> fd" and "scaled_size fd \<le> INT_MAX" and "getFdEvent fd (newFdEventGroup 128) = Inr (i, g)"
  shows "length (fst (destroyFdEventGroup g)) = 128 \<and> length (snd (destroyFdEventGroup g)) = nat (scaled_size fd) - 128"
proof -
  have "INT_MIN \<le> scaled_size fd" "128 \<le> nat (scaled_size fd)"
    using assms(1) by (auto simp: scaled_size_def intro!: INT_MIN_le_nonneg)
  then show ?thesis
    using assms by (auto simp: getFdEvent_def newFdEventGroup_def destroyFdEventGroup_def Let_def bind_cpp_eq_Inr split: if_splits)
qed

section \<open>Connections\<close>

text \<open>The destructor clears the connection and frees its codec.\<close>

definition destroyTcpConnection :: "'d tcp_connection \<Rightarrow> 'd tcp_connection" where
  "destroyTcpConnection c = clear c"

section \<open>Threads and their group\<close>

text \<open>
  Destroying a thread from another one: it is stopped and joined, and then its loop, which has
  stopped, is destroyed.
\<close>

definition destroyIOThread ::
  "(nat \<Rightarrow> int) \<Rightarrow> ('e \<Rightarrow> 'e loop_call list) \<Rightarrow> thread_kernel \<Rightarrow> 'e io_thread \<Rightarrow> 'e io_thread option" where
  "destroyIOThread clock behaviour kern t =
     map_option (\<lambda>t. t\<lparr>it_event_loop := stop (it_event_loop t)\<rparr>) (join_thread clock behaviour kern False (stop_thread t))"

definition destroyIOThreadGroup ::
  "(nat \<Rightarrow> int) \<Rightarrow> ('e \<Rightarrow> 'e loop_call list) \<Rightarrow> (nat \<Rightarrow> thread_kernel) \<Rightarrow> 'e io_thread_group \<Rightarrow>
     ('e io_thread_group \<times> 'e io_thread option list) option" where
  "destroyIOThreadGroup clock behaviour kern g =
     map_option (\<lambda>g. (g\<lparr>m_io_thread_groups := []\<rparr>, map (destroyIOThread clock behaviour ([], [])) (m_io_thread_groups g)))
       (join_group clock behaviour kern (stop_group g))"

text \<open>
  The group stops and joins its threads and so does the destructor of each thread; the guards of
  both operations make sure that a thread is joined exactly once and that the second join does not wait.
\<close>

lemma destroyed_group_joins_once:
  assumes "\<forall>t \<in> set (m_io_thread_groups g). thread_ok t" and "\<forall>i. set (fst (kern i)) \<subseteq> {EINTR_SEM}"
  shows "\<exists>g' ts. destroyIOThreadGroup clock behaviour kern g = Some (g', map Some ts) \<and>
     (\<forall>t \<in> set ts. pthread_joins t = 1 \<and> m_stop_flag (it_event_loop t))"
proof -
  define threads where "threads = map stop_thread (m_io_thread_groups g)"
  have "\<forall>t \<in> set threads. thread_ok t \<and> m_stop_flag (it_event_loop t) \<and> m_started t"
    using assms(1) thread_ok_step [of _ StopThread] by (auto simp: threads_def stop_thread_stops)
  then obtain ts where ts: "join_from clock behaviour kern 0 threads = Some ts"
      "\<forall>t \<in> set ts. m_joined t \<and> pthread_joins t = 1"
    using join_from_stopped [of threads kern clock behaviour 0] assms(2) by auto
  define f where "f = (\<lambda>t :: 'a io_thread. (stop_thread t)\<lparr>it_event_loop := stop (it_event_loop (stop_thread t))\<rparr>)"
  have "destroyIOThread clock behaviour ([], []) t = Some (f t)" if "t \<in> set ts" for t
    using that ts(2) by (simp add: destroyIOThread_def join_thread_def stop_thread_stops f_def)
  then have "map (destroyIOThread clock behaviour ([], [])) ts = map Some (map f ts)" by simp
  moreover have "\<forall>t \<in> set (map f ts). pthread_joins t = 1 \<and> m_stop_flag (it_event_loop t)"
    using ts(2) by (auto simp: f_def stop_thread_def Let_def)
  ultimately show ?thesis
    using ts(1) by (auto simp: destroyIOThreadGroup_def join_group_def stop_group_def threads_def intro!: exI [of _ "map f ts"])
qed

end
