(* ===== verification/Log.thy ===== *)
theory Log
  imports Config
begin

text \<open>
  Logging (\<open>common/log.h\<close>, \<open>common/log.cc\<close>). Log macros push lines into a buffer of the logger,
  a timer moves the buffer as one batch into the queue of an asynchronous logger, and the thread
  of that logger prints the batches. There are two such channels, for the framework and for the
  application. Critical sections are atomic steps, so the runs are
  those in which they do not overlap; \<open>tmp_vec\<close> and \<open>tmp_vec2\<close> are the locals of the
  one \<open>syncLoop\<close> in progress. Formatted texts, dates and the result of \<open>fopen\<close> are inputs.
\<close>

section \<open>Levels and lines\<close>

datatype log_level = Unknown | Debug | Info | Error

fun level_value :: "log_level \<Rightarrow> nat" where
  "level_value Unknown = 0"
| "level_value Debug = 1"
| "level_value Info = 2"
| "level_value Error = 3"

fun LogLevelToString :: "log_level \<Rightarrow> string" where
  "LogLevelToString Debug = ''DEBUG''"
| "LogLevelToString Info = ''INFO''"
| "LogLevelToString Error = ''ERROR''"
| "LogLevelToString Unknown = ''UNKNOWN''"

definition StringToLogLevel :: "string \<Rightarrow> log_level" where
  "StringToLogLevel s =
     (if s = ''DEBUG'' then Debug else if s = ''INFO'' then Info else if s = ''ERROR'' then Error else Unknown)"

text \<open>The six macros, the level of the lines they produce and the guard on the level that is set.\<close>

datatype log_macro = DEBUGLOG | INFOLOG | ERRORLOG | APPDEBUGLOG | APPINFOLOG | APPERRORLOG

fun macro_level :: "log_macro \<Rightarrow> log_level" where
  "macro_level DEBUGLOG = Debug"
| "macro_level INFOLOG = Info"
| "macro_level ERRORLOG = Error"
| "macro_level APPDEBUGLOG = Debug"
| "macro_level APPINFOLOG = Info"
| "macro_level APPERRORLOG = Error"

fun is_app :: "log_macro \<Rightarrow> bool" where
  "is_app APPDEBUGLOG = True"
| "is_app APPINFOLOG = True"
| "is_app APPERRORLOG = True"
| "is_app _ = False"

definition log_enabled :: "log_macro \<Rightarrow> log_level \<Rightarrow> bool" where
  "log_enabled m set_level \<longleftrightarrow>
     (m = DEBUGLOG \<longrightarrow> level_value set_level \<noteq> 0) \<and> level_value set_level \<le> level_value (macro_level m)"

text \<open>\<open>snprintf\<close> gives the text, or \<open>None\<close> for a negative size.\<close>

definition formatString :: "string option \<Rightarrow> string" where
  "formatString r = (case r of None \<Rightarrow> [] | Some s \<Rightarrow> s)"

text \<open>What \<open>LogEvent::toString\<close> reads: the clock, the ids of process and thread, the run time.\<close>

record log_context =
  lc_time :: string
  lc_usec :: int
  lc_pid :: int
  lc_thread_id :: int
  lc_msgid :: string
  lc_method_name :: string

definition LogEvent_toString :: "log_level \<Rightarrow> log_context \<Rightarrow> string" where
  "LogEvent_toString level x =
     (let ms = lc_usec x div 1000; time_str = lc_time x @ ''.'' @ to_string ms in
      ''['' @ LogLevelToString level @ '']'' @ [CHR 0x09] @ ''['' @ time_str @ '']'' @ [CHR 0x09] @
      ''['' @ to_string (lc_pid x) @ '':'' @ to_string (lc_thread_id x) @ '']'' @ [CHR 0x09] @
      (if lc_msgid x \<noteq> [] then ''['' @ lc_msgid x @ '']'' @ [CHR 0x09] else []) @
      (if lc_method_name x \<noteq> [] then ''['' @ lc_method_name x @ '']'' @ [CHR 0x09] else []))"

definition macro_line :: "log_macro \<Rightarrow> log_context \<Rightarrow> string \<Rightarrow> int \<Rightarrow> string option \<Rightarrow> string" where
  "macro_line m x file_name line formatted =
     LogEvent_toString (macro_level m) x @ ''['' @ file_name @ '':'' @ to_string line @ '']'' @ [CHR 0x09] @
     formatString formatted @ [CHR 0x0A]"

section \<open>The asynchronous logger\<close>

record async_logger =
  al_buffer :: "string list list"
  al_file_name :: string
  al_file_path :: string
  m_max_file_size :: int
  m_date :: string
  m_file_hanlder :: "string option"
  m_reopen_flag :: bool
  m_no :: int
  al_stop_flag :: bool
  al_running :: bool
  printed :: "string list"

definition newAsyncLogger :: "string \<Rightarrow> string \<Rightarrow> int \<Rightarrow> async_logger" where
  "newAsyncLogger file_name file_path max_size =
     \<lparr>al_buffer = [], al_file_name = file_name, al_file_path = file_path, m_max_file_size = max_size, m_date = [],
      m_file_hanlder = None, m_reopen_flag = False, m_no = 0, al_stop_flag = False, al_running = True, printed = []\<rparr>"

definition pushLogBuffer :: "string list \<Rightarrow> async_logger \<Rightarrow> async_logger" where
  "pushLogBuffer vec al = al\<lparr>al_buffer := al_buffer al @ [vec]\<rparr>"

definition stop_logger :: "async_logger \<Rightarrow> async_logger" where
  "stop_logger al = al\<lparr>al_stop_flag := True\<rparr>"

definition log_file_name :: "string \<Rightarrow> async_logger \<Rightarrow> string" where
  "log_file_name date al = al_file_path al @ al_file_name al @ ''_'' @ date @ ''_log.'' @ to_string (m_no al)"

text \<open>The choice of the log file for a batch that is handled on a date; \<open>fopen\<close> succeeds or not.\<close>

definition reopen_file :: "string \<Rightarrow> bool \<Rightarrow> async_logger \<Rightarrow> async_logger" where
  "reopen_file date fopen_ok al =
     (let al = (if date \<noteq> m_date al then al\<lparr>m_no := 0, m_reopen_flag := True, m_date := date\<rparr> else al);
          al = (if m_file_hanlder al = None then al\<lparr>m_reopen_flag := True\<rparr> else al);
          name = log_file_name date al
      in if m_reopen_flag al
         then al\<lparr>m_file_hanlder := (if fopen_ok then Some name else None), m_reopen_flag := False\<rparr>
         else al)"

text \<open>
  One iteration of \<open>AsyncLogger::Loop\<close>; \<open>None\<close> is a thread that waits on the condition variable or
  that has returned.
\<close>

definition Loop_iteration :: "string \<Rightarrow> bool \<Rightarrow> async_logger \<Rightarrow> async_logger option" where
  "Loop_iteration date fopen_ok al =
     (if \<not> al_running al then None
      else
        case al_buffer al of
          [] \<Rightarrow> None
        | tmp # rest \<Rightarrow>
            let al = reopen_file date fopen_ok (al\<lparr>al_buffer := rest\<rparr>);
                al = al\<lparr>printed := printed al @ filter (\<lambda>i. i \<noteq> []) tmp\<rparr>
            in Some (if al_stop_flag al then al\<lparr>al_running := False\<rparr> else al))"

section \<open>The logger\<close>

text \<open>
  Signals with a handler, and the timer event of the logger: its interval and whether it repeats.
\<close>

datatype posix_signal = SIGSEGV | SIGABRT | SIGTERM | SIGKILL | SIGINT | SIGSTKFLT

record logger =
  m_set_level :: log_level
  m_type :: int
  lg_buffer :: "string list"
  m_app_buffer :: "string list"
  m_asnyc_logger :: "async_logger option"
  m_asnyc_app_logger :: "async_logger option"
  tmp_vec :: "string list"
  tmp_vec2 :: "string list"
  console :: "string list"
  m_timer_event :: "(int \<times> bool) option"
  signals :: "posix_signal set"

definition newLogger :: "log_level \<Rightarrow> int \<Rightarrow> config \<Rightarrow> logger" where
  "newLogger level type cfg =
     (let l = \<lparr>m_set_level = level, m_type = type, lg_buffer = [], m_app_buffer = [], m_asnyc_logger = None,
               m_asnyc_app_logger = None, tmp_vec = [], tmp_vec2 = [], console = [], m_timer_event = None, signals = {}\<rparr>
      in if type = 0 then l
         else l\<lparr>m_asnyc_logger := Some (newAsyncLogger (m_log_file_name cfg @ ''_rpc'') (m_log_file_path cfg) (m_log_max_file_size cfg)),
                m_asnyc_app_logger := Some (newAsyncLogger (m_log_file_name cfg @ ''_app'') (m_log_file_path cfg) (m_log_max_file_size cfg))\<rparr>)"

text \<open>\<open>Logger::init\<close>; the handler of \<open>SIGKILL\<close> is refused by the system.\<close>

definition init_logger :: "config \<Rightarrow> logger \<Rightarrow> logger" where
  "init_logger cfg l =
     (if m_type l = 0 then l
      else l\<lparr>m_timer_event := Some (m_log_sync_inteval cfg, True),
             signals := {SIGSEGV, SIGABRT, SIGTERM, SIGINT, SIGSTKFLT}\<rparr>)"

definition InitGlobalLogger :: "config \<Rightarrow> int \<Rightarrow> logger" where
  "InitGlobalLogger cfg type = init_logger cfg (newLogger (StringToLogLevel (m_log_level cfg)) type cfg)"

text \<open>
  With type 0 the line goes to the console as the format string of \<open>printf\<close>; the model takes it
  for a text without conversion specifications.
\<close>

definition pushLog :: "string \<Rightarrow> logger \<Rightarrow> logger" where
  "pushLog msg l =
     (if m_type l = 0 then l\<lparr>console := console l @ [msg @ [CHR 0x0A]]\<rparr>
      else l\<lparr>lg_buffer := lg_buffer l @ [msg]\<rparr>)"

definition pushAppLog :: "string \<Rightarrow> logger \<Rightarrow> logger" where
  "pushAppLog msg l = l\<lparr>m_app_buffer := m_app_buffer l @ [msg]\<rparr>"

definition run_macro :: "log_macro \<Rightarrow> log_context \<Rightarrow> string \<Rightarrow> int \<Rightarrow> string option \<Rightarrow> logger \<Rightarrow> logger" where
  "run_macro m x file_name line formatted l =
     (if log_enabled m (m_set_level l)
      then (if is_app m then pushAppLog else pushLog) (macro_line m x file_name line formatted) l
      else l)"

text \<open>The four critical sections of \<open>syncLoop\<close>.\<close>

definition sync_take :: "logger \<Rightarrow> logger" where
  "sync_take l = l\<lparr>tmp_vec := lg_buffer l, lg_buffer := []\<rparr>"

definition sync_put :: "logger \<Rightarrow> logger cpp" where
  "sync_put l =
     (if tmp_vec l = [] then Inr l
      else case m_asnyc_logger l of
             None \<Rightarrow> Inl NullPointer
           | Some al \<Rightarrow> Inr (l\<lparr>m_asnyc_logger := Some (pushLogBuffer (tmp_vec l) al), tmp_vec := []\<rparr>))"

definition sync_take_app :: "logger \<Rightarrow> logger" where
  "sync_take_app l = l\<lparr>tmp_vec2 := m_app_buffer l, m_app_buffer := []\<rparr>"

definition sync_put_app :: "logger \<Rightarrow> logger cpp" where
  "sync_put_app l =
     (if tmp_vec2 l = [] then Inr l
      else case m_asnyc_app_logger l of
             None \<Rightarrow> Inl NullPointer
           | Some al \<Rightarrow> Inr (l\<lparr>m_asnyc_app_logger := Some (pushLogBuffer (tmp_vec2 l) al), tmp_vec2 := []\<rparr>))"

definition syncLoop :: "logger \<Rightarrow> logger cpp" where
  "syncLoop l = bind_cpp (sync_put (sync_take l)) (\<lambda>l. sync_put_app (sync_take_app l))"

text \<open>\<open>Logger::flush\<close>; flushing the file handles changes nothing of the model.\<close>

definition flush_logger :: "logger \<Rightarrow> logger cpp" where
  "flush_logger l =
     bind_cpp (syncLoop l) (\<lambda>l.
       case (m_asnyc_logger l, m_asnyc_app_logger l) of
         (Some al, Some app) \<Rightarrow> Inr (l\<lparr>m_asnyc_logger := Some (stop_logger al), m_asnyc_app_logger := Some (stop_logger app)\<rparr>)
       | _ \<Rightarrow> Inl NullPointer)"

text \<open>\<open>CoredumpHandler\<close> up to the two joins: log a line, then flush.\<close>

definition CoredumpHandler :: "log_context \<Rightarrow> string \<Rightarrow> int \<Rightarrow> logger \<Rightarrow> logger cpp" where
  "CoredumpHandler x file_name line l =
     flush_logger (run_macro ERRORLOG x file_name line (Some ''progress received invalid signal, will exit'') l)"

text \<open>The thread of an asynchronous logger, run for a sequence of dates and results of \<open>fopen\<close>.\<close>

fun run_writer :: "(string \<times> bool) list \<Rightarrow> async_logger \<Rightarrow> async_logger" where
  "run_writer [] al = al"
| "run_writer ((date, ok) # ds) al =
     (case Loop_iteration date ok al of None \<Rightarrow> al | Some al' \<Rightarrow> run_writer ds al')"

section \<open>Steps of the logging system\<close>

text \<open>
  The threads that log, the timer that synchronises and the two writers interleave. A step of
  \<open>syncLoop\<close> that fills a local vector needs that vector to be fresh.
\<close>

datatype log_op =
    Log_line log_macro log_context string int "string option"
  | Sync_take | Sync_put | Sync_take_app | Sync_put_app
  | Writer string bool | App_writer string bool

inductive log_step :: "log_op \<Rightarrow> logger \<Rightarrow> logger \<Rightarrow> bool" where
  log: "log_step (Log_line m x file_name line formatted) l (run_macro m x file_name line formatted l)"
| take: "tmp_vec l = [] \<Longrightarrow> log_step Sync_take l (sync_take l)"
| put: "sync_put l = Inr l' \<Longrightarrow> log_step Sync_put l l'"
| take_app: "tmp_vec2 l = [] \<Longrightarrow> log_step Sync_take_app l (sync_take_app l)"
| put_app: "sync_put_app l = Inr l' \<Longrightarrow> log_step Sync_put_app l l'"
| writer: "\<lbrakk>m_asnyc_logger l = Some al; Loop_iteration date ok al = Some al'\<rbrakk>
    \<Longrightarrow> log_step (Writer date ok) l (l\<lparr>m_asnyc_logger := Some al'\<rparr>)"
| app_writer: "\<lbrakk>m_asnyc_app_logger l = Some al; Loop_iteration date ok al = Some al'\<rbrakk>
    \<Longrightarrow> log_step (App_writer date ok) l (l\<lparr>m_asnyc_app_logger := Some al'\<rparr>)"

inductive log_run :: "logger \<Rightarrow> log_op list \<Rightarrow> logger \<Rightarrow> bool" for l0 where
  start: "log_run l0 [] l0"
| step: "\<lbrakk>log_run l0 ops l; log_step a l l'\<rbrakk> \<Longrightarrow> log_run l0 (ops @ [a]) l'"

text \<open>The lines that a macro sends to a channel, and those of a sequence of steps.\<close>

fun op_lines :: "bool \<Rightarrow> log_level \<Rightarrow> log_op \<Rightarrow> string list" where
  "op_lines app level (Log_line m x file_name line formatted) =
     (if log_enabled m level \<and> is_app m = app then [macro_line m x file_name line formatted] else [])"
| "op_lines app level _ = []"

definition emitted :: "bool \<Rightarrow> log_level \<Rightarrow> log_op list \<Rightarrow> string list" where
  "emitted app level ops = concat (map (op_lines app level) ops)"

text \<open>All lines of a channel, the printed ones first.\<close>

definition channel_lines :: "async_logger option \<Rightarrow> string list \<Rightarrow> string list \<Rightarrow> string list" where
  "channel_lines a tmp buf =
     (case a of None \<Rightarrow> [] | Some al \<Rightarrow> printed al @ concat (al_buffer al)) @ tmp @ buf"

definition rpc_lines :: "logger \<Rightarrow> string list" where
  "rpc_lines l = channel_lines (m_asnyc_logger l) (tmp_vec l) (lg_buffer l)"

definition app_lines :: "logger \<Rightarrow> string list" where
  "app_lines l = channel_lines (m_asnyc_app_logger l) (tmp_vec2 l) (m_app_buffer l)"

lemmas channel_defs = rpc_lines_def app_lines_def channel_lines_def

section \<open>The writer\<close>

lemma reopen_file_frame [simp]:
  "al_buffer (reopen_file date ok al) = al_buffer al"
  "printed (reopen_file date ok al) = printed al"
  "al_stop_flag (reopen_file date ok al) = al_stop_flag al"
  "al_running (reopen_file date ok al) = al_running al"
  "al_file_name (reopen_file date ok al) = al_file_name al"
  "al_file_path (reopen_file date ok al) = al_file_path al"
  by (simp_all add: reopen_file_def Let_def)

lemma Loop_iteration_None:
  "Loop_iteration date ok al = None \<longleftrightarrow> \<not> al_running al \<or> al_buffer al = []"
  by (auto simp: Loop_iteration_def Let_def split: list.splits)

lemma Loop_iteration_fields:
  assumes "Loop_iteration date ok al = Some al'"
  shows "al_buffer al = hd (al_buffer al) # al_buffer al'" and "al_running al"
    and "printed al' = printed al @ filter (\<lambda>i. i \<noteq> []) (hd (al_buffer al))"
    and "al_stop_flag al' = al_stop_flag al" and "al_running al' \<longleftrightarrow> \<not> al_stop_flag al"
  using assms by (auto simp: Loop_iteration_def Let_def split: list.splits if_splits)

lemma run_writer_idle: "al_buffer al = [] \<or> \<not> al_running al \<Longrightarrow> run_writer ds al = al"
  by (cases ds) (auto simp: Loop_iteration_None [THEN iffD2])

text \<open>A writer that is not stopped prints its whole queue; a stopped one prints one batch.\<close>

lemma writer_drains:
  assumes "al_running al" and "\<not> al_stop_flag al" and "length (al_buffer al) \<le> length ds"
  shows "printed (run_writer ds al) = printed al @ filter (\<lambda>i. i \<noteq> []) (concat (al_buffer al)) \<and>
         al_buffer (run_writer ds al) = [] \<and> al_running (run_writer ds al)"
  using assms
proof (induction ds al rule: run_writer.induct)
  case (2 date ok ds al)
  show ?case
  proof (cases "Loop_iteration date ok al")
    case None
    moreover from this have "al_buffer al = []" using "2.prems"(1) by (simp add: Loop_iteration_None)
    ultimately show ?thesis using "2.prems"(1) by simp
  next
    case (Some al')
    note f = Loop_iteration_fields [OF Some]
    have "concat (al_buffer al) = hd (al_buffer al) @ concat (al_buffer al')"
      and "length (al_buffer al) = Suc (length (al_buffer al'))"
      by (subst f(1), simp)+
    then show ?thesis using "2.IH" [OF Some] "2.prems" f(3-5) Some by simp
  qed
qed simp

lemma stopped_writer_prints_one_batch:
  assumes "al_running al" and "al_stop_flag al" and "al_buffer al = tmp # rest" and "ds \<noteq> []"
  shows "printed (run_writer ds al) = printed al @ filter (\<lambda>i. i \<noteq> []) tmp"
    and "al_buffer (run_writer ds al) = rest" and "\<not> al_running (run_writer ds al)"
proof -
  obtain date ok ds' where ds: "ds = (date, ok) # ds'" using assms(4) by (cases ds) auto
  obtain al' where it: "Loop_iteration date ok al = Some al'"
    using assms by (cases "Loop_iteration date ok al") (auto simp: Loop_iteration_None)
  note f = Loop_iteration_fields [OF it]
  have "run_writer ds al = al'" using it f(5) assms(2) by (simp add: ds run_writer_idle)
  then show "printed (run_writer ds al) = printed al @ filter (\<lambda>i. i \<noteq> []) tmp"
    and "al_buffer (run_writer ds al) = rest" and "\<not> al_running (run_writer ds al)"
    using f assms by simp_all
qed

text \<open>The writer keeps the log file of the last date it saw open.\<close>

definition file_ok :: "async_logger \<Rightarrow> bool" where
  "file_ok al \<longleftrightarrow> m_no al = 0 \<and> \<not> m_reopen_flag al \<and>
     (\<forall>f. m_file_hanlder al = Some f \<longrightarrow> f = log_file_name (m_date al) al)"

lemma Loop_iteration_file:
  assumes "file_ok al" and "Loop_iteration date ok al = Some al'"
  shows "file_ok al'" and "m_date al' = date" and "ok \<Longrightarrow> m_file_hanlder al' = Some (log_file_name date al)"
    and "log_file_name d al' = log_file_name d al"
  using assms
  by (auto simp: Loop_iteration_def Let_def file_ok_def reopen_file_def log_file_name_def
      split: list.splits if_splits)

section \<open>No line is lost, duplicated or reordered\<close>

text \<open>A short run: two lines, of which the first has been queued.\<close>

definition example_context :: log_context where
  "example_context = \<lparr>lc_time = ''23-10-18 10:00:00'', lc_usec = 42000, lc_pid = 7, lc_thread_id = 9,
     lc_msgid = ''m1'', lc_method_name = []\<rparr>"

definition example_ops :: "log_op list" where
  "example_ops = [Log_line INFOLOG example_context ''a.cc'' 3 (Some ''hello''), Sync_take, Sync_put,
     Log_line APPERRORLOG example_context ''b.cc'' 4 (Some ''oh'')]"

lemmas init_defs = InitGlobalLogger_def init_logger_def newLogger_def Let_def StringToLogLevel_def default_config_def

lemma default_level: "StringToLogLevel (m_log_level default_config) = Debug"
  by (simp add: StringToLogLevel_def default_config_def)

lemma example_run:
  obtains l where "log_run (InitGlobalLogger default_config 1) example_ops l" and "tmp_vec l = []" and "tmp_vec2 l = []"
proof -
  let ?l1 = "run_macro INFOLOG example_context ''a.cc'' 3 (Some ''hello'') (InitGlobalLogger default_config 1)"
  have enabled: "log_enabled INFOLOG Debug" by (simp add: log_enabled_def)
  obtain l3 where l3: "sync_put (sync_take ?l1) = Inr l3" "tmp_vec l3 = []" "tmp_vec2 l3 = []"
    by (auto simp: init_defs run_macro_def enabled pushLog_def sync_take_def sync_put_def)
  have take: "tmp_vec ?l1 = []" by (simp add: init_defs run_macro_def pushLog_def)
  let ?l4 = "run_macro APPERRORLOG example_context ''b.cc'' 4 (Some ''oh'') l3"
  have "log_run (InitGlobalLogger default_config 1) example_ops ?l4"
    using log_run.step [OF log_run.step [OF log_run.step [OF log_run.step [OF log_run.start log_step.log]
          log_step.take [OF take]] log_step.put [OF l3(1)]] log_step.log]
    by (simp add: example_ops_def)
  moreover have "tmp_vec ?l4 = []" "tmp_vec2 ?l4 = []"
    using l3(2,3) by (simp_all add: run_macro_def pushAppLog_def pushLog_def)
  ultimately show thesis by (rule that)
qed

fun writer_ok :: "async_logger option \<Rightarrow> bool" where
  "writer_ok None = False"
| "writer_ok (Some al) = (al_running al \<and> \<not> al_stop_flag al)"

lemma writer_okE:
  assumes "writer_ok a"
  obtains al where "a = Some al" and "al_running al" and "\<not> al_stop_flag al"
  using assms by (cases a) auto

definition log_inv :: "log_level \<Rightarrow> logger \<Rightarrow> bool" where
  "log_inv level l \<longleftrightarrow> m_set_level l = level \<and> m_type l \<noteq> 0 \<and>
     writer_ok (m_asnyc_logger l) \<and> writer_ok (m_asnyc_app_logger l) \<and>
     [] \<notin> set (rpc_lines l) \<and> [] \<notin> set (app_lines l)"

lemma macro_line_not_empty: "macro_line m x file_name line formatted \<noteq> []"
  by (simp add: macro_line_def)

lemma InitGlobalLogger_inv:
  assumes "type \<noteq> 0"
  shows "log_inv (StringToLogLevel (m_log_level cfg)) (InitGlobalLogger cfg type)"
    and "rpc_lines (InitGlobalLogger cfg type) = []" and "app_lines (InitGlobalLogger cfg type) = []"
  using assms
  by (simp_all add: log_inv_def channel_defs InitGlobalLogger_def init_logger_def newLogger_def newAsyncLogger_def Let_def)

lemma filter_nonempty: "[] \<notin> set xs \<Longrightarrow> filter (\<lambda>i. i \<noteq> []) xs = xs"
  by (induction xs) auto

lemma Loop_iteration_channel:
  assumes it: "Loop_iteration date ok al = Some al'" and ne: "[] \<notin> set (channel_lines (Some al) tmp buf)"
  shows "channel_lines (Some al') tmp buf = channel_lines (Some al) tmp buf"
proof -
  note f = Loop_iteration_fields [OF it]
  have c: "concat (al_buffer al) = hd (al_buffer al) @ concat (al_buffer al')" by (subst f(1)) simp
  have "[] \<notin> set (hd (al_buffer al))" using ne by (auto simp: channel_lines_def c)
  then show ?thesis using f(3) c by (simp add: channel_lines_def filter_nonempty)
qed

lemma run_macro_lines:
  assumes "m_type l \<noteq> 0"
  shows "rpc_lines (run_macro m x file_name line formatted l) =
           rpc_lines l @ op_lines False (m_set_level l) (Log_line m x file_name line formatted)"
    and "app_lines (run_macro m x file_name line formatted l) =
           app_lines l @ op_lines True (m_set_level l) (Log_line m x file_name line formatted)"
    and "m_set_level (run_macro m x file_name line formatted l) = m_set_level l"
    and "m_type (run_macro m x file_name line formatted l) = m_type l"
    and "m_asnyc_logger (run_macro m x file_name line formatted l) = m_asnyc_logger l"
    and "m_asnyc_app_logger (run_macro m x file_name line formatted l) = m_asnyc_app_logger l"
  using assms by (simp_all add: run_macro_def pushLog_def pushAppLog_def channel_defs)

lemma sync_put_cases:
  assumes "sync_put l = Inr l'"
  shows "l' = l \<or> (\<exists>al. m_asnyc_logger l = Some al \<and>
           l' = l\<lparr>m_asnyc_logger := Some (al\<lparr>al_buffer := al_buffer al @ [tmp_vec l]\<rparr>), tmp_vec := []\<rparr>)"
  using assms by (auto simp: sync_put_def pushLogBuffer_def split: if_splits option.splits)

lemma sync_put_app_cases:
  assumes "sync_put_app l = Inr l'"
  shows "l' = l \<or> (\<exists>al. m_asnyc_app_logger l = Some al \<and>
           l' = l\<lparr>m_asnyc_app_logger := Some (al\<lparr>al_buffer := al_buffer al @ [tmp_vec2 l]\<rparr>), tmp_vec2 := []\<rparr>)"
  using assms by (auto simp: sync_put_app_def pushLogBuffer_def split: if_splits option.splits)

lemma log_step_lines:
  assumes "log_step a l l'" and "log_inv level l"
  shows "rpc_lines l' = rpc_lines l @ op_lines False level a \<and>
         app_lines l' = app_lines l @ op_lines True level a \<and>
         m_set_level l' = m_set_level l \<and> m_type l' = m_type l \<and>
         writer_ok (m_asnyc_logger l') \<and> writer_ok (m_asnyc_app_logger l')"
  using assms
proof (induction rule: log_step.induct)
  case (log m x file_name line formatted l)
  then show ?case by (simp add: log_inv_def run_macro_lines)
next
  case (take l)
  then show ?case by (simp add: log_inv_def sync_take_def channel_defs)
next
  case (put l l')
  then show ?case by (auto dest!: sync_put_cases simp: log_inv_def channel_defs)
next
  case (take_app l)
  then show ?case by (simp add: log_inv_def sync_take_app_def channel_defs)
next
  case (put_app l l')
  then show ?case by (auto dest!: sync_put_app_cases simp: log_inv_def channel_defs)
next
  case (writer l al date ok al')
  then show ?case using Loop_iteration_channel [of date ok al al' "tmp_vec l" "lg_buffer l"]
    by (simp add: log_inv_def rpc_lines_def app_lines_def Loop_iteration_fields(4,5))
next
  case (app_writer l al date ok al')
  then show ?case using Loop_iteration_channel [of date ok al al' "tmp_vec2 l" "m_app_buffer l"]
    by (simp add: log_inv_def rpc_lines_def app_lines_def Loop_iteration_fields(4,5))
qed

lemma op_lines_not_empty: "[] \<notin> set (op_lines app level a)"
  by (cases a) (auto simp: macro_line_not_empty [THEN not_sym])

lemma log_step_inv:
  assumes "log_step a l l'" and "log_inv level l"
  shows "log_inv level l'"
  using log_step_lines [OF assms] assms(2) op_lines_not_empty by (simp add: log_inv_def)

lemma log_run_lines:
  assumes "log_run l0 ops l" and "log_inv level l0"
  shows "log_inv level l \<and> rpc_lines l = rpc_lines l0 @ emitted False level ops \<and>
         app_lines l = app_lines l0 @ emitted True level ops"
  using assms
proof (induction rule: log_run.induct)
  case start
  then show ?case by (simp add: emitted_def)
next
  case (step ops l a l')
  then have inv: "log_inv level l" by simp
  show ?case using log_step_lines [OF step(2) inv] log_step_inv [OF step(2) inv] step by (simp add: emitted_def)
qed

lemma log_run_new:
  assumes "type \<noteq> 0" and "log_run (InitGlobalLogger cfg type) ops l"
  shows "log_inv (StringToLogLevel (m_log_level cfg)) l"
    and "rpc_lines l = emitted False (StringToLogLevel (m_log_level cfg)) ops"
    and "app_lines l = emitted True (StringToLogLevel (m_log_level cfg)) ops"
  using log_run_lines [OF assms(2) InitGlobalLogger_inv(1) [OF assms(1)]] InitGlobalLogger_inv(2,3) [OF assms(1)] by simp_all

text \<open>
  For runs whose critical sections do not overlap (the explicit unlocks of \<open>log.cc\<close> let them overlap,
  \<open>explicit_unlock_breaks_exclusion\<close> of theory \<open>Mutex\<close>), however the threads that log, the timer that moves batches and the
  two writer threads take turns: the lines a channel has printed, followed by the queued batches, the batch
  that is being moved and the buffer, are the enabled lines sent to it in the order in which they
  were pushed. In particular the output is a prefix of them.
\<close>

theorem log_lines_in_order:
  assumes "type \<noteq> 0" and "log_run (InitGlobalLogger cfg type) ops l"
  shows "\<exists>al app. m_asnyc_logger l = Some al \<and> m_asnyc_app_logger l = Some app \<and>
           printed al @ concat (al_buffer al) @ tmp_vec l @ lg_buffer l = emitted False (StringToLogLevel (m_log_level cfg)) ops \<and>
           printed app @ concat (al_buffer app) @ tmp_vec2 l @ m_app_buffer l = emitted True (StringToLogLevel (m_log_level cfg)) ops"
  using log_run_new [OF assms] by (auto simp: log_inv_def channel_defs elim!: writer_okE)

theorem log_lines_in_order_witness:
  "\<exists>l al app. log_run (InitGlobalLogger default_config 1) example_ops l \<and>
     m_asnyc_logger l = Some al \<and> m_asnyc_app_logger l = Some app \<and>
     printed al @ concat (al_buffer al) @ tmp_vec l @ lg_buffer l = emitted False Debug example_ops \<and>
     printed app @ concat (al_buffer app) @ tmp_vec2 l @ m_app_buffer l = emitted True Debug example_ops"
proof -
  obtain l where "log_run (InitGlobalLogger default_config 1) example_ops l" using example_run .
  then show ?thesis using log_lines_in_order [of 1 default_config example_ops l] by (auto simp: default_level)
qed

text \<open>\<open>syncLoop\<close> empties both buffers into the queues, keeping the lines.\<close>

lemma syncLoop_lines:
  assumes "log_inv level l" and "tmp_vec l = []" and "tmp_vec2 l = []"
  obtains l' al app where "syncLoop l = Inr l'"
    and "m_asnyc_logger l' = Some al" and "al_running al" and "\<not> al_stop_flag al"
    and "m_asnyc_app_logger l' = Some app" and "al_running app" and "\<not> al_stop_flag app"
    and "printed al @ concat (al_buffer al) = rpc_lines l" and "printed app @ concat (al_buffer app) = app_lines l"
    and "[] \<notin> set (concat (al_buffer al))" and "[] \<notin> set (concat (al_buffer app))"
    and "lg_buffer l \<noteq> [] \<longrightarrow> al_buffer al \<noteq> []"
proof -
  obtain al0 app0 where "m_asnyc_logger l = Some al0" "al_running al0" "\<not> al_stop_flag al0"
    "m_asnyc_app_logger l = Some app0" "al_running app0" "\<not> al_stop_flag app0"
    using assms(1) by (auto simp: log_inv_def elim!: writer_okE)
  with assms show thesis
    by (cases "lg_buffer l = []"; cases "m_app_buffer l = []")
      (auto intro!: that simp: log_inv_def syncLoop_def sync_take_def sync_put_def sync_take_app_def sync_put_app_def
        pushLogBuffer_def channel_defs)
qed

text \<open>
  Every line that is logged gets printed to the standard output, again as long as critical sections
  do not overlap: after any run, one complete \<open>syncLoop\<close> and
  writers that run once for every queued batch, each channel has printed exactly the enabled
  lines sent to it, in order.
\<close>

theorem log_lines_get_printed:
  assumes "type \<noteq> 0" and "log_run (InitGlobalLogger cfg type) ops l" and "tmp_vec l = []" and "tmp_vec2 l = []"
  shows "\<exists>l' al app. syncLoop l = Inr l' \<and> m_asnyc_logger l' = Some al \<and> m_asnyc_app_logger l' = Some app \<and>
           (\<forall>ds. length (al_buffer al) \<le> length ds \<longrightarrow> printed (run_writer ds al) = emitted False (StringToLogLevel (m_log_level cfg)) ops) \<and>
           (\<forall>ds. length (al_buffer app) \<le> length ds \<longrightarrow> printed (run_writer ds app) = emitted True (StringToLogLevel (m_log_level cfg)) ops)"
proof -
  note run = log_run_new [OF assms(1,2)]
  obtain l' al app where "syncLoop l = Inr l'" "m_asnyc_logger l' = Some al" "al_running al" "\<not> al_stop_flag al"
    "m_asnyc_app_logger l' = Some app" "al_running app" "\<not> al_stop_flag app"
    "printed al @ concat (al_buffer al) = rpc_lines l" "printed app @ concat (al_buffer app) = app_lines l"
    "[] \<notin> set (concat (al_buffer al))" "[] \<notin> set (concat (al_buffer app))"
    using syncLoop_lines [OF run(1) assms(3,4)] .
  then show ?thesis using run(2,3) writer_drains by (simp add: filter_nonempty)
qed

theorem log_lines_get_printed_witness:
  "\<exists>l l' al. log_run (InitGlobalLogger default_config 1) example_ops l \<and> syncLoop l = Inr l' \<and>
     m_asnyc_logger l' = Some al \<and>
     printed (run_writer (replicate (length (al_buffer al)) (''20231018'', True)) al) = emitted False Debug example_ops"
proof -
  obtain l where "log_run (InitGlobalLogger default_config 1) example_ops l" "tmp_vec l = []" "tmp_vec2 l = []"
    using example_run .
  then show ?thesis using log_lines_get_printed [of 1 default_config example_ops l] by (fastforce simp: default_level)
qed

text \<open>
  The signal handler logs one more line, moves all pending lines into the queues and stops the
  writers. The framework writer then prints one batch, the oldest one, and returns, so that the
  handler's line gets out only when nothing was queued before. The application writer returns
  only if it has a batch to print: otherwise it waits for ever and the handler with it.
\<close>

theorem signal_handler_flush:
  assumes "type \<noteq> 0" and "log_run (InitGlobalLogger cfg type) ops l" and "tmp_vec l = []" and "tmp_vec2 l = []"
    and "ds \<noteq> []"
  shows "\<exists>l' al app. CoredumpHandler x file_name line l = Inr l' \<and>
           m_asnyc_logger l' = Some al \<and> m_asnyc_app_logger l' = Some app \<and>
           printed al @ concat (al_buffer al) = emitted False (StringToLogLevel (m_log_level cfg)) ops @
             [macro_line ERRORLOG x file_name line (Some ''progress received invalid signal, will exit'')] \<and>
           printed app @ concat (al_buffer app) = emitted True (StringToLogLevel (m_log_level cfg)) ops \<and>
           al_buffer al \<noteq> [] \<and> printed (run_writer ds al) = printed al @ hd (al_buffer al) \<and>
           \<not> al_running (run_writer ds al) \<and>
           (al_running (run_writer ds app) \<longleftrightarrow> al_buffer app = [])"
proof -
  let ?text = "Some ''progress received invalid signal, will exit''"
  let ?l = "run_macro ERRORLOG x file_name line ?text l" and ?m = "Log_line ERRORLOG x file_name line ?text"
  have run: "log_run (InitGlobalLogger cfg type) (ops @ [?m]) ?l"
    using assms(2) by (rule log_run.step) (rule log_step.log)
  note inv = log_run_new [OF assms(1) run] and inv0 = log_run_new(1) [OF assms(1,2)]
  have level: "log_enabled ERRORLOG v" for v by (cases v) (simp_all add: log_enabled_def)
  have pre: "tmp_vec ?l = []" "tmp_vec2 ?l = []" "lg_buffer ?l \<noteq> []"
    using assms(3,4) level inv0 by (simp_all add: run_macro_def pushLog_def log_inv_def)
  obtain l' al app where l': "syncLoop ?l = Inr l'"
    and al: "m_asnyc_logger l' = Some al" "al_running al" "\<not> al_stop_flag al"
    and app: "m_asnyc_app_logger l' = Some app" "al_running app" "\<not> al_stop_flag app"
    and lines: "printed al @ concat (al_buffer al) = rpc_lines ?l" "printed app @ concat (al_buffer app) = app_lines ?l"
    and ne: "[] \<notin> set (concat (al_buffer al))" and q: "lg_buffer ?l \<noteq> [] \<longrightarrow> al_buffer al \<noteq> []"
    using syncLoop_lines [OF inv(1) pre(1,2)] .
  obtain b bs where b: "al_buffer al = b # bs" using q pre(3) by (cases "al_buffer al") auto
  have w: "printed (run_writer ds (stop_logger al)) = printed al @ b" "\<not> al_running (run_writer ds (stop_logger al))"
    using stopped_writer_prints_one_batch [of "stop_logger al" b bs ds] al b ne assms(5)
    by (simp_all add: stop_logger_def filter_nonempty)
  have a: "al_running (run_writer ds (stop_logger app)) \<longleftrightarrow> al_buffer app = []"
    using app assms(5) stopped_writer_prints_one_batch(3) [of "stop_logger app" _ _ ds]
    by (cases "al_buffer app") (simp_all add: stop_logger_def run_writer_idle)
  show ?thesis
    using l' al(1) app(1) lines inv(2,3) w a b level
    by (simp add: CoredumpHandler_def flush_logger_def emitted_def stop_logger_def)
qed

theorem signal_handler_flush_witness:
  "\<exists>l l' al. log_run (InitGlobalLogger default_config 1) example_ops l \<and>
     CoredumpHandler example_context ''log.cc'' 22 l = Inr l' \<and> m_asnyc_logger l' = Some al \<and>
     \<not> al_running (run_writer [(''20231018'', True)] al)"
proof -
  obtain l where "log_run (InitGlobalLogger default_config 1) example_ops l" "tmp_vec l = []" "tmp_vec2 l = []"
    using example_run .
  then show ?thesis
    using signal_handler_flush [of 1 default_config example_ops l "[(''20231018'', True)]" example_context "''log.cc''" 22]
    by auto
qed

end
