(* ===== verification/HighAvailability.thy ===== *)
theory HighAvailability
  imports CppString
begin

text \<open>
  The supervisor of a server (\<open>common/high_availability.h\<close>). \<open>HighAvai::start\<close> forks a child
  that runs the server, waits for it and executes the program again with the number of the next
  start as its argument, until that number exceeds the restart count. The results of
  \<open>sigaction\<close>, \<open>fork\<close> and \<open>execvp\<close> are inputs; the log lines are left out.
\<close>

record high_avai =
  restart_count :: int

definition getInstance :: high_avai where
  "getInstance = \<lparr>restart_count = 5\<rparr>"

definition setRestartCount :: "int \<Rightarrow> high_avai \<Rightarrow> high_avai" where
  "setRestartCount count h = h\<lparr>restart_count := count\<rparr>"

text \<open>How the process that called \<open>start\<close> goes on: it ends, or becomes a new image with an \<open>argv\<close>.\<close>

datatype process_end = Exit int | Exec "string list"

record syscalls =
  sigaction_ok :: bool
  fork_result :: int
  execvp_ok :: bool

definition all_ok :: syscalls where
  "all_ok = \<lparr>sigaction_ok = True, fork_result = 1, execvp_ok = True\<rparr>"

text \<open>\<open>sprintf\<close> of a number into an array of \<open>n\<close> characters, with the terminating NUL.\<close>

definition sprintf_d :: "nat \<Rightarrow> int \<Rightarrow> string cpp" where
  "sprintf_d n i = (if length (to_string i) < n then Inr (to_string i) else Inl OutOfRange)"

definition start_count :: "string list \<Rightarrow> int" where
  "start_count argv = (if length argv > 1 then atoi (argv ! 1) else 0)"

text \<open>
  \<open>start\<close>: the end of the calling process and whether \<open>server_func_\<close> runs in a new process. A
  positive result of \<open>fork\<close> is the parent, whose child runs the server; 0 is the child itself.
\<close>

definition HighAvai_start :: "high_avai \<Rightarrow> string list \<Rightarrow> syscalls \<Rightarrow> (bool \<times> process_end) cpp" where
  "HighAvai_start h argv sys =
     (let current_start_count = start_count argv in
      if length argv > 1 \<and> current_start_count > restart_count h then Inr (False, Exit 2)
      else if \<not> sigaction_ok sys then Inr (False, Exit 1)
      else if fork_result sys = - 1 then Inr (False, Exit (- 1))
      else if fork_result sys > 0 then
        bind_cpp (checked_int (current_start_count + 1)) (\<lambda>n.
        bind_cpp (sprintf_d 10 n) (\<lambda>str_restart_count.
          case argv of
            [] \<Rightarrow> Inl NullPointer
          | program_name # _ \<Rightarrow>
              Inr (True, if execvp_ok sys then Exec [program_name, str_restart_count] else Exit 1)))
      else Inr (True, Exit 0))"

text \<open>
  The signal handlers: on \<open>SIGCHLD\<close> as many children are reaped as \<open>waitpid\<close> has, on \<open>SIGINT\<close> the
  current child is killed and the supervisor ends without another image.
\<close>

fun handle_sigchld :: "int list \<Rightarrow> int list" where
  "handle_sigchld [] = []"
| "handle_sigchld (pid # pids) = (if 0 < pid then pid # handle_sigchld pids else [])"

definition handle_sigint :: "int \<Rightarrow> int \<times> process_end" where
  "handle_sigint child_pid = (child_pid, Exit 0)"

lemma handle_sigchld_all: "\<forall>pid \<in> set pids. 0 < pid \<Longrightarrow> handle_sigchld (pids @ 0 # rest) = pids"
  by (induction pids) auto

text \<open>
  The successive images of the supervising process, the calls of image \<open>i\<close> being \<open>sys i\<close>: how
  often the server was started, and the exit code.
\<close>

function supervise :: "high_avai \<Rightarrow> (nat \<Rightarrow> syscalls) \<Rightarrow> nat \<Rightarrow> string list \<Rightarrow> (nat \<times> int) cpp" where
  "supervise h sys i argv =
     (case HighAvai_start h argv (sys i) of
        Inl e \<Rightarrow> Inl e
      | Inr (started, Exit code) \<Rightarrow> Inr (of_bool started, code)
      | Inr (started, Exec argv') \<Rightarrow> map_cpp (\<lambda>(n, code). (n + of_bool started, code)) (supervise h sys (Suc i) argv'))"
  by pat_completeness auto

lemma start_Exec:
  assumes "HighAvai_start h argv sys = Inr (started, Exec argv')"
  obtains p where "argv' = [p, to_string (start_count argv + 1)]" and "start_count argv' = start_count argv + 1"
    and "length argv > 1 \<Longrightarrow> start_count argv \<le> restart_count h" and "p = hd argv" and started
    and "length (to_string (start_count argv + 1)) < 10"
  using assms that
  by (auto simp: HighAvai_start_def Let_def bind_cpp_eq_Inr sprintf_d_def start_count_def atoi_to_string
      split: if_splits list.splits)

text \<open>Images that are still to come, at most.\<close>

definition images_left :: "high_avai \<Rightarrow> string list \<Rightarrow> nat" where
  "images_left h argv =
     (if length argv > 1 then nat (restart_count h + 1 - start_count argv) else Suc (nat (restart_count h + 1)))"

lemma images_left_Exec:
  assumes "HighAvai_start h argv sys = Inr (started, Exec argv')"
  shows "images_left h argv' < images_left h argv"
  using assms by (elim start_Exec) (auto simp: images_left_def start_count_def split: if_splits)

termination supervise
  by (relation "measure (\<lambda>(h, sys, i, argv). images_left h argv)") (auto intro: images_left_Exec)

declare supervise.simps [simp del]

lemma start_all_ok:
  assumes "0 \<le> start_count argv" and "start_count argv < 999999999" and "argv \<noteq> []"
    and "length argv > 1 \<Longrightarrow> start_count argv \<le> restart_count h"
  shows "HighAvai_start h argv all_ok = Inr (True, Exec [hd argv, to_string (start_count argv + 1)])"
proof -
  have "length (to_string (start_count argv + 1)) \<le> 9"
    using assms(1,2) by (intro length_to_string) simp_all
  then show ?thesis
    using assms by (cases argv) (auto simp: HighAvai_start_def Let_def all_ok_def sprintf_d_def INT_MIN_def INT_MAX_def)
qed

lemma supervise_from:
  assumes "restart_count h < 999999999" and "0 \<le> start_count argv" and "length argv > 1"
    and "start_count argv \<le> restart_count h + 1"
  shows "supervise h (\<lambda>_. all_ok) i argv = Inr (nat (restart_count h + 1 - start_count argv), 2)"
  using assms
proof (induction h "\<lambda>_ :: nat. all_ok" i argv rule: supervise.induct)
  case (1 h i argv)
  show ?case
  proof (cases "start_count argv \<le> restart_count h")
    case True
    let ?argv = "[hd argv, to_string (start_count argv + 1)]"
    have st: "HighAvai_start h argv all_ok = Inr (True, Exec ?argv)"
      using start_all_ok [of argv h] "1.prems" True by fastforce
    moreover have next_count: "start_count ?argv = start_count argv + 1"
      using st by (elim start_Exec) simp
    ultimately have "supervise h (\<lambda>_. all_ok) (Suc i) ?argv = Inr (nat (restart_count h - start_count argv), 2)"
      using "1.hyps" [OF st refl refl] "1.prems" True by simp
    then show ?thesis using st True by (simp add: supervise.simps [of h _ i])
  next
    case False
    then show ?thesis using "1.prems" by (simp add: supervise.simps [of h _ i] HighAvai_start_def Let_def)
  qed
qed

text \<open>
  C35. The supervisor ends: when the system calls succeed, a program started without arguments runs
  its server once and then as often as the restart count says, and exits with code 2. (The count
  has at most nine digits, so that it fits the buffer of ten characters.)
\<close>

theorem supervisor_ends:
  assumes "0 \<le> restart_count h" and "restart_count h < 999999999"
  shows "supervise h (\<lambda>_. all_ok) i [program_name] = Inr (nat (restart_count h) + 1, 2)"
proof -
  have st: "HighAvai_start h [program_name] all_ok = Inr (True, Exec [program_name, to_string 1])"
    using start_all_ok [of "[program_name]" h] by (simp add: start_count_def)
  have "start_count [program_name, to_string 1] = 1"
    by (simp add: start_count_def atoi_to_string INT_MIN_def INT_MAX_def)
  then have "supervise h (\<lambda>_. all_ok) (Suc i) [program_name, to_string 1] = Inr (nat (restart_count h), 2)"
    using supervise_from [of h "[program_name, to_string 1]" "Suc i"] assms by simp
  then show ?thesis using st by (simp add: supervise.simps [of h _ i])
qed

theorem supervisor_ends_witness:
  "supervise getInstance (\<lambda>_. all_ok) 0 [''server''] = Inr (6, 2)"
  using supervisor_ends [of getInstance 0 "''server''"] by (simp add: getInstance_def)

text \<open>Whatever the system calls do, the server is started at most once more than the restart count.\<close>

lemma supervise_bound:
  "supervise h sys i argv = Inr (n, code) \<Longrightarrow> n \<le> Suc (images_left h argv)"
proof (induction h sys i argv arbitrary: n code rule: supervise.induct)
  case (1 h sys i argv)
  consider (fault) e where "HighAvai_start h argv (sys i) = Inl e"
    | (exit) started c where "HighAvai_start h argv (sys i) = Inr (started, Exit c)"
    | (exec) started argv' where "HighAvai_start h argv (sys i) = Inr (started, Exec argv')"
    by (metis process_end.exhaust sum.exhaust surj_pair)
  then show ?case
  proof cases
    case (exec started argv')
    then obtain n' where "supervise h sys (Suc i) argv' = Inr (n', code)" and "n = n' + of_bool started"
      using "1.prems" by (auto simp: supervise.simps [of h sys i argv] map_cpp_eq_Inr)
    then show ?thesis using "1.IH" [OF exec refl refl] images_left_Exec [OF exec] by (cases started) fastforce+
  qed (use "1.prems" in \<open>auto simp: supervise.simps [of h sys i argv]\<close>)
qed

end
