(* ===== verification/DiscoveryCenter.thy ===== *)
theory DiscoveryCenter
  imports ServiceDiscovery
begin

text \<open>
  The process around the handlers of \<open>ServiceDiscovery\<close>: \<open>main\<close> of
  \<open>net/service_discovery/run_server_discovery.cc\<close>, that is the set-up of the two listening sockets
  and of \<open>epoll\<close> with all its failure paths, and the loop that accepts and serves. The model keeps
  the descriptors that are open and those that \<open>epoll\<close> watches; the results of the system calls
  are inputs. A reply is written by one \<open>write\<close> whose result changes nothing.
\<close>

section \<open>Set-up\<close>

record center =
  serverSocket :: int
  controlSocket :: int
  epollFd :: int
  SERVER_PORT :: int
  CONTROL_PORT :: int
  SERVICE_TTL_MS :: int
  open_fds :: "int set"
  watched :: "int set"
  service_map :: registry

record setup_calls =
  server_socket :: int
  control_socket :: int
  bind_server :: bool
  bind_control :: bool
  listen_server :: bool
  listen_control :: bool
  epoll_create :: int
  add_server :: bool
  add_control :: bool

text \<open>\<open>Inl\<close>: the descriptors still open when \<open>main\<close> returns 1.\<close>

definition set_up :: "config_map \<Rightarrow> setup_calls \<Rightarrow> int set + center" where
  "set_up config r =
     (let srv = server_socket r; ctl = control_socket r; ep = epoll_create r in
      if srv = - 1 then Inl {}
      else if ctl = - 1 then Inl ({srv} - {srv})
      else if \<not> bind_server r then Inl ({srv, ctl} - {srv} - {ctl})
      else if \<not> bind_control r then Inl ({srv, ctl} - {srv} - {ctl})
      else if \<not> listen_server r then Inl ({srv, ctl} - {srv} - {ctl})
      else if \<not> listen_control r then Inl ({srv, ctl} - {srv} - {ctl})
      else if ep = - 1 then Inl ({srv, ctl} - {srv} - {ctl})
      else if \<not> add_server r then Inl ({srv, ctl, ep} - {srv} - {ctl} - {ep})
      else if \<not> add_control r then Inl ({srv, ctl, ep} - {srv} - {ctl} - {ep})
      else Inr \<lparr>serverSocket = srv, controlSocket = ctl, epollFd = ep,
                SERVER_PORT = readIntConfig config ''query_port'' 8080,
                CONTROL_PORT = readIntConfig config ''control_port'' 9090,
                SERVICE_TTL_MS = readIntConfig config ''service_ttl_ms'' DEFAULT_SERVICE_TTL_MS,
                open_fds = {srv, ctl, ep}, watched = {srv, ctl}, service_map = []\<rparr>)"

section \<open>The loop\<close>

text \<open>
  An event of \<open>epoll_wait\<close>: its descriptor, and what the calls made for it return. Closing a
  descriptor removes it from \<open>epoll\<close>.
\<close>

record center_event =
  ev_fd :: int
  accepted :: int
  add_ok :: bool
  received :: recv_result
  clock :: "nat \<Rightarrow> int"

definition close_fd :: "int \<Rightarrow> center \<Rightarrow> center" where
  "close_fd fd c = c\<lparr>open_fds := open_fds c - {fd}, watched := watched c - {fd}\<rparr>"

definition open_fd :: "int \<Rightarrow> center \<Rightarrow> center" where
  "open_fd fd c = c\<lparr>open_fds := insert fd (open_fds c)\<rparr>"

definition accept_query :: "center_event \<Rightarrow> center \<Rightarrow> center" where
  "accept_query e c =
     (let clientSocket = accepted e in
      if clientSocket < 0 then c
      else
        let c = open_fd clientSocket c in
        if \<not> add_ok e then close_fd clientSocket c
        else c\<lparr>watched := insert clientSocket (watched c)\<rparr>)"

definition serve_control :: "center_event \<Rightarrow> center \<Rightarrow> (center \<times> (int \<times> string) option) cpp" where
  "serve_control e c =
     (let clientSocket = accepted e in
      if clientSocket = - 1 then Inr (c, None)
      else
        let c = open_fd clientSocket c in
        bind_cpp (handle_control (SERVICE_TTL_MS c) (clock e) (received e) (service_map c)) (\<lambda>(m, back_message).
          Inr (close_fd clientSocket (c\<lparr>service_map := m\<rparr>), map_option (Pair clientSocket) back_message)))"

definition serve_query :: "center_event \<Rightarrow> center \<Rightarrow> (center \<times> (int \<times> string) option) cpp" where
  "serve_query e c =
     bind_cpp (handle_query (SERVICE_TTL_MS c) (clock e 0) (received e) (service_map c)) (\<lambda>(m, addr).
       Inr (let c = c\<lparr>service_map := m\<rparr> in
            (if addr = None then close_fd (ev_fd e) c else c, map_option (Pair (ev_fd e)) addr)))"

definition handle_center_event :: "center_event \<Rightarrow> center \<Rightarrow> (center \<times> (int \<times> string) option) cpp" where
  "handle_center_event e c =
     (if ev_fd e = serverSocket c then Inr (accept_query e c, None)
      else if ev_fd e = controlSocket c then serve_control e c
      else serve_query e c)"

definition MAX_EVENTS :: nat where
  "MAX_EVENTS = 100"

text \<open>One round of the loop: at most \<open>MAX_EVENTS\<close> events; the replies with their sockets, in order.\<close>

definition serve_event :: "center_event \<Rightarrow> center \<times> (int \<times> string) list \<Rightarrow> (center \<times> (int \<times> string) list) cpp" where
  "serve_event e = (\<lambda>(c, rs). map_cpp (\<lambda>(c', r). (c', rs @ (case r of None \<Rightarrow> [] | Some x \<Rightarrow> [x]))) (handle_center_event e c))"

definition center_round :: "center_event list \<Rightarrow> center \<times> (int \<times> string) list \<Rightarrow> (center \<times> (int \<times> string) list) cpp" where
  "center_round events cr = fold_cpp serve_event (take MAX_EVENTS events) cr"

section \<open>Descriptors\<close>

text \<open>What the operating system guarantees: events of watched descriptors, new descriptors from \<open>accept\<close>.\<close>

definition event_ok :: "center_event \<Rightarrow> center \<Rightarrow> bool" where
  "event_ok e c \<longleftrightarrow> ev_fd e \<in> watched c \<and> accepted e \<ge> - 1 \<and> accepted e \<notin> open_fds c"

inductive center_reach :: "center \<Rightarrow> center \<Rightarrow> bool" for c0 where
  start: "center_reach c0 c0"
| event: "\<lbrakk>center_reach c0 c; event_ok e c; handle_center_event e c = Inr (c', reply)\<rbrakk> \<Longrightarrow> center_reach c0 c'"

definition center_inv :: "center \<Rightarrow> bool" where
  "center_inv c \<longleftrightarrow> open_fds c = insert (epollFd c) (watched c) \<and> epollFd c \<notin> watched c \<and>
     serverSocket c \<in> watched c \<and> controlSocket c \<in> watched c \<and> map_ok (service_map c)"

lemma center_frame [simp]:
  "serverSocket (close_fd fd c) = serverSocket c" "controlSocket (close_fd fd c) = controlSocket c"
  "epollFd (close_fd fd c) = epollFd c" "service_map (close_fd fd c) = service_map c"
  "SERVICE_TTL_MS (close_fd fd c) = SERVICE_TTL_MS c"
  "open_fds (close_fd fd c) = open_fds c - {fd}" "watched (close_fd fd c) = watched c - {fd}"
  "serverSocket (open_fd fd c) = serverSocket c" "controlSocket (open_fd fd c) = controlSocket c"
  "epollFd (open_fd fd c) = epollFd c" "service_map (open_fd fd c) = service_map c"
  "SERVICE_TTL_MS (open_fd fd c) = SERVICE_TTL_MS c"
  "open_fds (open_fd fd c) = insert fd (open_fds c)" "watched (open_fd fd c) = watched c"
  by (simp_all add: close_fd_def open_fd_def)

lemma handle_control_ok:
  assumes "handle_control ttl t r m = Inr (m', reply)" and "map_ok m"
  shows "map_ok m'"
proof (cases "command_text r")
  case (Inr x)
  then show ?thesis
    using assms map_ok_control [OF assms(2), of ttl t]
    by (cases x; cases "control_command ttl t (the x) m") (simp_all add: handle_control_def, metis fst_conv)
qed (use assms(1) in \<open>simp add: handle_control_def\<close>)

lemma handle_query_ok:
  assumes "handle_query ttl t r m = Inr (m', reply)" and "map_ok m"
  shows "map_ok m'"
proof (cases "command_text r")
  case (Inr x)
  then show ?thesis
    using assms map_ok_query [OF assms(2), of ttl t]
    by (cases x; cases "query_registry ttl t (the x) m") (simp_all add: handle_query_def, metis fst_conv)
qed (use assms(1) in \<open>simp add: handle_query_def\<close>)

lemma accept_query_inv: "center_inv c \<Longrightarrow> event_ok e c \<Longrightarrow> center_inv (accept_query e c)"
  by (auto simp: center_inv_def event_ok_def accept_query_def Let_def)

lemma serve_control_inv:
  assumes "serve_control e c = Inr (c', reply)" and "center_inv c" and "event_ok e c"
  shows "center_inv c'"
proof (cases "accepted e = - 1")
  case True
  then show ?thesis using assms by (simp add: serve_control_def)
next
  case False
  then obtain m r where "handle_control (SERVICE_TTL_MS c) (clock e) (received e) (service_map c) = Inr (m, r)"
    and c': "c' = close_fd (accepted e) ((open_fd (accepted e) c)\<lparr>service_map := m\<rparr>)"
    using assms(1) by (auto simp: serve_control_def Let_def bind_cpp_eq_Inr)
  then have "map_ok m" using assms(2) by (auto simp: center_inv_def intro: handle_control_ok)
  then show ?thesis using assms(2,3) c' by (auto simp: center_inv_def event_ok_def)
qed

lemma serve_query_inv:
  assumes "serve_query e c = Inr (c', reply)" and "center_inv c" and "event_ok e c"
    and "ev_fd e \<noteq> serverSocket c" and "ev_fd e \<noteq> controlSocket c"
  shows "center_inv c'"
proof -
  obtain m r where q: "handle_query (SERVICE_TTL_MS c) (clock e 0) (received e) (service_map c) = Inr (m, r)"
    and c': "c' = (if r = None then close_fd (ev_fd e) (c\<lparr>service_map := m\<rparr>) else c\<lparr>service_map := m\<rparr>)"
    using assms(1) by (auto simp: serve_query_def Let_def bind_cpp_eq_Inr)
  have "map_ok m" using handle_query_ok [OF q] assms(2) by (simp add: center_inv_def)
  moreover have "epollFd c \<noteq> ev_fd e" using assms(2,3) unfolding center_inv_def event_ok_def by metis
  ultimately show ?thesis
    using assms(2,4,5) unfolding c' center_inv_def by (cases "r = None") (simp_all add: insert_Diff_if)
qed

lemma handle_center_event_inv:
  assumes "handle_center_event e c = Inr (c', reply)" and "center_inv c" and "event_ok e c"
  shows "center_inv c'"
proof -
  consider (query) "ev_fd e = serverSocket c" | (control) "ev_fd e \<noteq> serverSocket c" "ev_fd e = controlSocket c"
    | (client) "ev_fd e \<noteq> serverSocket c" "ev_fd e \<noteq> controlSocket c" by blast
  then show ?thesis
  proof cases
    case query
    then show ?thesis using assms accept_query_inv by (auto simp: handle_center_event_def)
  next
    case control
    then have "serve_control e c = Inr (c', reply)" using assms(1) by (simp add: handle_center_event_def)
    then show ?thesis using assms(2,3) by (rule serve_control_inv)
  next
    case client
    then have "serve_query e c = Inr (c', reply)" using assms(1) by (simp add: handle_center_event_def)
    then show ?thesis using assms(2,3) client by (rule serve_query_inv)
  qed
qed

text \<open>Calls that succeed, the centre they set up and an event that adds a service.\<close>

definition example_calls :: setup_calls where
  "example_calls = \<lparr>server_socket = 3, control_socket = 4, bind_server = True, bind_control = True,
     listen_server = True, listen_control = True, epoll_create = 5, add_server = True, add_control = True\<rparr>"

definition example_center :: center where
  "example_center = \<lparr>serverSocket = 3, controlSocket = 4, epollFd = 5, SERVER_PORT = 8080, CONTROL_PORT = 9090,
     SERVICE_TTL_MS = 10000, open_fds = {3, 4, 5}, watched = {3, 4}, service_map = []\<rparr>"

definition example_event :: center_event where
  "example_event = \<lparr>ev_fd = 4, accepted = 6, add_ok = True, received = Received ''add m 1:2'', clock = (\<lambda>_. 0)\<rparr>"

lemma example_set_up: "set_up Map.empty example_calls = Inr example_center"
  by (simp add: set_up_def example_calls_def example_center_def readIntConfig_def DEFAULT_SERVICE_TTL_MS_def)

lemma example_handled:
  "handle_center_event example_event example_center =
     Inr (example_center\<lparr>service_map := [(''m'', \<lparr>node_addr = ''1:2'', last_seen_ms = 0\<rparr>)]\<rparr>, Some (6, ''add service success''))"
  by (simp add: handle_center_event_def serve_control_def example_event_def example_center_def handle_control_def command_text_def
      c_str_to_string_def control_command_def split_command_def run_operator_def parseServiceAndAddr_def refresh_def
      substr_def close_fd_def open_fd_def Let_def)

text \<open>
  Set-up is all or nothing: when a call fails, \<open>main\<close> returns with every descriptor it had
  opened closed again; otherwise exactly the two sockets and the \<open>epoll\<close> descriptor are open, both
  sockets are watched, the registry is empty and the configured ports and time to live are positive.
\<close>

theorem set_up_all_or_nothing:
  "case set_up config r of
     Inl fds \<Rightarrow> fds = {} \<and> \<not> (server_socket r \<noteq> - 1 \<and> control_socket r \<noteq> - 1 \<and> bind_server r \<and> bind_control r \<and>
       listen_server r \<and> listen_control r \<and> epoll_create r \<noteq> - 1 \<and> add_server r \<and> add_control r)
   | Inr c \<Rightarrow> open_fds c = {server_socket r, control_socket r, epoll_create r} \<and>
       watched c = {serverSocket c, controlSocket c} \<and> service_map c = [] \<and>
       SERVER_PORT c > 0 \<and> CONTROL_PORT c > 0 \<and> SERVICE_TTL_MS c > 0"
  by (auto simp: set_up_def Let_def readIntConfig_def DEFAULT_SERVICE_TTL_MS_def split: option.splits)

text \<open>
  C27. The centre leaks no descriptor: in every state its loop can reach, the open descriptors are
  the \<open>epoll\<close> descriptor and the watched ones, so that no control connection is left open, and
  both listening sockets are still watched.
\<close>

theorem center_never_leaks:
  assumes "set_up config r = Inr c0" and "distinct [server_socket r, control_socket r, epoll_create r]"
    and "center_reach c0 c"
  shows "open_fds c = insert (epollFd c) (watched c) \<and> serverSocket c \<in> watched c \<and> controlSocket c \<in> watched c \<and>
         map_ok (service_map c)"
proof -
  have "center_inv c0"
    using assms(1,2) by (auto simp: set_up_def Let_def center_inv_def map_ok_def split: if_splits)
  with assms(3) have "center_inv c"
    by (induction rule: center_reach.induct) (auto intro: handle_center_event_inv)
  then show ?thesis by (simp add: center_inv_def)
qed

theorem center_never_leaks_witness:
  "\<exists>c. center_reach example_center c \<and> service_map c \<noteq> [] \<and> open_fds c = insert (epollFd c) (watched c)"
proof -
  have "event_ok example_event example_center" by (simp add: event_ok_def example_event_def example_center_def)
  then have reach: "center_reach example_center (example_center\<lparr>service_map := [(''m'', \<lparr>node_addr = ''1:2'', last_seen_ms = 0\<rparr>)]\<rparr>)"
    by (rule center_reach.event [OF center_reach.start _ example_handled])
  then show ?thesis
    using center_never_leaks [OF example_set_up _ reach] by (auto simp: example_calls_def)
qed

section \<open>The service the centre gives\<close>

text \<open>
  The specification: a map from names to nodes, the clients that may ask, and the answers sent so
  far, each with the socket it went to. It knows nothing of sockets that listen, of buffers, of
  \<open>epoll\<close> or of the sorted list.
\<close>

datatype demand =
    Joins int
  | Leaves int
  | Asks int string
  | Commands int string

record service =
  known :: "string \<rightharpoonup> service_node"
  clients :: "int set"
  answers :: "(int \<times> string) list"

definition no_service :: service where
  "no_service = \<lparr>known = Map.empty, clients = {}, answers = []\<rparr>"

fun give :: "int \<Rightarrow> int \<times> demand \<Rightarrow> service \<Rightarrow> service" where
  "give ttl (now, Joins fd) S = S\<lparr>clients := insert fd (clients S)\<rparr>"
| "give ttl (now, Leaves fd) S = S\<lparr>clients := clients S - {fd}\<rparr>"
| "give ttl (now, Asks fd name) S =
     (case live ttl now (known S) name of
        None \<Rightarrow> S\<lparr>known := (known S)(name := None), answers := answers S @ [(fd, ''unknown host'')]\<rparr>
      | Some node \<Rightarrow> S\<lparr>answers := answers S @ [(fd, node_addr node)]\<rparr>)"
| "give ttl (now, Commands fd command) S =
     S\<lparr>known := spec_control ttl now command (known S), answers := answers S @ [(fd, spec_reply ttl now command (known S))]\<rparr>"

text \<open>What the outside world does when it causes an event: the text is what was received, up to a zero byte.\<close>

definition heard :: "recv_result \<Rightarrow> string option" where
  "heard r = (case r of Received bs \<Rightarrow> if bs = [] then None else Some (c_str_to_string (take 1023 bs)) | RecvError \<Rightarrow> None)"

definition demand_of :: "center \<Rightarrow> center_event \<Rightarrow> (int \<times> demand) list" where
  "demand_of c0 e =
     (if ev_fd e = serverSocket c0 then (if accepted e \<noteq> - 1 \<and> add_ok e then [(clock e 0, Joins (accepted e))] else [])
      else if ev_fd e = controlSocket c0 then
        (case heard (received e) of Some command \<Rightarrow> if accepted e \<noteq> - 1 then [(clock e 0, Commands (accepted e) command)] else [] | None \<Rightarrow> [])
      else
        (case heard (received e) of Some name \<Rightarrow> [(clock e 0, Asks (ev_fd e) name)] | None \<Rightarrow> [(clock e 0, Leaves (ev_fd e))]))"

text \<open>
  What is assumed of an event: \<open>recv\<close> does not fail (theory \<open>ServiceDiscovery\<close> says what happens then), and
  the clock stands still while the entries are pruned for one \<open>lookup\<close>.
\<close>

definition steady :: "center_event \<Rightarrow> bool" where
  "steady e \<longleftrightarrow> received e \<noteq> RecvError \<and>
     (\<forall>command. heard (received e) = Some command \<and> fst (split_command command) = ''lookup'' \<longrightarrow> (\<forall>i. clock e i = clock e 0))"

fun events_ok :: "center_event list \<Rightarrow> center \<Rightarrow> bool" where
  "events_ok [] c = True"
| "events_ok (e # es) c =
     (event_ok e c \<and> (case handle_center_event e c of Inl _ \<Rightarrow> True | Inr (c', _) \<Rightarrow> events_ok es c'))"

section \<open>The refinement\<close>

lemma command_text_heard: "r \<noteq> RecvError \<Longrightarrow> command_text r = Inr (heard r)"
  by (auto simp: command_text_def heard_def split: recv_result.splits)

lemma control_command_steady:
  assumes "fst (split_command command) = ''lookup'' \<Longrightarrow> \<forall>i. clk i = clk 0"
  shows "control_command ttl clk command m = control_command ttl (\<lambda>_. clk 0) command m"
proof (cases "split_command command")
  case (Pair oper content)
  show ?thesis
  proof (cases "oper = ''lookup''")
    case True
    with assms Pair have "clk = (\<lambda>_. clk 0)" by (intro ext) simp
    then show ?thesis by (rule arg_cong [of clk "\<lambda>_. clk 0" "\<lambda>f. control_command ttl f command m"])
  next
    case False
    then show ?thesis by (simp add: control_command_def run_operator_def Pair)
  qed
qed

lemma handle_control_spec:
  assumes "map_ok m" and "steady e" and "now = clock e 0"
  shows "\<exists>m'. handle_control ttl (clock e) (received e) m =
       Inr (m', map_option (\<lambda>command. spec_reply ttl now command (map_find m)) (heard (received e))) \<and> map_ok m' \<and>
     map_find m' = (case heard (received e) of None \<Rightarrow> map_find m | Some command \<Rightarrow> spec_control ttl now command (map_find m))"
proof (cases "heard (received e)")
  case None
  then show ?thesis
    using assms by (simp add: handle_control_def command_text_heard steady_def)
next
  case (Some command)
  obtain oper content where sc: "split_command command = (oper, content)" by fastforce
  have "fst (split_command command) = ''lookup'' \<Longrightarrow> \<forall>i. clock e i = clock e 0"
    using assms(2) Some unfolding steady_def by blast
  then have "control_command ttl (clock e) command m = control_command ttl (\<lambda>_. now) command m"
    unfolding assms(3) by (rule control_command_steady)
  moreover obtain m' reply where c: "control_command ttl (\<lambda>_. now) command m = (m', reply)" by fastforce
  moreover have "map_ok m'"
    using map_ok_control [OF assms(1), of ttl "\<lambda>_. now" command] c by simp
  moreover have "map_find m' = spec_control ttl now command (map_find m)"
    using run_operator_map [OF assms(1), of ttl now oper content] c sc by (simp add: control_command_def spec_control_def)
  moreover have "reply = spec_reply ttl now command (map_find m)"
    using run_operator_reply [OF assms(1) sc, of ttl now] c sc by (simp add: control_command_def)
  ultimately show ?thesis
    using Some assms(2) by (simp add: handle_control_def command_text_heard steady_def)
qed

lemma handle_query_spec:
  assumes "map_ok m" and "r \<noteq> RecvError"
  shows "\<exists>m'. handle_query ttl now r m =
       Inr (m', map_option (\<lambda>name. case live ttl now (map_find m) name of None \<Rightarrow> ''unknown host'' | Some node \<Rightarrow> node_addr node) (heard r)) \<and>
     map_ok m' \<and>
     map_find m' = (case heard r of
        None \<Rightarrow> map_find m
      | Some name \<Rightarrow> if live ttl now (map_find m) name = None then (map_find m)(name := None) else map_find m)"
  using assms
  by (cases "heard r")
    (auto simp: handle_query_def command_text_heard query_registry_def live_def map_ok_erase map_find_erase split: option.splits)

text \<open>The centre \<open>c\<close> has given the service \<open>S\<close>; \<open>c0\<close> is the centre at the start.\<close>

definition gives :: "center \<Rightarrow> center \<Rightarrow> (int \<times> string) list \<Rightarrow> service \<Rightarrow> bool" where
  "gives c0 c rs S \<longleftrightarrow> center_inv c \<and> serverSocket c = serverSocket c0 \<and> controlSocket c = controlSocket c0 \<and>
     SERVICE_TTL_MS c = SERVICE_TTL_MS c0 \<and> known S = map_find (service_map c) \<and> answers S = rs \<and>
     watched c = {serverSocket c0, controlSocket c0} \<union> clients S \<and>
     serverSocket c0 \<notin> clients S \<and> controlSocket c0 \<notin> clients S"

lemma gives_joins:
  assumes "gives c0 c rs S" and "event_ok e c" and "ev_fd e = serverSocket c"
  shows "gives c0 (accept_query e c) rs (fold (give (SERVICE_TTL_MS c0)) (demand_of c0 e) S)"
proof -
  have "accepted e \<notin> watched c" "serverSocket c0 = ev_fd e"
    using assms by (auto simp: gives_def center_inv_def event_ok_def)
  moreover have "center_inv (accept_query e c)"
    using assms accept_query_inv by (auto simp: gives_def)
  ultimately show ?thesis
    using assms by (auto simp: gives_def accept_query_def demand_of_def event_ok_def Let_def open_fd_def close_fd_def)
qed

lemma gives_commands:
  assumes "gives c0 c rs S" and "event_ok e c" and "steady e" and "ev_fd e = controlSocket c" and "ev_fd e \<noteq> serverSocket c"
  shows "\<exists>c' r. serve_control e c = Inr (c', r) \<and>
     gives c0 c' (rs @ (case r of None \<Rightarrow> [] | Some x \<Rightarrow> [x])) (fold (give (SERVICE_TTL_MS c0)) (demand_of c0 e) S)"
proof (cases "accepted e = - 1")
  case True
  then show ?thesis using assms by (auto simp: serve_control_def demand_of_def gives_def split: option.splits)
next
  case False
  have S: "map_ok (service_map c)" "known S = map_find (service_map c)" "SERVICE_TTL_MS c = SERVICE_TTL_MS c0"
      "controlSocket c0 = ev_fd e" "ev_fd e \<noteq> serverSocket c0"
    using assms by (auto simp: gives_def center_inv_def)
  obtain m where m: "handle_control (SERVICE_TTL_MS c) (clock e) (received e) (service_map c) =
      Inr (m, map_option (\<lambda>command. spec_reply (SERVICE_TTL_MS c) (clock e 0) command (known S)) (heard (received e)))" "map_ok m"
      "map_find m = (case heard (received e) of None \<Rightarrow> known S | Some command \<Rightarrow> spec_control (SERVICE_TTL_MS c) (clock e 0) command (known S))"
    using handle_control_spec [OF S(1) assms(3) refl, of "SERVICE_TTL_MS c"] unfolding S(2) by blast
  define c' where "c' = close_fd (accepted e) ((open_fd (accepted e) c)\<lparr>service_map := m\<rparr>)"
  have sc: "serve_control e c = Inr (c', map_option (\<lambda>command. (accepted e, spec_reply (SERVICE_TTL_MS c) (clock e 0) command (known S))) (heard (received e)))"
    using False m(1) by (simp add: serve_control_def Let_def c'_def option.map_comp comp_def)
  have "center_inv c'"
    using serve_control_inv [OF sc] assms(1,2) by (simp add: gives_def)
  moreover have "accepted e \<notin> watched c"
    using assms(1,2) by (auto simp: gives_def center_inv_def event_ok_def)
  ultimately have "gives c0 c' (rs @ (case heard (received e) of None \<Rightarrow> [] |
        Some command \<Rightarrow> [(accepted e, spec_reply (SERVICE_TTL_MS c) (clock e 0) command (known S))]))
      (fold (give (SERVICE_TTL_MS c0)) (demand_of c0 e) S)"
    using assms(1) m(2,3) S False by (cases "heard (received e)") (auto simp: gives_def c'_def demand_of_def)
  with sc show ?thesis by (cases "heard (received e)") auto
qed

lemma gives_asks:
  assumes "gives c0 c rs S" and "event_ok e c" and "steady e" and "ev_fd e \<noteq> controlSocket c" and "ev_fd e \<noteq> serverSocket c"
  shows "\<exists>c' r. serve_query e c = Inr (c', r) \<and>
     gives c0 c' (rs @ (case r of None \<Rightarrow> [] | Some x \<Rightarrow> [x])) (fold (give (SERVICE_TTL_MS c0)) (demand_of c0 e) S)"
proof -
  have S: "map_ok (service_map c)" "known S = map_find (service_map c)" "SERVICE_TTL_MS c = SERVICE_TTL_MS c0"
      "ev_fd e \<noteq> controlSocket c0" "ev_fd e \<noteq> serverSocket c0" "received e \<noteq> RecvError"
    using assms by (auto simp: gives_def center_inv_def steady_def)
  define addr where "addr name = (case live (SERVICE_TTL_MS c) (clock e 0) (known S) name of None \<Rightarrow> ''unknown host'' | Some node \<Rightarrow> node_addr node)" for name
  obtain m where m: "handle_query (SERVICE_TTL_MS c) (clock e 0) (received e) (service_map c) = Inr (m, map_option addr (heard (received e)))"
      "map_ok m" "map_find m = (case heard (received e) of None \<Rightarrow> known S
        | Some name \<Rightarrow> if live (SERVICE_TTL_MS c) (clock e 0) (known S) name = None then (known S)(name := None) else known S)"
    using handle_query_spec [OF S(1,6), of "SERVICE_TTL_MS c" "clock e 0"] unfolding S(2) addr_def by blast
  define c' where "c' = (if heard (received e) = None then close_fd (ev_fd e) (c\<lparr>service_map := m\<rparr>) else c\<lparr>service_map := m\<rparr>)"
  have sq: "serve_query e c = Inr (c', map_option (\<lambda>name. (ev_fd e, addr name)) (heard (received e)))"
    using m(1) by (simp add: serve_query_def Let_def c'_def option.map_comp comp_def)
  have "center_inv c'"
    using serve_query_inv [OF sq _ assms(2,5,4)] assms(1) by (simp add: gives_def)
  then have "gives c0 c' (rs @ (case heard (received e) of None \<Rightarrow> [] | Some name \<Rightarrow> [(ev_fd e, addr name)]))
      (fold (give (SERVICE_TTL_MS c0)) (demand_of c0 e) S)"
    using assms(1) m(2,3) S
    by (cases "heard (received e)") (auto simp: gives_def c'_def demand_of_def addr_def split: option.splits)
  with sq show ?thesis by (cases "heard (received e)") auto
qed

lemma event_gives:
  assumes "gives c0 c rs S" and "event_ok e c" and "steady e"
  shows "\<exists>c' r. handle_center_event e c = Inr (c', r) \<and>
     gives c0 c' (rs @ (case r of None \<Rightarrow> [] | Some x \<Rightarrow> [x])) (fold (give (SERVICE_TTL_MS c0)) (demand_of c0 e) S)"
  using gives_joins [OF assms(1,2)] gives_commands [OF assms] gives_asks [OF assms]
  by (auto simp: handle_center_event_def)

lemma events_give:
  assumes "gives c0 c rs S" and "events_ok events c" and "\<forall>e \<in> set events. steady e"
  shows "\<exists>c' rs'. fold_cpp serve_event events (c, rs) = Inr (c', rs') \<and>
     gives c0 c' rs' (fold (give (SERVICE_TTL_MS c0)) (concat (map (demand_of c0) events)) S)"
  using assms
proof (induction events arbitrary: c rs S)
  case (Cons e events)
  obtain c1 r where e: "handle_center_event e c = Inr (c1, r)"
      "gives c0 c1 (rs @ (case r of None \<Rightarrow> [] | Some x \<Rightarrow> [x])) (fold (give (SERVICE_TTL_MS c0)) (demand_of c0 e) S)"
    using event_gives [OF Cons.prems(1), of e] Cons.prems(2,3) by auto
  then show ?case
    using Cons.IH [OF e(2)] Cons.prems(2,3) by (simp add: serve_event_def)
qed simp

lemma rounds_concat:
  "\<forall>round \<in> set rounds. length round \<le> MAX_EVENTS \<Longrightarrow> fold_cpp center_round rounds cr = fold_cpp serve_event (concat rounds) cr"
proof (induction rounds arbitrary: cr)
  case (Cons round rounds)
  then have "fold_cpp center_round rounds = fold_cpp serve_event (concat rounds)" by (intro ext) simp
  with Cons.prems show ?case by (simp add: fold_cpp_append center_round_def [of round])
qed simp

text \<open>
  C25. The centre gives its service to everybody who asks, over any number of rounds of its loop: a
  round reports at most \<open>MAX_EVENTS\<close> events, each of a watched descriptor and with new descriptors
  from \<open>accept\<close>; \<open>recv\<close> does not fail, and the clock stands still while one \<open>lookup\<close> is answered.
  Then no round faults, the registry is the specified map, the watched descriptors are the two
  listening sockets and the clients that have joined and not left, and the answers that were sent
  are exactly the specified ones, each to the socket its question came from, in the order of the
  questions, computed from the map at that time.
\<close>

theorem center_gives_service:
  assumes "set_up config r = Inr c0" and "distinct [server_socket r, control_socket r, epoll_create r]"
    and "\<forall>round \<in> set rounds. length round \<le> MAX_EVENTS" and "events_ok (concat rounds) c0" and "\<forall>e \<in> set (concat rounds). steady e"
    and "S = fold (give (SERVICE_TTL_MS c0)) (concat (map (demand_of c0) (concat rounds))) no_service"
  shows "\<exists>c. fold_cpp center_round rounds (c0, []) = Inr (c, answers S) \<and> map_ok (service_map c) \<and> map_find (service_map c) = known S \<and>
     watched c = {serverSocket c0, controlSocket c0} \<union> clients S"
proof -
  have "gives c0 c0 [] no_service"
    using assms(1,2)
    by (auto simp: set_up_def Let_def gives_def center_inv_def map_ok_def no_service_def map_find_def split: if_splits)
  from events_give [OF this assms(4,5)] obtain c rs where
    "fold_cpp serve_event (concat rounds) (c0, []) = Inr (c, rs)" "gives c0 c rs S"
    unfolding assms(6) by blast
  then show ?thesis
    using rounds_concat [OF assms(3)] by (auto simp: gives_def center_inv_def)
qed

theorem center_gives_service_witness:
  "\<exists>c. fold_cpp center_round [[example_event]] (example_center, []) = Inr (c, [(6, ''add service success'')]) \<and>
     map_find (service_map c) ''m'' = Some \<lparr>node_addr = ''1:2'', last_seen_ms = 0\<rparr> \<and> watched c = {3, 4}"
proof -
  have ok: "events_ok (concat [[example_event]]) example_center"
    by (simp add: event_ok_def example_handled) (simp add: example_event_def example_center_def)
  have st: "\<forall>e \<in> set (concat [[example_event]]). steady e"
    by (simp add: steady_def example_event_def)
  have p: "parseServiceAndAddr ''m 1:2'' = Some (''m'', ''1:2'')" "split_command ''add m 1:2'' = (''add'', ''m 1:2'')"
    by (simp_all add: parseServiceAndAddr_def split_command_def substr_def Let_def)
  have d: "demand_of example_center example_event = [(0, Commands 6 ''add m 1:2'')]"
    by (simp add: demand_of_def example_center_def example_event_def heard_def c_str_to_string_def)
  show ?thesis
    using center_gives_service [OF example_set_up _ _ ok st refl] p
    by (simp add: example_calls_def MAX_EVENTS_def d no_service_def spec_control_def spec_reply_def announced_def)
      (auto simp: example_center_def)
qed

end
