(* ===== verification/Heartbeat.thy ===== *)
theory Heartbeat
  imports RpcDispatcher
begin

text \<open>
  The heartbeat thread of the dispatcher (\<open>startServiceHeartbeat\<close> of \<open>net/rpc/rpc_dispatcher.cc\<close>)
  and the discovery centre together. The thread sleeps, announces every name and starts over; the
  delays until the centre has served each command are inputs, one list per round.
\<close>

section \<open>The thread\<close>

text \<open>One round, begun at a time: the commands with the times at which they are served, and the end.\<close>

fun send_round :: "string \<Rightarrow> int \<Rightarrow> int \<Rightarrow> string list \<Rightarrow> int list \<Rightarrow> (int \<times> string) list \<times> int" where
  "send_round local_ip local_port t (service_name # names) (d # ds) =
     (let (cmds, t') = send_round local_ip local_port (t + d) names ds
      in ((t + d, heartbeat_service service_name local_ip local_port) # cmds, t'))"
| "send_round local_ip local_port t _ _ = ([], t)"

fun startServiceHeartbeat ::
  "config_map \<Rightarrow> string list \<Rightarrow> string \<Rightarrow> int \<Rightarrow> int \<Rightarrow> int list list \<Rightarrow> (int \<times> string) list" where
  "startServiceHeartbeat config names local_ip local_port t [] = []"
| "startServiceHeartbeat config names local_ip local_port t (ds # rounds) =
     (let (cmds, t') = send_round local_ip local_port (t + heartbeat_interval config) names ds
      in cmds @ startServiceHeartbeat config names local_ip local_port t' rounds)"

section \<open>Gaps between beats\<close>

fun gaps_le :: "int \<Rightarrow> int \<Rightarrow> int list \<Rightarrow> bool" where
  "gaps_le g t0 [] = True"
| "gaps_le g t0 (t # ts) = (t \<le> t0 + g \<and> gaps_le g t ts)"

text \<open>The times at which a command is served.\<close>

definition times_of :: "string \<Rightarrow> (int \<times> string) list \<Rightarrow> int list" where
  "times_of cmd cs = map fst (filter (\<lambda>(t, c). c = cmd) cs)"

lemma times_of_simps [simp]:
  "times_of cmd [] = []" "times_of cmd ((t, c) # cs) = (if c = cmd then t # times_of cmd cs else times_of cmd cs)"
  "times_of cmd (cs @ cs') = times_of cmd cs @ times_of cmd cs'"
  by (simp_all add: times_of_def)

lemma gaps_le_mono: "gaps_le g t0 ts \<Longrightarrow> g \<le> h \<Longrightarrow> gaps_le h t0 ts"
  by (induction ts arbitrary: t0) auto

lemma heartbeat_service_inj [simp]:
  "heartbeat_service n ip port = heartbeat_service n' ip port \<longleftrightarrow> n = n'"
  by (simp add: heartbeat_service_def add_command_def)

lemma send_round_sends:
  "length ds = length names \<Longrightarrow> map snd (fst (send_round ip port t names ds)) = heartbeat_round names ip port"
  by (induction ip port t names ds rule: send_round.induct) (auto simp: heartbeat_round_def split: prod.splits)

lemma send_round_end:
  "length ds = length names \<Longrightarrow> snd (send_round ip port t names ds) = t + sum_list ds"
  by (induction ip port t names ds rule: send_round.induct) (auto split: prod.splits)

lemma send_round_other: "n \<notin> set names \<Longrightarrow> times_of (heartbeat_service n ip port) (fst (send_round ip port t names ds)) = []"
  by (induction ip port t names ds rule: send_round.induct) (auto split: prod.splits)

lemma send_round_beat:
  assumes "n \<in> set names" and "distinct names" and "length ds = length names" and "\<forall>d \<in> set ds. 0 \<le> d"
  shows "\<exists>p. times_of (heartbeat_service n ip port) (fst (send_round ip port t names ds)) = [p] \<and> t \<le> p \<and> p \<le> t + sum_list ds"
  using assms
proof (induction ip port t names ds rule: send_round.induct)
  case (1 ip port t x names d ds)
  have nonneg: "0 \<le> sum_list ds" using "1.prems"(4) by (simp add: sum_list_nonneg)
  show ?case
  proof (cases "n = x")
    case True
    then show ?thesis using "1.prems" nonneg send_round_other [of n names ip port "t + d" ds]
      by (simp add: split_beta)
  next
    case False
    then show ?thesis using "1.IH" "1.prems" by (fastforce simp: split_beta)
  qed
qed auto

lemma heartbeat_gaps:
  assumes "n \<in> set names" and "distinct names"
    and "\<forall>ds \<in> set rounds. length ds = length names \<and> (\<forall>d \<in> set ds. 0 \<le> d) \<and> sum_list ds \<le> D"
    and "t \<le> t0 + D" and "0 \<le> D"
  shows "gaps_le (heartbeat_interval config + 2 * D) t0
           (times_of (heartbeat_service n ip port) (startServiceHeartbeat config names ip port t rounds))"
  using assms(3,4)
proof (induction rounds arbitrary: t t0)
  case (Cons ds rounds)
  let ?t = "t + heartbeat_interval config"
  have ds: "length ds = length names" "\<forall>d \<in> set ds. 0 \<le> d" "sum_list ds \<le> D" using Cons.prems(1) by auto
  obtain p where p: "times_of (heartbeat_service n ip port) (fst (send_round ip port ?t names ds)) = [p]" "?t \<le> p" "p \<le> ?t + sum_list ds"
    using send_round_beat [OF assms(1,2) ds(1,2)] by blast
  have "?t + sum_list ds \<le> p + D" using p(2) ds(3) by simp
  then show ?case
    using Cons.IH [of "?t + sum_list ds" p] Cons.prems p ds by (simp add: split_beta send_round_end)
qed simp

section \<open>The centre\<close>

definition beats :: "string \<Rightarrow> (int \<times> request) list \<Rightarrow> int list" where
  "beats cmd es = map fst (filter (\<lambda>(t, r). r = ControlRequest (Received cmd)) es)"

lemma first_beat_later:
  assumes "sorted (map fst ((t, r) # es))" and "beats cmd es = b # bs"
  shows "t \<le> b"
proof -
  have "b \<in> set (beats cmd es)" using assms(2) by simp
  then obtain q where "(b, q) \<in> set es" by (auto simp: beats_def)
  then show ?thesis using assms(1) by force
qed

lemma serve_beat:
  assumes "name_ok n" and "CHR 0x00 \<notin> set ip" and "length (heartbeat_service n ip port) \<le> 1023"
  shows "serve ttl (t, ControlRequest (Received (heartbeat_service n ip port))) m =
           Inr (refresh n (ip @ '':'' @ to_string port) t m)"
proof -
  have "CHR 0x00 \<notin> set (to_string port)" using to_string_chars [of port] by (force simp: is_digit_def)
  then have "command_text (Received (heartbeat_service n ip port)) = Inr (Some (heartbeat_service n ip port))"
    using assms by (intro command_text_short) (auto simp: heartbeat_service_def add_command_def name_ok_def)
  then show ?thesis
    using control_add_command [OF assms(1), of "''heartbeat''"] by (simp add: handle_control_def heartbeat_service_def)
qed

lemma served_with_beats:
  assumes "name_ok n" and "CHR 0x00 \<notin> set ip" and "length (heartbeat_service n ip port) \<le> 1023"
    and "map_ok m" and "map_find m n = Some \<lparr>node_addr = ip @ '':'' @ to_string port, last_seen_ms = t0\<rparr>"
    and "sorted (map fst es)"
    and "\<forall>(t, r) \<in> set es. r = ControlRequest (Received (heartbeat_service n ip port)) \<or> \<not> concerns n r"
    and "gaps_le ttl t0 (beats (heartbeat_service n ip port) es)"
    and "\<forall>(t, r) \<in> set es. t \<le> last (t0 # beats (heartbeat_service n ip port) es) + ttl"
    and "fold_cpp (serve ttl) es m = Inr m'"
  shows "map_find m' n = Some \<lparr>node_addr = ip @ '':'' @ to_string port,
           last_seen_ms = last (t0 # beats (heartbeat_service n ip port) es)\<rparr>"
  using assms(4-)
proof (induction es arbitrary: m t0)
  case Nil
  then show ?case by (simp add: beats_def)
next
  case (Cons e es)
  obtain t r where e: "e = (t, r)" by (cases e)
  let ?beat = "ControlRequest (Received (heartbeat_service n ip port))"
  obtain m1 where m1: "serve ttl (t, r) m = Inr m1" "fold_cpp (serve ttl) es m1 = Inr m'"
    using Cons.prems(7) by (auto simp: e bind_cpp_eq_Inr)
  show ?case
  proof (cases "r = ?beat")
    case True
    have "m1 = refresh n (ip @ '':'' @ to_string port) t m" using m1(1) serve_beat [OF assms(1-3)] True by simp
    then have "map_ok m1" "map_find m1 n = Some \<lparr>node_addr = ip @ '':'' @ to_string port, last_seen_ms = t\<rparr>"
      using Cons.prems(1) by (simp_all add: refresh_def map_ok_assign map_find_assign)
    then show ?thesis using Cons.IH [OF _ _ _ _ _ _ m1(2), of t] Cons.prems True by (simp add: e beats_def)
  next
    case False
    have bs: "beats (heartbeat_service n ip port) ((t, r) # es) = beats (heartbeat_service n ip port) es"
      using False by (simp add: beats_def)
    have "t \<le> t0 + ttl"
    proof (cases "beats (heartbeat_service n ip port) es")
      case Nil
      then show ?thesis using Cons.prems(6) by (simp add: e bs)
    next
      case (Cons b rest)
      then show ?thesis using first_beat_later [OF _ Cons] \<open>sorted (map fst (e # es))\<close>
          \<open>gaps_le ttl t0 (beats (heartbeat_service n ip port) (e # es))\<close> by (fastforce simp: e bs)
    qed
    then have "map_ok m1 \<and> map_find m1 n = map_find m n"
      using serve_other [OF Cons.prems(1) _ Cons.prems(2) _ m1(1)] Cons.prems(2,4) False
      by (auto simp: e isExpired_def)
    then show ?thesis using Cons.IH [OF _ _ _ _ _ _ m1(2), of t0] Cons.prems bs by (auto simp: e)
  qed
qed

text \<open>
  C26. Heartbeats keep a service registered: a name the heartbeat thread announces, registered at
  \<open>t0\<close>, is found at every time up to one time to live after the last heartbeat, whatever other
  requests the centre serves (none of them concerning the name), provided that a round of
  heartbeats takes at most \<open>D\<close> and that the interval and two such delays fit into the time to live.
\<close>

theorem heartbeats_keep_service_found:
  assumes "name_ok n" and "length n \<le> 1023" and "CHR 0x00 \<notin> set ip" and "length (heartbeat_service n ip port) \<le> 1023"
    and "n \<in> set names" and "distinct names"
    and "\<forall>ds \<in> set rounds. length ds = length names \<and> (\<forall>d \<in> set ds. 0 \<le> d) \<and> sum_list ds \<le> D"
    and "0 \<le> D" and "heartbeat_interval config + 2 * D \<le> getServiceTTL config"
    and "map_ok m" and "map_find m n = Some \<lparr>node_addr = ip @ '':'' @ to_string port, last_seen_ms = t0\<rparr>" and "t \<le> t0 + D"
    and "bs = times_of (heartbeat_service n ip port) (startServiceHeartbeat config names ip port t rounds)"
    and "beats (heartbeat_service n ip port) es = bs" and "sorted (map fst es)"
    and "\<forall>(u, r) \<in> set es. u \<le> last (t0 # bs) + getServiceTTL config \<and>
           (r = ControlRequest (Received (heartbeat_service n ip port)) \<or> \<not> concerns n r)"
    and "fold_cpp (serve (getServiceTTL config)) es m = Inr m'" and "u \<le> last (t0 # bs) + getServiceTTL config"
  shows "handle_query (getServiceTTL config) u (Received n) m' = Inr (m', Some (ip @ '':'' @ to_string port))"
proof -
  have "gaps_le (getServiceTTL config) t0 bs"
    using heartbeat_gaps [OF assms(5,6,7,12,8)] assms(9,13) gaps_le_mono by blast
  then have "map_find m' n = Some \<lparr>node_addr = ip @ '':'' @ to_string port, last_seen_ms = last (t0 # bs)\<rparr>"
    using served_with_beats [OF assms(1,3,4,10,11,15) _ _ _ assms(17)] assms(14,16) by fastforce
  moreover have "command_text (Received n) = Inr (Some n)"
    using assms(1,2) by (intro command_text_short) (auto simp: name_ok_def)
  ultimately show ?thesis
    using assms(18) by (simp add: handle_query_def query_registry_def isExpired_def)
qed

theorem heartbeats_keep_service_found_witness:
  "\<exists>m'. fold_cpp (serve 10000)
          [(5010, ControlRequest (Received (heartbeat_service ''S.m'' ''h'' 1))),
           (10030, ControlRequest (Received (heartbeat_service ''S.m'' ''h'' 1)))]
          [(''S.m'', \<lparr>node_addr = ''h:'' @ to_string 1, last_seen_ms = 0\<rparr>)] = Inr m' \<and>
     handle_query 10000 20000 (Received ''S.m'') m' = Inr (m', Some (''h:'' @ to_string 1))"
proof -
  let ?cmd = "heartbeat_service ''S.m'' ''h'' 1"
  let ?es = "[(5010, ControlRequest (Received ?cmd)), (10030, ControlRequest (Received ?cmd))]"
  let ?m = "[(''S.m'', \<lparr>node_addr = ''h'' @ '':'' @ to_string 1, last_seen_ms = 0\<rparr>)]"
  have ttl: "getServiceTTL Map.empty = 10000" "heartbeat_interval Map.empty = 5000"
    by (simp_all add: getServiceTTL_def heartbeat_interval_def DEFAULT_SERVICE_TTL_MS_def MIN_HEARTBEAT_INTERVAL_MS_def)
  have ok: "name_ok ''S.m''" "length ?cmd \<le> 1023" "CHR 0x00 \<notin> set ''h''"
    by (simp_all add: name_ok_def heartbeat_service_def add_command_def to_string_def dec_of_nat.simps)
  obtain m' where m': "fold_cpp (serve 10000) ?es ?m = Inr m'"
    using serve_beat [OF ok(1,3,2)] by (simp del: serve.simps)
  have "handle_query 10000 20000 (Received ''S.m'') m' = Inr (m', Some (''h'' @ '':'' @ to_string 1))"
    using heartbeats_keep_service_found [where n = "''S.m''" and names = "[''S.m'']" and rounds = "[[10], [20]]" and D = 1000
        and config = Map.empty and m = ?m and t0 = 0 and t = 0 and bs = "[5010, 10030]" and es = ?es and u = 20000
        and ip = "''h''" and port = 1 and m' = m'] ok m'
    by (simp add: ttl beats_def map_ok_def map_find_def)
  then show ?thesis using m' by auto
qed

end
