(* ===== verification/Spec2Isabelle.thy ===== *)
theory Spec2Isabelle
  imports ClientProps CallDeadline WakeUp CriticalSections Lifetimes Log HighAvailability DiscoveryCenter Heartbeat
begin

text \<open>
  A verification of KaiRPC, a C++17 framework for remote procedure calls over TCP. File names
  below are relative to the root of the repository's sources.

  \<^bold>\<open>The program.\<close> A client calls a protobuf method through \<open>RpcChannel\<close>, which finds the address of
  the service, connects a \<open>TcpClient\<close> and sends the request as one TinyPB packet. On the server a
  \<open>TcpServer\<close> accepts connections and gives each to the event loop of an \<open>IOThread\<close>; the
  \<open>TcpConnection\<close> reads bytes into a \<open>TcpBuffer\<close>, the \<open>TinyPBCoder\<close> cuts them into messages, the
  \<open>RpcDispatcher\<close> calls the registered service and the reply goes back the same way. The event loop
  (\<open>Eventloop\<close>, \<open>Fd_Event\<close>, \<open>Timer\<close>) drives everything. A separate process, the discovery centre, maps
  method names to addresses.

  \<^bold>\<open>How code becomes definitions.\<close> A class is a record with the names of its members, an enumeration
  a datatype, a member function a function on the record, with a prefix or suffix where the
  name is taken. What has no defined result in C++ (signed overflow, access outside an object, a
  negative container size, a null pointer, the destruction of a connection that its thread may still
  use) is a \<^typ>\<open>fault\<close>, the left side of \<^typ>\<open>'a cpp\<close>; statements are
  sequenced by \<^const>\<open>bind_cpp\<close>. An \<open>int\<close> is an integer with \<^const>\<open>checked_int\<close> at every operation that
  could overflow; the fields of packets and the masks of epoll are words. Results of system calls,
  of the clock, of protobuf and of the XML library are arguments. Log lines are left out except in
  the theory \<open>Log\<close>. Calls that a component makes of the kernel or of another thread are recorded in its
  state where a property speaks of them.

  \<^bold>\<open>Theories.\<close>
  \<^item> \<open>Prelude\<close>, \<open>CppString\<close>, \<open>StdMap\<close>: the fault monad, \<open>memcpy\<close>, strings and number conversions,
    \<open>std::map\<close> and \<open>std::multimap\<close> as sorted association lists.
  \<^item> \<open>TcpBuffer\<close> (\<open>net/tcp/tcp_buffer.cc\<close>): the byte buffer, its index invariant over any sequence of
    calls, and the locale \<open>byte_queue\<close> that it implements.
  \<^item> \<open>TinyPBCoder\<close>, \<open>TinyPBSpec\<close>, \<open>TinyPBProps\<close> (\<open>net/coder\<close>): both coders; the packet format as a
    parser on byte lists; the decoder on indices refines it, decoding inverts encoding, and
    the way the stream is cut into pieces does not matter.
  \<^item> \<open>NetAddr\<close>, \<open>MsgId\<close>, \<open>ErrCode\<close>: addresses, message ids, error codes.
  \<^item> \<open>Timer\<close>, \<open>FdEvent\<close>, \<open>EventLoop\<close> (\<open>net/timer.cc\<close>, \<open>net/fd_event.cc\<close>, \<open>net/eventloop.cc\<close>): the timer
    fires exactly what is due, and its one-shot descriptor, which every expiry disarms, is armed again
    while an event is pending; the listened descriptors are the interest set of the kernel as long
    as \<open>epoll_ctl\<close> refuses only what it must and descriptors are closed after they are unregistered
    (\<open>kernel_reach\<close>); tasks run once and in order; a stopped loop returns.
  \<^item> \<open>TcpConnection\<close>, \<open>ConnectionProps\<close> (\<open>net/tcp/tcp_connection.cc\<close>): reading, executing, writing,
    closing on both sides; no byte of the output is lost or reordered; a closed connection is inert.
  \<^item> \<open>TcpClient\<close> (\<open>net/tcp/tcp_client.cc\<close>): connecting with all its outcomes, queueing, disconnecting.
  \<^item> \<open>IOThread\<close>, \<open>TcpServer\<close> (\<open>net/iothread.cc\<close>, \<open>net/iothreadgroup.cc\<close>, \<open>net/tcp/tcp_acceptor.cc\<close>,
    \<open>net/tcp/tcp_server.cc\<close>): threads and their round robin, accepting, shutting down. \<open>join\<close> runs the
    thread to its end and is undefined (\<open>None\<close>) when the thread never ends, so the order in which
    the destructors stop, join and destroy is part of what is proved.
  \<^item> \<open>RpcController\<close>, \<open>RpcDispatcher\<close>, \<open>RpcChannel\<close>, \<open>RpcInterface\<close> (\<open>net/rpc\<close>): cancellation, dispatch and
    registration, the life of a call with its racing events, the reference-counted interface with
    its closures and with \<open>reply\<close> and \<open>destroy\<close> called by hand.
  \<^item> \<open>RequestStream\<close>: the locales \<open>message_handler\<close> and \<open>request_handler\<close> for whatever a
    connection does with decoded messages; interpreted by the dispatcher and by a client.
  \<^item> \<open>EndToEnd\<close>: a call composed of client, network, server and dispatcher.
  \<^item> \<open>ServedLoop\<close>, \<open>ServedProps\<close>: the event loop of an IO thread composed with the connections it serves
    and the dispatcher, as a step relation of the loop's thread, the accepting thread and the network.
    The locale \<open>loop_handler\<close> extends \<open>request_handler\<close>; its lemmas give the invariant that no open
    connection is forgotten, and that a request is answered after a bounded number of iterations.
  \<^item> \<open>ClientLoop\<close>, \<open>ClientProps\<close>: a call on the thread of its caller: the request state of the channel, the
    client, the connection and the loop that \<open>connect\<close> enters, with every call and callback between
    them. The loop returns only when the call is completed; a call that is answered, and one whose
    connection fails, leave it after a bounded number of iterations. Calls that do not enter the loop
    (an immediate connection, a call inside the running loop) are not driven by anything.
  \<^item> \<open>CallDeadline\<close>: a call composed with the timer of its client's loop: the deadline of an open call stays
    armed, and when it comes the call ends with the timeout error.
  \<^item> \<open>WakeUp\<close> (\<open>net/wakeup_fd_event.cc\<close>): the wakeup descriptor between the loop's thread and the others: \<open>epoll_wait\<close>
    returns events only of what is registered and readable and does not return empty while the wakeup
    descriptor is; a waiting loop is woken, a loop that is just reading the descriptor may miss a wake-up.
  \<^item> \<open>Mutex\<close>, \<open>CriticalSections\<close> (\<open>common/mutex.h\<close>): the scope lock on any number of threads, and what it
    does for the data it protects, access by access. The locale \<open>critical_section\<close> is interpreted on
    \<open>getFdEvent\<close> and \<open>addTask\<close>: scoped sections act as single steps, one after the other.
  \<^item> \<open>Lifetimes\<close>: the objects that exist once per process or thread (locale \<open>singleton\<close>), thread ids, and
    the destructors that release descriptors, events and threads.
  \<^item> \<open>Config\<close>, \<open>ServiceDiscovery\<close>, \<open>DiscoveryCenter\<close> (\<open>common/config.cc\<close>, \<open>common/config_reader.h\<close>,
    \<open>net/service_discovery\<close>): configuration files, the registry as a refinement of finite maps, the
    process around it with its descriptors, which over any number of rounds gives every client the
    answers of an abstract service. \<open>Heartbeat\<close> (\<open>net/rpc/rpc_dispatcher.cc\<close>) composes the centre with
    the thread that announces the services of a dispatcher.
  \<^item> \<open>Log\<close>, \<open>HighAvailability\<close> (\<open>common\<close>): the logging pipeline as a step relation of threads whose
    critical sections do not overlap (those of \<open>log.cc\<close> can, through their explicit unlocks), the
    supervisor and its end.

  \<^bold>\<open>Loops, bounds and concurrency.\<close> Loops of the code that end are total functions: the decoder and the
  supervisor with a measure, the others by recursion on the data or on the list of kernel results
  they consume. The event loop recurses on the list of the results of \<open>epoll_wait\<close>, so a run is as
  long as that list; the properties that promise an effect say after how many results it is there.
  Buffer growth is bounded by \<open>INT_MAX\<close>: the hypotheses named \<open>room\<close> state that a stream fits. Threads
  interleave as sequences of steps; a critical section is one step. \<open>CriticalSections\<close> shows when that
  is justified: sections that end with their scope have the effect of their operations one after the
  other; with an explicit unlock two of them can overlap, and a task queued by \<open>addTask\<close> can be lost.
  The other theories describe the behaviour under a mutex that works.

  \<^bold>\<open>Not modelled.\<close> Protobuf itself, the XML parser, formatted output and the calendar are
  parameters or inputs. Destructors that only release memory and getters of single fields (except
  those of the controller) have no definition. Memory allocation succeeds. Data races outside the mutexes are not modelled, except that a
  connection is destroyed only after its thread has been joined, nor is the time a
  blocking call takes. A callback that a connection runs takes effect when the connection's function
  has returned, one call runs at a time on the loop of its caller, and an exchange of the heartbeat
  thread with the centre is delivered. The programs under \<open>test\<close> drive the library and have no logic of their own.
\<close>

end
